(* ===== verification/Prelude.thy ===== *)
theory Prelude
  imports Main "HOL-Library.Word" "HOL-Library.Monad_Syntax"
begin

unbundle bit_operations_syntax

text \<open>
  What the component theories share: the machine integers and byte buffers of the Rust
  sources, slices and indexing with the panic written out, the big- and little-endian
  integer codecs, the question-mark operator, IPv4 addresses, durations and instants, and
  the generic lemmas about them.

  \<^item> A Rust expression that can panic (an index or a slice out of range) is an
    \<open>option\<close>: \<open>None\<close> is the panic. A \<open>Result\<close> is a sum, \<open>Inl\<close> the error.
    A fallible function that may also panic returns \<open>('e + 'a) option\<close>.
  \<^item> \<open>usize\<close> is \<open>nat\<close>, with the 64-bit bound written out where the source asks
    for it (\<open>checked_add\<close>); the other widths are words. Arithmetic on words wraps, as it
    does in the release profile of \<^verbatim>\<open>src/Cargo.toml\<close>, which leaves the overflow checks
    off.
  \<^item> A \<open>Duration\<close> is a number of nanoseconds and an \<open>Instant\<close> a point on the
    monotonic clock, counted in nanoseconds. Subtraction of instants saturates at zero, as
    \<open>Instant::duration_since\<close> does.
\<close>

named_theorems byte_simps \<open>the endian codecs and slices of a buffer\<close>
named_theorems parse_simps \<open>closed forms of the parsers\<close>
named_theorems const_simps \<open>the constants of the sources\<close>

subsection \<open>Types\<close>

type_synonym u8 = "8 word"
type_synonym u16 = "16 word"
type_synonym u32 = "32 word"
type_synonym u64 = "64 word"
type_synonym bytes = "u8 list"
type_synonym usize = nat
type_synonym duration = nat
type_synonym instant = nat

definition from_secs :: "nat \<Rightarrow> duration" where
  "from_secs s = s * 1000000000"

definition from_millis :: "nat \<Rightarrow> duration" where
  "from_millis ms = ms * 1000000"

subsection \<open>Buffers: indexing, slicing, resizing\<close>

text \<open>\<open>buf[i]\<close>: panics out of range.\<close>

definition index :: "'a list \<Rightarrow> nat \<Rightarrow> 'a option" where
  "index xs i = (if i < length xs then Some (xs ! i) else None)"

text \<open>\<open>buf.get(a..b)\<close> is \<open>None\<close> and \<open>buf[a..b]\<close> panics outside \<open>a \<le> b \<le> len\<close>.\<close>

definition slice :: "nat \<Rightarrow> nat \<Rightarrow> 'a list \<Rightarrow> 'a list option" where
  "slice a b xs = (if a \<le> b \<and> b \<le> length xs then Some (take (b - a) (drop a xs)) else None)"

text \<open>\<open>Vec::resize\<close>: cut to the length, or padded with the value.\<close>

definition resize :: "'a list \<Rightarrow> nat \<Rightarrow> 'a \<Rightarrow> 'a list" where
  "resize xs n v = take n xs @ replicate (n - length xs) v"

text \<open>\<open>xs[a..a + len ys].copy_from_slice(ys)\<close> on a range inside the buffer.\<close>

definition overwrite :: "nat \<Rightarrow> 'a list \<Rightarrow> 'a list \<Rightarrow> 'a list" where
  "overwrite a ys xs = take a xs @ ys @ drop (a + length ys) xs"

text \<open>\<open>usize::checked_add\<close> and \<open>usize::next_multiple_of\<close>.\<close>

definition checked_add :: "usize \<Rightarrow> usize \<Rightarrow> usize option" where
  "checked_add a b = (if a + b < 2 ^ 64 then Some (a + b) else None)"

definition next_multiple_of :: "usize \<Rightarrow> usize \<Rightarrow> usize" where
  "next_multiple_of a k = (if a mod k = 0 then a else a + (k - a mod k))"

text \<open>\<open>data.chunks_exact(4)\<close>: a remainder shorter than the chunk is left out.\<close>

fun chunks_exact4 :: "'a list \<Rightarrow> ('a \<times> 'a \<times> 'a \<times> 'a) list" where
  "chunks_exact4 (a # b # c # d # xs) = (a, b, c, d) # chunks_exact4 xs"
| "chunks_exact4 _ = []"

text \<open>\<open>iter.find_map(f)\<close>: the first value \<open>f\<close> yields.\<close>

fun find_map :: "('a \<Rightarrow> 'b option) \<Rightarrow> 'a list \<Rightarrow> 'b option" where
  "find_map f [] = None"
| "find_map f (x # xs) = (case f x of Some y \<Rightarrow> Some y | None \<Rightarrow> find_map f xs)"

text \<open>\<open>format!("{n}")\<close> of an unsigned integer.\<close>

fun nat_string :: "nat \<Rightarrow> string" where
  "nat_string n = (if n < 10 then [''0123456789'' ! n]
                   else nat_string (n div 10) @ [''0123456789'' ! (n mod 10)])"

declare nat_string.simps [simp del]

subsection \<open>The question-mark operator\<close>

text \<open>
  \<open>x?\<close> on a value that may also panic: the panic and the error both leave the function.
\<close>

definition tryq :: "('e + 'a) option \<Rightarrow> ('a \<Rightarrow> ('e + 'b) option) \<Rightarrow> ('e + 'b) option" where
  "tryq m f = (case m of None \<Rightarrow> None | Some (Inl e) \<Rightarrow> Some (Inl e) | Some (Inr a) \<Rightarrow> f a)"

text \<open>\<open>x?\<close> on a plain \<open>Result\<close>.\<close>

definition tryr :: "'e + 'a \<Rightarrow> ('a \<Rightarrow> 'e + 'b) \<Rightarrow> 'e + 'b" where
  "tryr m f = (case m of Inl e \<Rightarrow> Inl e | Inr a \<Rightarrow> f a)"

text \<open>\<open>x?\<close> on an operation with state.\<close>

definition trys :: "('e + 'a) \<times> 's \<Rightarrow> ('a \<Rightarrow> 's \<Rightarrow> ('e + 'b) \<times> 's) \<Rightarrow> ('e + 'b) \<times> 's" where
  "trys m f = (case m of (Inl e, s) \<Rightarrow> (Inl e, s) | (Inr a, s) \<Rightarrow> f a s)"

text \<open>\<open>o.ok_or(e)\<close>\<close>

definition ok_or :: "'a option \<Rightarrow> 'e \<Rightarrow> 'e + 'a" where
  "ok_or x e = (case x of None \<Rightarrow> Inl e | Some a \<Rightarrow> Inr a)"

subsection \<open>Endian codecs\<close>

definition from_be16 :: "u8 \<Rightarrow> u8 \<Rightarrow> u16" where
  "from_be16 a b = push_bit 8 (ucast a) OR ucast b"

definition to_be16 :: "u16 \<Rightarrow> bytes" where
  "to_be16 w = [ucast (drop_bit 8 w), ucast w]"

definition from_be32 :: "u8 \<Rightarrow> u8 \<Rightarrow> u8 \<Rightarrow> u8 \<Rightarrow> u32" where
  "from_be32 a b c d =
     push_bit 24 (ucast a) OR push_bit 16 (ucast b) OR push_bit 8 (ucast c) OR ucast d"

definition to_be32 :: "u32 \<Rightarrow> bytes" where
  "to_be32 w = [ucast (drop_bit 24 w), ucast (drop_bit 16 w), ucast (drop_bit 8 w), ucast w]"

definition from_le32 :: "u8 \<Rightarrow> u8 \<Rightarrow> u8 \<Rightarrow> u8 \<Rightarrow> u32" where
  "from_le32 a b c d = from_be32 d c b a"

definition to_le32 :: "u32 \<Rightarrow> bytes" where
  "to_le32 w = rev (to_be32 w)"

subsection \<open>IPv4 addresses (\<open>std::net::Ipv4Addr\<close>)\<close>

datatype ipv4_addr = Ipv4Addr u8 u8 u8 u8

fun octets :: "ipv4_addr \<Rightarrow> bytes" where
  "octets (Ipv4Addr a b c d) = [a, b, c, d]"

fun u32_of_ip :: "ipv4_addr \<Rightarrow> u32" where
  "u32_of_ip (Ipv4Addr a b c d) = from_be32 a b c d"

definition ip_of_u32 :: "u32 \<Rightarrow> ipv4_addr" where
  "ip_of_u32 w =
     Ipv4Addr (ucast (drop_bit 24 w)) (ucast (drop_bit 16 w)) (ucast (drop_bit 8 w)) (ucast w)"

text \<open>The address at an offset of a buffer, for the closed forms of the parsers.\<close>

definition ip_at :: "bytes \<Rightarrow> nat \<Rightarrow> ipv4_addr" where
  "ip_at b i = Ipv4Addr (b ! i) (b ! (i + 1)) (b ! (i + 2)) (b ! (i + 3))"

definition IP_UNSPECIFIED :: ipv4_addr where
  "IP_UNSPECIFIED = Ipv4Addr 0 0 0 0"

definition IP_BROADCAST :: ipv4_addr where
  "IP_BROADCAST = Ipv4Addr 255 255 255 255"

definition is_unspecified :: "ipv4_addr \<Rightarrow> bool" where
  "is_unspecified ip = (ip = IP_UNSPECIFIED)"

subsection \<open>Lemmas: options and the question mark\<close>

lemma trys_simps [simp]: "trys (Inl e, s) f = (Inl e, s)" "trys (Inr a, s) f = f a s"
  by (simp_all add: trys_def)

lemma trys_Inr: "trys m f = (Inr b, s') \<Longrightarrow> \<exists>a s. m = (Inr a, s) \<and> f a s = (Inr b, s')"
  by (auto simp: trys_def split: prod.splits sum.splits)

lemma tryq_simps [simp]:
  "tryq None f = None"
  "tryq (Some (Inl e)) f = Some (Inl e)"
  "tryq (Some (Inr a)) f = f a"
  by (simp_all add: tryq_def)

lemma tryq_eq_Some_Inr:
  "tryq m f = Some (Inr b) \<longleftrightarrow> (\<exists>a. m = Some (Inr a) \<and> f a = Some (Inr b))"
  by (auto simp: tryq_def split: option.splits sum.splits)

lemma tryq_neq_None: "m \<noteq> None \<Longrightarrow> (\<And>a. m = Some (Inr a) \<Longrightarrow> f a \<noteq> None) \<Longrightarrow> tryq m f \<noteq> None"
  by (auto simp: tryq_def split: option.splits sum.splits)

lemma tryr_simps [simp]: "tryr (Inl e) f = Inl e" "tryr (Inr a) f = f a"
  by (simp_all add: tryr_def)

lemma tryr_eq_Inr: "tryr m f = Inr b \<longleftrightarrow> (\<exists>a. m = Inr a \<and> f a = Inr b)"
  by (auto simp: tryr_def split: sum.splits)

lemma ok_or_simps [simp]: "ok_or None e = Inl e" "ok_or (Some a) e = Inr a"
  by (simp_all add: ok_or_def)

subsection \<open>Lemmas: buffers\<close>

text \<open>Length conditions stay inequalities, so that linear arithmetic discharges them.\<close>

declare length_greater_0_conv [simp del]

lemma index_Some [simp]: "i < length xs \<Longrightarrow> index xs i = Some (xs ! i)"
  by (simp add: index_def)

lemma index_None [simp]: "\<not> i < length xs \<Longrightarrow> index xs i = None"
  by (simp add: index_def)

lemma slice_Some [simp]: "a \<le> b \<Longrightarrow> b \<le> length xs \<Longrightarrow> slice a b xs = Some (take (b - a) (drop a xs))"
  by (simp add: slice_def)

lemma slice_eq_Some_iff:
  "slice a b xs = Some ys \<longleftrightarrow> a \<le> b \<and> b \<le> length xs \<and> ys = take (b - a) (drop a xs)"
  by (auto simp: slice_def)

lemma slice_length: "slice a b xs = Some ys \<Longrightarrow> length ys = b - a"
  by (auto simp: slice_eq_Some_iff)

lemma slice_append_middle:
  "length xs = a \<Longrightarrow> b = a + length ys \<Longrightarrow> slice a b (xs @ ys @ zs) = Some ys"
  by (simp add: slice_def)

lemma length_resize [simp]: "length (resize xs n v) = n"
  by (simp add: resize_def)

lemma resize_ge: "length xs \<le> n \<Longrightarrow> resize xs n v = xs @ replicate (n - length xs) v"
  by (simp add: resize_def)

lemma length_overwrite: "a + length ys \<le> length xs \<Longrightarrow> length (overwrite a ys xs) = length xs"
  by (simp add: overwrite_def)

lemma checked_add_small: "a + b < 2 ^ 64 \<Longrightarrow> checked_add a b = Some (a + b)"
  by (simp add: checked_add_def)

lemma next_multiple_of_ge: "a \<le> next_multiple_of a k"
  by (simp add: next_multiple_of_def)

lemma next_multiple_of_less: "0 < k \<Longrightarrow> next_multiple_of a k < a + k"
  by (auto simp: next_multiple_of_def)

lemma next_multiple_of_dvd: "0 < k \<Longrightarrow> k dvd next_multiple_of a k"
proof (cases "a mod k = 0")
  case False
  assume k: "0 < k"
  have "(a + (k - a mod k)) mod k = (a mod k + (k - a mod k)) mod k"
    by (simp add: mod_add_left_eq)
  also have "a mod k + (k - a mod k) = k"
    using k by (simp add: less_imp_le)
  finally show ?thesis
    using False by (simp add: next_multiple_of_def dvd_eq_mod_eq_0)
qed (auto simp: next_multiple_of_def)

lemma find_map_None_iff: "find_map f xs = None \<longleftrightarrow> (\<forall>x\<in>set xs. f x = None)"
  by (induction xs) (auto split: option.splits)

lemma find_map_SomeE:
  assumes "find_map f xs = Some y"
  obtains x where "x \<in> set xs" "f x = Some y"
  using assms by (induction xs) (auto split: option.splits)

lemma find_map_firstE:
  assumes "find_map f xs = Some y"
  obtains before x after where "xs = before @ x # after" "f x = Some y" "\<forall>z\<in>set before. f z = None"
proof -
  have "\<exists>before x after. xs = before @ x # after \<and> f x = Some y \<and> (\<forall>z\<in>set before. f z = None)"
    using assms
  proof (induction xs)
    case (Cons a xs)
    show ?case
    proof (cases "f a")
      case None
      with Cons obtain before x after where "xs = before @ x # after" "f x = Some y" "\<forall>z\<in>set before. f z = None"
        by auto
      with None show ?thesis by (intro exI [of _ "a # before"] exI [of _ x] exI [of _ after]) simp
    next
      case (Some z)
      with Cons.prems show ?thesis by (intro exI [of _ "[]"]) simp
    qed
  qed simp
  then show thesis using that by blast
qed

lemma min_diff_le: "b \<le> a \<Longrightarrow> min (a - c) (b - c) = b - (c :: nat)"
  by simp

lemma take_drop_take: "k + n \<le> m \<Longrightarrow> take n (drop k (take m xs)) = take n (drop k xs)"
  by (simp add: drop_take min_def)

lemma nth_take_drop: "i < n \<Longrightarrow> a + i < length xs \<Longrightarrow> take n (drop a xs) ! i = xs ! (a + i)"
  by simp

subsection \<open>Lemmas: endian codecs\<close>

lemma length_octets [simp]: "length (octets ip) = 4"
  by (cases ip) simp

lemma ip_of_octets [simp]:
  "Ipv4Addr (octets ip ! 0) (octets ip ! Suc 0) (octets ip ! 2) (octets ip ! 3) = ip"
  by (cases ip) simp

lemma ip_at_octets [simp]: "ip_at (octets ip @ xs) 0 = ip"
  by (cases ip) (simp add: ip_at_def)

lemma ip_at_append [simp]: "length xs \<le> i \<Longrightarrow> ip_at (xs @ ys) i = ip_at ys (i - length xs)"
  by (simp add: ip_at_def nth_append Suc_diff_le)

lemma ip_at_Cons [simp]:
  "ip_at (x # xs) (Suc i) = ip_at xs i"
  "ip_at (x # xs) (numeral k) = ip_at xs (pred_numeral k)"
  by (simp_all add: ip_at_def numeral_eq_Suc)

lemma ip_at_drop: "a + i + 3 < length xs \<Longrightarrow> ip_at (drop a xs) i = ip_at xs (a + i)"
  by (simp add: ip_at_def add.assoc)

lemma ip_at_take: "i + 3 < n \<Longrightarrow> ip_at (take n xs) i = ip_at xs i"
  by (simp add: ip_at_def)

lemma length_to_be16 [simp]: "length (to_be16 w) = 2"
  by (simp add: to_be16_def)

lemma length_to_be32 [simp]: "length (to_be32 w) = 4"
  by (simp add: to_be32_def)

lemma length_to_le32 [simp]: "length (to_le32 w) = 4"
  by (simp add: to_le32_def)

lemma from_be16_to_be16 [byte_simps]: "from_be16 (ucast (drop_bit 8 w)) (ucast w) = w"
  by (rule bit_word_eqI) (auto simp: from_be16_def bit_simps)

lemma to_be16_from_be16 [byte_simps]: "to_be16 (from_be16 a b) = [a, b]"
  unfolding to_be16_def list.inject
  by (intro conjI bit_word_eqI) (auto simp: from_be16_def bit_simps dest: bit_imp_le_length)

lemma from_be32_to_be32 [byte_simps]:
  "from_be32 (ucast (drop_bit 24 w)) (ucast (drop_bit 16 w)) (ucast (drop_bit 8 w)) (ucast w) = w"
proof (rule bit_word_eqI)
  fix n :: nat
  assume "n < LENGTH(32)"
  then consider "n < 8" | "8 \<le> n" "n < 16" | "16 \<le> n" "n < 24" | "24 \<le> n" "n < 32"
    by fastforce
  then show "bit (from_be32 (ucast (drop_bit 24 w)) (ucast (drop_bit 16 w))
      (ucast (drop_bit 8 w)) (ucast w)) n = bit w n"
    by cases (simp_all add: from_be32_def bit_simps less_diff_conv2)
qed

lemma to_be32_from_be32 [byte_simps]: "to_be32 (from_be32 a b c d) = [a, b, c, d]"
  unfolding to_be32_def list.inject
  by (intro conjI bit_word_eqI TrueI) (auto simp: from_be32_def bit_simps dest: bit_imp_le_length)

lemma unat_u8_less: "unat (a :: u8) < 256"
  by (rule less_le_trans [OF unsigned_less]) simp

lemma unat_u16_less: "unat (a :: u16) < 65536"
  by (rule less_le_trans [OF unsigned_less]) simp

lemma unat_u32_less: "unat (a :: u32) < 4294967296"
  by (rule less_le_trans [OF unsigned_less]) simp

lemma unat_of_nat_u16: "n < 65536 \<Longrightarrow> unat (of_nat n :: u16) = n"
  by (simp add: unat_of_nat)

lemma unat_of_nat_u32: "n < 4294967296 \<Longrightarrow> unat (of_nat n :: u32) = n"
  by (simp add: unat_of_nat)

lemma from_be16_0 [simp]: "from_be16 0 0 = 0"
  by (simp add: from_be16_def)

lemmas unat_bounds = unat_u8_less unat_u16_less unat_u32_less

lemma unat_ucast_8 [simp]:
  "unat (ucast (a :: u8) :: u16) = unat a"
  "unat (ucast (a :: u8) :: u32) = unat a"
  by (simp_all add: unsigned_ucast_eq take_bit_nat_eq_self unsigned_less [THEN less_trans])

lemma unat_from_be16: "unat (from_be16 a b) = 256 * unat a + unat b"
proof -
  have "from_be16 a b = push_bit 8 (ucast a) + ucast b"
    unfolding from_be16_def by (rule disjunctive_add [symmetric])
      (auto simp: bit_simps dest: bit_imp_le_length)
  also have "push_bit 8 (ucast a :: u16) = 256 * ucast a"
    by (simp add: push_bit_eq_mult mult.commute)
  finally have "from_be16 a b = 256 * ucast a + ucast b" .
  moreover have "256 * unat a + unat b < 2 ^ 16"
    using unat_u8_less [of a] unat_u8_less [of b] by simp
  ultimately show ?thesis
    by (simp add: unat_word_ariths)
qed

lemma u32_of_ip_inverse [simp]: "ip_of_u32 (u32_of_ip ip) = ip"
  using to_be32_from_be32 by (cases ip) (auto simp: ip_of_u32_def to_be32_def)

lemma ip_of_u32_inverse [simp]: "u32_of_ip (ip_of_u32 w) = w"
  by (simp add: ip_of_u32_def byte_simps)

lemma u32_of_ip_inj: "inj u32_of_ip"
  by (rule inj_on_inverseI [where g = ip_of_u32]) simp

text \<open>\<open>Ipv4Addr\<close> is ordered by its octets, the most significant first.\<close>

instantiation ipv4_addr :: linorder
begin

definition less_eq_ipv4_addr :: "ipv4_addr \<Rightarrow> ipv4_addr \<Rightarrow> bool" where
  "less_eq_ipv4_addr a b = (u32_of_ip a \<le> u32_of_ip b)"

definition less_ipv4_addr :: "ipv4_addr \<Rightarrow> ipv4_addr \<Rightarrow> bool" where
  "less_ipv4_addr a b = (u32_of_ip a < u32_of_ip b)"

instance
  by standard
    (auto simp: less_eq_ipv4_addr_def less_ipv4_addr_def dest: u32_of_ip_inj [THEN injD])

end

lemma from_le32_to_le32 [byte_simps]:
  "from_le32 (ucast w) (ucast (drop_bit 8 w)) (ucast (drop_bit 16 w)) (ucast (drop_bit 24 w)) = w"
  by (simp add: from_le32_def from_be32_to_be32)

lemma to_le32_eq: "to_le32 w = [ucast w, ucast (drop_bit 8 w), ucast (drop_bit 16 w), ucast (drop_bit 24 w)]"
  by (simp add: to_le32_def to_be32_def)

subsection \<open>The contract of a wire format\<close>

text \<open>
  What the sender and the receiver of one header format owe each other: what was encoded is
  decoded again, whatever bytes follow it (Ethernet pads short frames, so every layer sees
  trailing bytes). \<open>ok\<close> is the range of values the format can carry.
\<close>

locale wire_codec =
  fixes enc :: "'a \<Rightarrow> bytes"
    and dec :: "bytes \<Rightarrow> ('e + 'a) option"
    and ok :: "'a \<Rightarrow> bool"
  assumes dec_enc: "ok a \<Longrightarrow> dec (enc a @ pad) = Some (Inr a)"
begin

lemma dec_enc_exact: "ok a \<Longrightarrow> dec (enc a) = Some (Inr a)"
  using dec_enc [of a "[]"] by simp

lemma enc_prefix_free:
  assumes "ok a" and "ok b" and "enc a @ xs = enc b @ ys"
  shows "a = b"
  using dec_enc [OF assms(1), of xs] dec_enc [OF assms(2), of ys] assms(3) by simp

lemma enc_inj_on: "inj_on enc {a. ok a}"
  by (rule inj_onI) (use enc_prefix_free in fastforce)

end

subsection \<open>Scoped resources\<close>

text \<open>A value that may be there, dropped.\<close>

definition release_slot :: "('r \<Rightarrow> 's \<Rightarrow> 's) \<Rightarrow> 'r option \<Rightarrow> 's \<Rightarrow> 's" where
  "release_slot release slot s = (case slot of None \<Rightarrow> s | Some r \<Rightarrow> release r s)"

lemma release_slot_simps [simp]: "release_slot f None s = s" "release_slot f (Some r) s = f r s"
  by (simp_all add: release_slot_def)

text \<open>
  What a type with a constructor that may fail and a \<open>Drop\<close> owes its owner, for a view of the environment it acts on:
  a failure changes nothing, and dropping a value undoes what making it did. \<open>lawful\<close> is what the
  environment promises, \<open>free\<close> what must be free for the value asked for. The client keeps at most one
  value and replaces it, dropping the old one first.
\<close>

locale scoped_resource =
  fixes lawful :: "'env \<Rightarrow> ('s \<Rightarrow> 'v) \<Rightarrow> bool"
    and acquire :: "'env \<Rightarrow> 'c \<Rightarrow> 's \<Rightarrow> ('e + 'r) \<times> 's"
    and release :: "'env \<Rightarrow> 'r \<Rightarrow> 's \<Rightarrow> 's"
    and free :: "'c \<Rightarrow> 'v \<Rightarrow> bool"
  assumes acquire_fails: "lawful E v \<Longrightarrow> free c (v s) \<Longrightarrow> acquire E c s = (Inl e, s') \<Longrightarrow> v s' = v s"
    and acquire_release: "lawful E v \<Longrightarrow> free c (v s) \<Longrightarrow> acquire E c s = (Inr r, s') \<Longrightarrow> v (release E r s') = v s"
begin

lemma replace_restores:
  assumes "lawful E v" and "v (release_slot (release E) slot s) = w" and "free c w"
    and "acquire E c (release_slot (release E) slot s) = (x, s')"
  shows "v (release_slot (release E) (case x of Inl e \<Rightarrow> None | Inr r \<Rightarrow> Some r) s') = w"
proof (cases x)
  case (Inl e)
  with assms show ?thesis using acquire_fails [of E v c "release_slot (release E) slot s" e s'] by simp
next
  case (Inr r)
  with assms show ?thesis using acquire_release [of E v c "release_slot (release E) slot s" r s'] by simp
qed

end

end
