(* ===== verification/Rndis_Wire.thy ===== *)
theory Rndis_Wire
  imports Prelude
begin

text \<open>
  The RNDIS constants and messages, \<^verbatim>\<open>src/src/rndis/wire.rs\<close> and
  \<^verbatim>\<open>src/src/rndis/error.rs\<close>: little-endian 32-bit words at fixed offsets. None of the
  decoders indexes a buffer, so none can panic; they return a sum. Shown here: each field of an
  encoded message is read back by \<open>u32_at\<close>, the information buffer of a query completion
  lies inside the message and is recovered, and the packet alignment is always a power of two
  below 256.
\<close>

subsection \<open>Constants and errors\<close>

datatype rndis_error =
    RndisTruncated
  | RndisMalformed string
  | RndisUnexpectedMessage u32
  | RndisStatus u32
  | RndisNoResponse
  | RndisTransport string

text \<open>\<open>format!("{:08x}", n)\<close> and \<open>e.to_string()\<close>\<close>

definition hex8 :: "u32 \<Rightarrow> string" where
  "hex8 n = map (\<lambda>k. ''0123456789abcdef'' ! unat (drop_bit k n AND 15)) [28, 24, 20, 16, 12, 8, 4, 0]"

fun rndis_error_string :: "rndis_error \<Rightarrow> string" where
  "rndis_error_string RndisTruncated = ''message truncated''"
| "rndis_error_string (RndisMalformed s) = ''malformed message: '' @ s"
| "rndis_error_string (RndisUnexpectedMessage n) = ''unexpected message type 0x'' @ hex8 n"
| "rndis_error_string (RndisStatus n) = ''device returned status 0x'' @ hex8 n"
| "rndis_error_string RndisNoResponse = ''no response from device''"
| "rndis_error_string (RndisTransport s) = ''transport: '' @ s"

definition MSG_COMPLETION :: u32 where [const_simps]: "MSG_COMPLETION = 0x80000000"
definition MSG_PACKET :: u32 where [const_simps]: "MSG_PACKET = 0x00000001"
definition MSG_INIT :: u32 where [const_simps]: "MSG_INIT = 0x00000002"
definition MSG_INIT_C :: u32 where [const_simps]: "MSG_INIT_C = MSG_INIT OR MSG_COMPLETION"
definition MSG_HALT :: u32 where [const_simps]: "MSG_HALT = 0x00000003"
definition MSG_QUERY :: u32 where [const_simps]: "MSG_QUERY = 0x00000004"
definition MSG_QUERY_C :: u32 where [const_simps]: "MSG_QUERY_C = MSG_QUERY OR MSG_COMPLETION"
definition MSG_SET :: u32 where [const_simps]: "MSG_SET = 0x00000005"
definition MSG_SET_C :: u32 where [const_simps]: "MSG_SET_C = MSG_SET OR MSG_COMPLETION"
definition MSG_INDICATE :: u32 where [const_simps]: "MSG_INDICATE = 0x00000007"
definition MSG_KEEPALIVE :: u32 where [const_simps]: "MSG_KEEPALIVE = 0x00000008"
definition MSG_KEEPALIVE_C :: u32 where [const_simps]:
  "MSG_KEEPALIVE_C = MSG_KEEPALIVE OR MSG_COMPLETION"

definition STATUS_SUCCESS :: u32 where [const_simps]: "STATUS_SUCCESS = 0x00000000"
definition STATUS_MEDIA_CONNECT :: u32 where [const_simps]: "STATUS_MEDIA_CONNECT = 0x4001000B"
definition STATUS_MEDIA_DISCONNECT :: u32 where [const_simps]:
  "STATUS_MEDIA_DISCONNECT = 0x4001000C"

definition OID_GEN_CURRENT_PACKET_FILTER :: u32 where [const_simps]:
  "OID_GEN_CURRENT_PACKET_FILTER = 0x0001010E"
definition OID_802_3_PERMANENT_ADDRESS :: u32 where [const_simps]:
  "OID_802_3_PERMANENT_ADDRESS = 0x01010101"
definition OID_802_3_CURRENT_ADDRESS :: u32 where [const_simps]:
  "OID_802_3_CURRENT_ADDRESS = 0x01010102"

definition PACKET_TYPE_DIRECTED :: u32 where [const_simps]: "PACKET_TYPE_DIRECTED = 0x00000001"
definition PACKET_TYPE_MULTICAST :: u32 where [const_simps]: "PACKET_TYPE_MULTICAST = 0x00000002"
definition PACKET_TYPE_ALL_MULTICAST :: u32 where [const_simps]:
  "PACKET_TYPE_ALL_MULTICAST = 0x00000004"
definition PACKET_TYPE_BROADCAST :: u32 where [const_simps]: "PACKET_TYPE_BROADCAST = 0x00000008"
definition PACKET_TYPE_PROMISCUOUS :: u32 where [const_simps]:
  "PACKET_TYPE_PROMISCUOUS = 0x00000020"

definition DEFAULT_PACKET_FILTER :: u32 where [const_simps]:
  "DEFAULT_PACKET_FILTER = PACKET_TYPE_DIRECTED OR PACKET_TYPE_MULTICAST
     OR PACKET_TYPE_ALL_MULTICAST OR PACKET_TYPE_BROADCAST OR PACKET_TYPE_PROMISCUOUS"

definition DATA_HEADER_LEN :: usize where [const_simps]: "DATA_HEADER_LEN = 44"
definition OFFSET_BASE :: usize where [const_simps]: "OFFSET_BASE = 8"
definition MAX_CONTROL_MSG :: usize where [const_simps]: "MAX_CONTROL_MSG = 1024"
definition RESPONSE_AVAILABLE :: u32 where [const_simps]: "RESPONSE_AVAILABLE = 0x00000001"
definition REQ_SEND_ENCAPSULATED :: u8 where [const_simps]: "REQ_SEND_ENCAPSULATED = 0x00"
definition REQ_GET_ENCAPSULATED :: u8 where [const_simps]: "REQ_GET_ENCAPSULATED = 0x01"

record init_complete =
  ic_request_id :: u32
  ic_status :: u32
  ic_major_version :: u32
  ic_minor_version :: u32
  ic_medium :: u32
  ic_max_packets_per_transfer :: u32
  ic_max_transfer_size :: u32
  ic_packet_alignment :: u32

subsection \<open>Reading and writing words\<close>

definition u32_at :: "bytes \<Rightarrow> usize \<Rightarrow> rndis_error + u32" where
  "u32_at buf offset =
     ok_or (map_option (\<lambda>b. from_le32 (b ! 0) (b ! 1) (b ! 2) (b ! 3)) (slice offset (offset + 4) buf))
       RndisTruncated"

definition put_u32 :: "bytes \<Rightarrow> u32 \<Rightarrow> bytes" where
  "put_u32 out v = out @ to_le32 v"

subsection \<open>Encoding\<close>

definition encode_init :: "u32 \<Rightarrow> u32 \<Rightarrow> bytes" where
  "encode_init request_id max_transfer_size =
     fold (\<lambda>v m. put_u32 m v) [MSG_INIT, 24, request_id, 1, 0, max_transfer_size] []"

definition encode_query :: "u32 \<Rightarrow> u32 \<Rightarrow> bytes" where
  "encode_query request_id oid =
     fold (\<lambda>v m. put_u32 m v) [MSG_QUERY, 28, request_id, oid, 0, 0, 0] []"

definition encode_set :: "u32 \<Rightarrow> u32 \<Rightarrow> bytes \<Rightarrow> bytes" where
  "encode_set request_id oid data =
     fold (\<lambda>v m. put_u32 m v)
       [MSG_SET, of_nat (28 + length data), request_id, oid, of_nat (length data),
        of_nat (28 - OFFSET_BASE), 0] []
     @ data"

definition encode_keepalive :: "u32 \<Rightarrow> bytes" where
  "encode_keepalive request_id = fold (\<lambda>v m. put_u32 m v) [MSG_KEEPALIVE, 12, request_id] []"

definition encode_halt :: "u32 \<Rightarrow> bytes" where
  "encode_halt request_id = fold (\<lambda>v m. put_u32 m v) [MSG_HALT, 12, request_id] []"

definition encode_keepalive_complete :: "u32 \<Rightarrow> bytes" where
  "encode_keepalive_complete request_id =
     fold (\<lambda>v m. put_u32 m v) [MSG_KEEPALIVE_C, 16, request_id, STATUS_SUCCESS] []"

subsection \<open>Decoding\<close>

definition decode_init_complete :: "bytes \<Rightarrow> rndis_error + init_complete" where
  "decode_init_complete buf =
     tryr (u32_at buf 0) (\<lambda>ty.
     if ty \<noteq> MSG_INIT_C then tryr (u32_at buf 0) (\<lambda>t. Inl (RndisUnexpectedMessage t))
     else
       tryr (u32_at buf 40) (\<lambda>alignment_exponent.
       tryr (u32_at buf 8) (\<lambda>request_id.
       tryr (u32_at buf 12) (\<lambda>status.
       tryr (u32_at buf 16) (\<lambda>major_version.
       tryr (u32_at buf 20) (\<lambda>minor_version.
       tryr (u32_at buf 28) (\<lambda>medium.
       tryr (u32_at buf 32) (\<lambda>max_packets.
       tryr (u32_at buf 36) (\<lambda>max_transfer.
         Inr \<lparr>ic_request_id = request_id, ic_status = status,
              ic_major_version = major_version, ic_minor_version = minor_version,
              ic_medium = medium, ic_max_packets_per_transfer = max_packets,
              ic_max_transfer_size = max_transfer,
              ic_packet_alignment =
                (if alignment_exponent < 8 then push_bit (unat alignment_exponent) 1 else 1)\<rparr>)))))))))"

definition decode_query_complete :: "bytes \<Rightarrow> rndis_error + (u32 \<times> u32 \<times> bytes)" where
  "decode_query_complete buf =
     tryr (u32_at buf 0) (\<lambda>ty.
     if ty \<noteq> MSG_QUERY_C then tryr (u32_at buf 0) (\<lambda>t. Inl (RndisUnexpectedMessage t))
     else
       tryr (u32_at buf 8) (\<lambda>request_id.
       tryr (u32_at buf 12) (\<lambda>status.
       tryr (u32_at buf 16) (\<lambda>len32.
       tryr (u32_at buf 20) (\<lambda>offset32.
         let len = unat len32; offset = unat offset32 in
         if status \<noteq> STATUS_SUCCESS then Inr (request_id, status, [])
         else
           tryr (ok_or (checked_add OFFSET_BASE offset) RndisTruncated) (\<lambda>start.
           tryr (ok_or (checked_add start len) RndisTruncated) (\<lambda>end'.
           tryr (ok_or (slice start end' buf) RndisTruncated) (\<lambda>info.
             Inr (request_id, status, info)))))))))"

definition decode_completion :: "bytes \<Rightarrow> rndis_error + (u32 \<times> u32)" where
  "decode_completion buf =
     tryr (u32_at buf 8) (\<lambda>id. tryr (u32_at buf 12) (\<lambda>status. Inr (id, status)))"

definition decode_indicate_status :: "bytes \<Rightarrow> rndis_error + u32" where
  "decode_indicate_status buf = u32_at buf 8"

subsection \<open>Words at offsets\<close>

definition le_words :: "u32 list \<Rightarrow> bytes" where
  "le_words ws = concat (map to_le32 ws)"

lemma fold_put_u32: "fold (\<lambda>v m. put_u32 m v) ws out = out @ le_words ws"
  by (induction ws arbitrary: out) (simp_all add: put_u32_def le_words_def)

lemma length_le_words [simp]: "length (le_words ws) = 4 * length ws"
  by (induction ws) (simp_all add: le_words_def)

lemma u32_at_eq:
  "u32_at buf i =
     (if i + 4 \<le> length buf then Inr (from_le32 (buf ! i) (buf ! (i + 1)) (buf ! (i + 2)) (buf ! (i + 3)))
      else Inl RndisTruncated)"
  by (simp add: u32_at_def slice_def)

lemma u32_at_truncated: "length buf < i + 4 \<Longrightarrow> u32_at buf i = Inl RndisTruncated"
  by (simp add: u32_at_eq)

lemma u32_at_Inr_iff: "(\<exists>v. u32_at buf i = Inr v) \<longleftrightarrow> i + 4 \<le> length buf"
  by (simp add: u32_at_eq)

lemma u32_at_append: "length xs \<le> i \<Longrightarrow> u32_at (xs @ ys) i = u32_at ys (i - length xs)"
  by (auto simp: u32_at_eq nth_append Suc_diff_le)

lemma u32_at_to_le32 [simp]: "u32_at (to_le32 w @ xs) 0 = Inr w"
  by (simp add: u32_at_eq to_le32_eq byte_simps numeral_2_eq_2 numeral_3_eq_3)

lemma u32_at_le_words:
  "i < length ws \<Longrightarrow> u32_at (le_words ws @ xs) (4 * i) = Inr (ws ! i)"
proof (induction ws arbitrary: i)
  case (Cons w ws)
  show ?case
  proof (cases i)
    case (Suc j)
    with Cons have "u32_at (le_words ws @ xs) (4 * j) = Inr (ws ! j)" by simp
    then show ?thesis
      using Suc by (simp add: le_words_def u32_at_append)
  qed (simp add: le_words_def)
qed simp

lemma u32_at_le_words_numeral:
  "k mod 4 = 0 \<Longrightarrow> k div 4 < length ws \<Longrightarrow> u32_at (le_words ws @ xs) k = Inr (ws ! (k div 4))"
  using u32_at_le_words [of "k div 4" ws xs] by (simp add: mod_0_imp_dvd)

lemmas encode_defs = encode_init_def encode_query_def encode_set_def encode_keepalive_def
  encode_halt_def encode_keepalive_complete_def fold_put_u32

lemma encode_set_eq:
  "encode_set i oid data =
     le_words [MSG_SET, of_nat (28 + length data), i, oid, of_nat (length data), 20, 0] @ data"
  unfolding encode_set_def fold_put_u32 by (simp add: OFFSET_BASE_def)

text \<open>
  A SET message describes itself: its type, its own length, the request id and the OID are
  where the device reads them, and the information length and offset, taken relative to byte 8,
  point at exactly the data that was passed in.
\<close>

lemma encode_set_points_at_payload:
  assumes "length data < 2 ^ 32 - 28"
  shows "u32_at (encode_set i oid data) 0 = Inr MSG_SET
    \<and> u32_at (encode_set i oid data) 4 = Inr (of_nat (length (encode_set i oid data)))
    \<and> u32_at (encode_set i oid data) 8 = Inr i \<and> u32_at (encode_set i oid data) 12 = Inr oid
    \<and> (\<exists>len offset. u32_at (encode_set i oid data) 16 = Inr len
        \<and> u32_at (encode_set i oid data) 20 = Inr offset
        \<and> slice (OFFSET_BASE + unat offset) (OFFSET_BASE + unat offset + unat len)
            (encode_set i oid data) = Some data)"
proof -
  have len: "unat (of_nat (length data) :: u32) = length data"
    using assms by (intro unat_of_nat_u32) simp
  have "slice (8 + unat (20 :: u32)) (8 + unat (20 :: u32) + unat (of_nat (length data) :: u32))
      (encode_set i oid data) = Some data"
    unfolding encode_set_eq by (rule slice_append_middle [where zs = "[]", simplified]) (simp_all add: len)
  then show ?thesis
    by (simp add: encode_set_eq u32_at_le_words_numeral OFFSET_BASE_def)
qed

lemma encode_set_points_at_payload_witness:
  "length [0x2F, 0, 0, 0 :: u8] < 2 ^ 32 - 28
   \<and> u32_at (encode_set 7 OID_GEN_CURRENT_PACKET_FILTER [0x2F, 0, 0, 0]) 12
     = Inr OID_GEN_CURRENT_PACKET_FILTER"
  using encode_set_points_at_payload [of "[0x2F, 0, 0, 0]" 7 OID_GEN_CURRENT_PACKET_FILTER] by simp

subsection \<open>Decoded completions\<close>

lemma checked_add_u32: "checked_add 8 (unat (w :: u32)) = Some (8 + unat w)"
  "checked_add (8 + unat (w :: u32)) (unat (v :: u32)) = Some (8 + unat w + unat v)"
  using unat_u32_less [of w] unat_u32_less [of v] by (simp_all add: checked_add_def)

lemma query_complete_in_bounds_cases:
  assumes "decode_query_complete buf = Inr (i, status, info)"
  shows "u32_at buf 0 = Inr MSG_QUERY_C \<and> u32_at buf 8 = Inr i \<and> u32_at buf 12 = Inr status
    \<and> (if status = STATUS_SUCCESS
        then \<exists>len offset. u32_at buf 16 = Inr len \<and> u32_at buf 20 = Inr offset
          \<and> slice (8 + unat offset) (8 + unat offset + unat len) buf = Some info
        else info = [])"
  using assms unfolding decode_query_complete_def
  by (auto simp: tryr_eq_Inr Let_def OFFSET_BASE_def checked_add_u32 ok_or_def
      split: if_splits option.splits)

text \<open>
  The information buffer of a query completion cannot escape the message. If
  \<open>decode_query_complete\<close> succeeds, the message is a QUERY completion and, on a success
  status, the buffer returned is the part of the message that its length and offset fields
  name, entirely inside the received bytes; on any other status it is empty.
\<close>

lemma query_complete_in_bounds:
  assumes "decode_query_complete buf = Inr (i, status, info)"
  shows "u32_at buf 0 = Inr MSG_QUERY_C \<and> u32_at buf 8 = Inr i \<and> u32_at buf 12 = Inr status
    \<and> (if status = STATUS_SUCCESS
        then \<exists>len offset. u32_at buf 16 = Inr len \<and> u32_at buf 20 = Inr offset
          \<and> slice (8 + unat offset) (8 + unat offset + unat len) buf = Some info
        else info = [])"
  using assms by (rule query_complete_in_bounds_cases)

lemma decode_query_complete_mac:
  "length info < 4294967296 \<Longrightarrow>
   decode_query_complete
     (le_words [MSG_QUERY_C, mlen, i, STATUS_SUCCESS, of_nat (length info), 16] @ info @ pad)
     = Inr (i, STATUS_SUCCESS, info)"
  by (simp add: decode_query_complete_def u32_at_le_words_numeral OFFSET_BASE_def checked_add_def
      Let_def slice_def unat_of_nat_u32 STATUS_SUCCESS_def)

lemma query_complete_in_bounds_witness:
  "decode_query_complete (le_words [MSG_QUERY_C, 30, 3, STATUS_SUCCESS, 6, 16] @ [17, 34, 51, 68, 85, 102])
     = Inr (3, STATUS_SUCCESS, [17, 34, 51, 68, 85, 102])
   \<and> (\<exists>len offset. slice (8 + unat (offset :: u32)) (8 + unat offset + unat (len :: u32))
        (le_words [MSG_QUERY_C, 30, 3, STATUS_SUCCESS, 6, 16] @ [17, 34, 51, 68, 85, 102])
        = Some [17, 34, 51, 68, 85, 102])"
proof -
  let ?m = "le_words [MSG_QUERY_C, 30, 3, STATUS_SUCCESS, 6, 16] @ [17, 34, 51, 68, 85, 102]"
  have d: "decode_query_complete ?m = Inr (3, STATUS_SUCCESS, [17, 34, 51, 68, 85, 102])"
    using decode_query_complete_mac [of "[17, 34, 51, 68, 85, 102]" 30 3 "[]"] by simp
  from d query_complete_in_bounds [OF d] show ?thesis by auto
qed

text \<open>
  The packet alignment of a session is a power of two from 1 to 128, whatever exponent the device
  sends: the shift is guarded and cannot overflow.
\<close>

lemma init_complete_alignment:
  assumes "decode_init_complete buf = Inr ic"
  shows "\<exists>k<8. unat (ic_packet_alignment ic) = 2 ^ k"
proof -
  obtain e where e: "u32_at buf 40 = Inr e"
    using assms unfolding decode_init_complete_def by (auto simp: tryr_eq_Inr split: if_splits)
  then have al: "ic_packet_alignment ic = (if e < 8 then push_bit (unat (e :: u32)) 1 else 1)"
    using assms unfolding decode_init_complete_def by (auto simp: tryr_eq_Inr split: if_splits)
  show ?thesis
  proof (cases "e < 8")
    case True
    then have k: "unat e < 8" by (simp add: word_less_nat_alt)
    then have "(2 :: nat) ^ unat e < 2 ^ 32" by (intro power_strict_increasing) simp_all
    then have "unat (push_bit (unat e) 1 :: u32) = 2 ^ unat e"
      using unat_of_nat_u32 [of "2 ^ unat e"] by (simp add: push_bit_eq_mult)
    with True al k show ?thesis by auto
  qed (use al in \<open>auto intro: exI [of _ 0]\<close>)
qed

end
