(* ===== verification/Rndis_Packet.thy ===== *)
theory Rndis_Packet
  imports Rndis_Wire "HOL-Library.Sublist"
begin

text \<open>
  PACKET_MSG framing, \<^verbatim>\<open>src/src/rndis/packet.rs\<close>: \<open>packet_append\<close> adds one message
  to a bulk transfer, the iterator \<open>Frames\<close> is the function \<open>frames_next\<close> from its
  remaining buffer to the item and the new buffer, and \<open>packet_decode\<close> is the list of items
  a \<open>for\<close> loop over it sees. Shown here: the iterator ends (the termination proof needs the
  check on the message length that the kernel driver does not have), never panics, yields only
  parts of the transfer that follow one another, and undoes any sequence of appends under any
  alignment and trailing padding.
\<close>

subsection \<open>Operations\<close>

definition packet_append :: "bytes \<Rightarrow> bytes \<Rightarrow> usize \<Rightarrow> bytes" where
  "packet_append out frame alignment =
     (let body = DATA_HEADER_LEN + length frame;
          msg_len = next_multiple_of body (max alignment 1);
          fields = [MSG_PACKET, of_nat msg_len, of_nat (DATA_HEADER_LEN - OFFSET_BASE),
                    of_nat (length frame), 0, 0, 0, 0, 0, 0, 0];
          out = fold (\<lambda>f out. out @ to_le32 f) fields out;
          out = out @ frame
      in resize out (length out + (msg_len - body)) 0)"

text \<open>\<open>Frames::next_frame\<close>: the frame or the error, and the buffer that is left.\<close>

definition next_frame :: "bytes \<Rightarrow> ((rndis_error + bytes) \<times> bytes) option" where
  "next_frame buf =
     (case u32_at buf 0 of
        Inl e \<Rightarrow> Some (Inl e, buf)
      | Inr ty \<Rightarrow>
     if ty \<noteq> MSG_PACKET then Some (tryr (u32_at buf 0) (\<lambda>t. Inl (RndisUnexpectedMessage t)), buf)
     else (case u32_at buf 4 of
        Inl e \<Rightarrow> Some (Inl e, buf)
      | Inr msg_len32 \<Rightarrow> (case u32_at buf 8 of
        Inl e \<Rightarrow> Some (Inl e, buf)
      | Inr data_offset32 \<Rightarrow> (case u32_at buf 12 of
        Inl e \<Rightarrow> Some (Inl e, buf)
      | Inr data_len32 \<Rightarrow>
          let msg_len = unat msg_len32; data_offset = unat data_offset32; data_len = unat data_len32 in
          if msg_len < DATA_HEADER_LEN \<or> msg_len > length buf
          then Some (Inl (RndisMalformed ''packet length outside transfer''), buf)
          else (case Option.bind (checked_add OFFSET_BASE data_offset) (\<lambda>s. checked_add s data_len) of
            None \<Rightarrow> Some (Inl (RndisMalformed ''packet data offset overflow''), buf)
          | Some end' \<Rightarrow>
              if end' > msg_len then Some (Inl (RndisMalformed ''packet data outside message''), buf)
              else do {
                frame \<leftarrow> slice (OFFSET_BASE + data_offset) end' buf;
                rest \<leftarrow> slice msg_len (length buf) buf;
                Some (Inr frame, rest)
              })))))"

text \<open>\<open>Frames::next\<close>: the item, if any, and the buffer that is left.\<close>

definition frames_next :: "bytes \<Rightarrow> ((rndis_error + bytes) option \<times> bytes) option" where
  "frames_next buf =
     (if length buf < DATA_HEADER_LEN then Some (None, [])
      else do {
        (result, rest) \<leftarrow> next_frame buf;
        Some (Some result, case result of Inl e \<Rightarrow> [] | Inr f \<Rightarrow> rest)
      })"

subsection \<open>The iterator advances\<close>

lemma next_frame_eq:
  assumes "44 \<le> length buf"
  shows "next_frame buf = Some
    (let word = (\<lambda>i. from_le32 (buf ! i) (buf ! (i + 1)) (buf ! (i + 2)) (buf ! (i + 3)));
         ml = unat (word 4); off = unat (word 8); dl = unat (word 12) in
     if word 0 \<noteq> MSG_PACKET then (Inl (RndisUnexpectedMessage (word 0)), buf)
     else if ml < 44 \<or> ml > length buf
     then (Inl (RndisMalformed ''packet length outside transfer''), buf)
     else if 8 + off + dl > ml then (Inl (RndisMalformed ''packet data outside message''), buf)
     else (Inr (take dl (drop (8 + off) buf)), drop ml buf))"
  using assms
  by (simp add: next_frame_def u32_at_eq checked_add_u32 const_simps Let_def add.commute [of _ 8])

lemma frames_next_no_panic: "frames_next buf \<noteq> None"
  by (simp add: frames_next_def next_frame_eq const_simps Let_def)

lemma frames_next_shrinks:
  "frames_next buf = Some (Some r, rest) \<Longrightarrow> length rest < length buf"
  by (auto simp: frames_next_def next_frame_eq const_simps Let_def split: if_splits)

text \<open>The items of the loop \<open>for result in packet::decode(buf)\<close>.\<close>

function packet_decode :: "bytes \<Rightarrow> (rndis_error + bytes) list option" where
  "packet_decode buf = do {
     (item, rest) \<leftarrow> frames_next buf;
     (case item of
        None \<Rightarrow> Some []
      | Some r \<Rightarrow> do { rs \<leftarrow> packet_decode rest; Some (r # rs) })
   }"
  by pat_completeness auto
termination
  by (relation "measure length") (auto dest!: frames_next_shrinks)

declare packet_decode.simps [simp del]

subsection \<open>One message\<close>

definition packet_len :: "usize \<Rightarrow> bytes \<Rightarrow> nat" where
  "packet_len alignment f = next_multiple_of (44 + length f) (max alignment 1)"

definition packet_msg :: "usize \<Rightarrow> bytes \<Rightarrow> bytes" where
  "packet_msg alignment f =
     le_words [MSG_PACKET, of_nat (packet_len alignment f), 36, of_nat (length f), 0, 0, 0, 0, 0, 0, 0]
     @ f @ replicate (packet_len alignment f - (44 + length f)) 0"

lemma packet_len_ge: "44 + length f \<le> packet_len alignment f"
  unfolding packet_len_def by (rule next_multiple_of_ge)

lemma packet_len_less: "packet_len alignment f < 44 + length f + max alignment 1"
  unfolding packet_len_def by (rule next_multiple_of_less) simp

lemma packet_len_dvd: "max alignment 1 dvd packet_len alignment f"
  unfolding packet_len_def by (rule next_multiple_of_dvd) simp

lemma length_packet_msg [simp]: "length (packet_msg alignment f) = packet_len alignment f"
  using packet_len_ge [of f alignment] by (simp add: packet_msg_def)

lemma packet_append_eq: "packet_append out f alignment = out @ packet_msg alignment f"
proof -
  have "fold (\<lambda>f out. out @ to_le32 f) ws xs = xs @ le_words ws" for ws xs
    using fold_put_u32 [of ws xs] by (simp add: put_u32_def)
  then show ?thesis
    unfolding packet_append_def Let_def
    by (simp add: packet_msg_def packet_len_def resize_ge const_simps del: fold_simps fold_Cons)
qed

lemma frames_next_msg:
  assumes "packet_len alignment f < 2 ^ 32"
  shows "frames_next (packet_msg alignment f @ rest) = Some (Some (Inr f), rest)"
proof -
  define ml where "ml = packet_len alignment f"
  define buf where "buf = packet_msg alignment f @ rest"
  have ml: "44 + length f \<le> ml" "ml < 4294967296"
    using packet_len_ge [of f alignment] assms by (simp_all add: ml_def)
  have w: "u32_at buf 0 = Inr MSG_PACKET" "u32_at buf 4 = Inr (of_nat ml)"
      "u32_at buf 8 = Inr 36" "u32_at buf 12 = Inr (of_nat (length f))"
    by (simp_all add: buf_def packet_msg_def u32_at_le_words_numeral ml_def)
  have n: "unat (of_nat ml :: u32) = ml" "unat (of_nat (length f) :: u32) = length f"
    using ml by (simp_all add: unat_of_nat_u32)
  have len: "length buf = ml + length rest" and r: "drop ml buf = rest"
    by (simp_all add: buf_def ml_def)
  have f: "take (length f) (drop 44 buf) = f"
    by (simp add: buf_def packet_msg_def)
  have "next_frame buf = Some (Inr f, rest)"
    using ml by (simp add: next_frame_def w n len f r Let_def const_simps checked_add_def)
  then show ?thesis
    using ml len by (simp add: frames_next_def buf_def const_simps)
qed

lemma frames_next_end: "length pad < 44 \<Longrightarrow> frames_next pad = Some (None, [])"
  by (simp add: frames_next_def const_simps)

subsection \<open>Whole transfers\<close>

lemma packet_decode_end: "length pad < 44 \<Longrightarrow> packet_decode pad = Some []"
  by (simp add: packet_decode.simps frames_next_end)

lemma packet_decode_msg:
  "packet_len alignment f < 2 ^ 32 \<Longrightarrow>
   packet_decode (packet_msg alignment f @ rest) = map_option ((#) (Inr f)) (packet_decode rest)"
  by (cases "packet_decode rest")
    (simp_all add: packet_decode.simps [of "packet_msg alignment f @ rest"] frames_next_msg)

lemma append_all_eq:
  "fold (\<lambda>f out. packet_append out f alignment) fs out = out @ concat (map (packet_msg alignment) fs)"
  by (induction fs arbitrary: out) (simp_all add: packet_append_eq)

lemma packet_decode_msgs:
  "\<forall>f\<in>set fs. packet_len alignment f < 2 ^ 32 \<Longrightarrow> length pad < 44 \<Longrightarrow>
   packet_decode (concat (map (packet_msg alignment) fs) @ pad) = Some (map Inr fs)"
  by (induction fs) (simp_all add: packet_decode_end packet_decode_msg)

text \<open>
  C23: Framing round trip. Frames appended to one transfer, under any alignment (zero counts
  as one) and followed by less than a header of padding, come out of the iterator as they went
  in, in order and without errors, as long as each message length fits its 32-bit field.
\<close>

theorem packet_roundtrip:
  assumes "\<forall>f\<in>set fs. packet_len alignment f < 2 ^ 32" and "length pad < 44"
  shows "packet_decode (fold (\<lambda>f out. packet_append out f alignment) fs [] @ pad) = Some (map Inr fs)"
  using packet_decode_msgs [OF assms] by (simp add: append_all_eq)

theorem packet_roundtrip_witness:
  "packet_decode (fold (\<lambda>f out. packet_append out f 8) [replicate 65 1, replicate 101 2] [] @ [0])
   = Some [Inr (replicate 65 1), Inr (replicate 101 2)]"
  using packet_roundtrip [of "[replicate 65 1, replicate 101 2]" 8 "[0]"]
  by (simp add: packet_len_def next_multiple_of_def)

text \<open>
  The frames are cut from the transfer front to back: each lies in a message of its own, of at
  least a header's length and past its type and length words, and the next begins where that
  message ends.
\<close>

fun carved :: "bytes \<Rightarrow> bytes list \<Rightarrow> bool" where
  "carved buf [] = True"
| "carved buf (f # fs) = (\<exists>m rest. buf = m @ rest \<and> 44 \<le> length m \<and> sublist f (drop 8 m) \<and> carved rest fs)"

lemma frames_next_carves:
  assumes "frames_next buf = Some (Some (Inr f), rest)"
  shows "\<exists>m. buf = m @ rest \<and> 44 \<le> length m \<and> sublist f (drop 8 m)"
proof -
  obtain ml off dl where ok: "44 \<le> ml" "ml \<le> length buf" "8 + off + dl \<le> ml"
    and f: "f = take dl (drop (8 + off) buf)" and rest: "rest = drop ml buf"
    using assms by (auto simp: frames_next_def next_frame_eq const_simps Let_def not_less
        split: if_splits)
  have "f = take dl (drop off (drop 8 (take ml buf)))"
    using ok f by (simp add: take_drop_take add.commute)
  then have "sublist f (drop 8 (take ml buf))"
    by (metis sublist_drop sublist_order.order_trans sublist_take)
  with ok rest show ?thesis
    by (intro exI [of _ "take ml buf"]) simp
qed

lemma carved_length: "carved buf fs \<Longrightarrow> 44 * length fs \<le> length buf"
proof (induction fs arbitrary: buf)
  case (Cons f fs)
  then obtain m rest where "buf = m @ rest" "44 \<le> length m" "carved rest fs" by auto
  with Cons.IH [of rest] show ?case by simp
qed simp

lemma packet_decode_carves_any:
  "\<exists>fs tail. packet_decode buf = Some (map Inr fs @ tail) \<and> carved buf fs
     \<and> (tail = [] \<or> (\<exists>e. tail = [Inl e]))"
proof (induction buf rule: packet_decode.induct)
  case (1 buf)
  obtain item rest where n: "frames_next buf = Some (item, rest)"
    using frames_next_no_panic [of buf] by auto
  show ?case
  proof (cases item)
    case None
    with n show ?thesis
      by (intro exI [of _ "[]"]) (simp add: packet_decode.simps [of buf])
  next
    case (Some r)
    with "1.IH" [OF n refl Some] obtain fs tail where IH: "packet_decode rest = Some (map Inr fs @ tail)"
      "carved rest fs" "tail = [] \<or> (\<exists>e. tail = [Inl e])" by blast
    show ?thesis
    proof (cases r)
      case (Inl e)
      with n Some have "rest = []"
        by (auto simp: frames_next_def bind_eq_Some_conv split: if_splits)
      then have "packet_decode rest = Some []" by (simp add: packet_decode_end)
      with n Some Inl show ?thesis
        by (intro exI [of _ "[]"] exI [of _ "[Inl e]"]) (simp add: packet_decode.simps [of buf])
    next
      case (Inr f)
      with n Some IH frames_next_carves [of buf f rest] show ?thesis
        by (intro exI [of _ "f # fs"] exI [of _ tail]) (simp add: packet_decode.simps [of buf], blast)
    qed
  qed
qed

text \<open>
  C24: Whatever bytes the device sends, decoding a transfer ends without a panic. The result is
  a run of frames cut from the transfer front to back, without overlap between messages, then at
  most one error, after which the rest of the transfer is given up; there are at most as many
  frames as headers fit in the transfer.
\<close>

theorem packet_decode_carves:
  "\<exists>fs tail. packet_decode buf = Some (map Inr fs @ tail) \<and> carved buf fs
     \<and> (tail = [] \<or> (\<exists>e. tail = [Inl e])) \<and> 44 * length fs \<le> length buf"
  using packet_decode_carves_any [of buf] carved_length by blast

end
