(* ===== verification/Usb_Matcher.thy ===== *)
theory Usb_Matcher
  imports Prelude
begin

text \<open>
  The USB descriptors, the USB errors and the matcher that finds the RNDIS function of a device:
  \<^verbatim>\<open>src/src/usb/descriptor.rs\<close>, \<^verbatim>\<open>src/src/usb/error.rs\<close> and
  \<^verbatim>\<open>src/src/usb/matcher.rs\<close>. Shown here: the walk over the class-specific descriptors never
  panics, ends on any bytes and finds the Union descriptor of any well-formed sequence; a function is
  found exactly when some configuration has a matching pair of interfaces, it comes from the first
  such configuration, and every field of it names what the descriptors say.
\<close>

subsection \<open>Errors\<close>

datatype usb_error = UsbDisconnected | UsbTimeout | UsbStall | UsbNotFound | UsbOther string

fun is_fatal :: "usb_error \<Rightarrow> bool" where
  "is_fatal UsbDisconnected = True"
| "is_fatal UsbNotFound = True"
| "is_fatal _ = False"

text \<open>\<open>e.to_string()\<close>\<close>

fun usb_error_string :: "usb_error \<Rightarrow> string" where
  "usb_error_string UsbDisconnected = ''device disconnected''"
| "usb_error_string UsbTimeout = ''transfer timed out''"
| "usb_error_string UsbStall = ''endpoint stalled''"
| "usb_error_string UsbNotFound = ''device not found''"
| "usb_error_string (UsbOther s) = s"

subsection \<open>Descriptors\<close>

datatype device_id = DeviceId u64

instantiation device_id :: linorder
begin

fun less_eq_device_id :: "device_id \<Rightarrow> device_id \<Rightarrow> bool" where
  "less_eq_device_id (DeviceId a) (DeviceId b) = (a \<le> b)"

fun less_device_id :: "device_id \<Rightarrow> device_id \<Rightarrow> bool" where
  "less_device_id (DeviceId a) (DeviceId b) = (a < b)"

instance
proof
  fix x y z :: device_id
  show "x < y \<longleftrightarrow> x \<le> y \<and> \<not> y \<le> x" by (cases x; cases y) auto
  show "x \<le> x" by (cases x) simp
  show "x \<le> y \<Longrightarrow> y \<le> z \<Longrightarrow> x \<le> z" by (cases x; cases y; cases z) simp
  show "x \<le> y \<Longrightarrow> y \<le> x \<Longrightarrow> x = y" by (cases x; cases y) simp
  show "x \<le> y \<or> y \<le> x" by (cases x; cases y) auto
qed

end

record device_info =
  di_id :: device_id
  di_vendor_id :: u16
  di_product_id :: u16
  di_manufacturer :: "string option"
  di_product :: "string option"

text \<open>\<open>format!("{:04x}", n)\<close>\<close>

definition hex_digit :: "u16 \<Rightarrow> char" where
  "hex_digit d = ''0123456789abcdef'' ! unat d"

definition hex4 :: "u16 \<Rightarrow> string" where
  "hex4 n = map (\<lambda>k. hex_digit (drop_bit k n AND 15)) [12, 8, 4, 0]"

definition label :: "device_info \<Rightarrow> string" where
  "label d =
     (let name = (case (di_manufacturer d, di_product d) of
            (Some m, Some p) \<Rightarrow> m @ '' '' @ p
          | (None, Some p) \<Rightarrow> p
          | (Some m, None) \<Rightarrow> m
          | (None, None) \<Rightarrow> ''unknown device'')
      in name @ '' ('' @ hex4 (di_vendor_id d) @ '':'' @ hex4 (di_product_id d) @ '')'')"

datatype transfer_type = TControl | TIsochronous | TBulk | TInterrupt

datatype usb_direction = DirIn | DirOut

record endpoint_descriptor =
  ep_address :: u8
  ep_transfer_type :: transfer_type
  ep_max_packet_size :: u16

definition direction :: "endpoint_descriptor \<Rightarrow> usb_direction" where
  "direction e = (if ep_address e AND 0x80 \<noteq> 0 then DirIn else DirOut)"

record interface_descriptor =
  if_number :: u8
  if_alt_setting :: u8
  if_class :: u8
  if_subclass :: u8
  if_protocol :: u8
  if_endpoints :: "endpoint_descriptor list"
  if_extra :: bytes

definition endpoint :: "interface_descriptor \<Rightarrow> transfer_type \<Rightarrow> usb_direction \<Rightarrow> endpoint_descriptor option" where
  "endpoint i ty dir = find (\<lambda>e. ep_transfer_type e = ty \<and> direction e = dir) (if_endpoints i)"

record config_descriptor =
  cfg_value :: u8
  cfg_interfaces :: "interface_descriptor list"

subsection \<open>The matcher\<close>

definition CS_INTERFACE :: u8 where [const_simps]: "CS_INTERFACE = 0x24"
definition CDC_UNION :: u8 where [const_simps]: "CDC_UNION = 0x06"
definition CLASS_CDC_DATA :: u8 where [const_simps]: "CLASS_CDC_DATA = 0x0A"

definition CONTROL_SIGNATURES :: "(u8 \<times> u8 \<times> u8) list" where
  "CONTROL_SIGNATURES = [(0xE0, 0x01, 0x03), (0x02, 0x02, 0xFF), (0xEF, 0x04, 0x01)]"

record rndis_function =
  rf_config_value :: u8
  rf_control_interface :: u8
  rf_data_interface :: u8
  rf_data_alt_setting :: u8
  rf_interrupt_in :: "u8 option"
  rf_bulk_in :: u8
  rf_bulk_out :: u8
  rf_bulk_max_packet_size :: u16

text \<open>
  The loop \<open>while let Some(&len) = rest.first()\<close>. The outer option is the panic of an index
  out of range, the inner one the returned \<open>Option<u8>\<close>.
\<close>

function union_subordinate :: "bytes \<Rightarrow> u8 option option" where
  "union_subordinate rest =
     (case rest of
        [] \<Rightarrow> Some None
      | len # _ \<Rightarrow>
          if len < 2 \<or> unat len > length rest then Some None
          else (let desc = take (unat len) rest; tail = drop (unat len) rest in
            case index desc 1 of
              None \<Rightarrow> None
            | Some d1 \<Rightarrow>
                if d1 = CS_INTERFACE \<and> length desc \<ge> 5 then
                  (case index desc 2 of
                     None \<Rightarrow> None
                   | Some d2 \<Rightarrow>
                       if d2 = CDC_UNION then
                         (case index desc 4 of None \<Rightarrow> None | Some d4 \<Rightarrow> Some (Some d4))
                       else union_subordinate tail)
                else union_subordinate tail))"
  by pat_completeness auto
termination
  by (relation "measure length") (auto simp: word_less_nat_alt)

declare union_subordinate.simps [simp del]

definition is_control_signature :: "interface_descriptor \<Rightarrow> bool" where
  "is_control_signature i \<longleftrightarrow> (if_class i, if_subclass i, if_protocol i) \<in> set CONTROL_SIGNATURES"

definition build_function :: "config_descriptor \<Rightarrow> interface_descriptor \<Rightarrow> rndis_function option option" where
  "build_function config control = do {
     sub \<leftarrow> union_subordinate (if_extra control);
     let data_number = (case sub of Some n \<Rightarrow> n | None \<Rightarrow> if_number control + 1);
     Some (do {
       (data, bulk_in, bulk_out) \<leftarrow> find_map (\<lambda>i. do {
           bin \<leftarrow> endpoint i TBulk DirIn;
           bout \<leftarrow> endpoint i TBulk DirOut;
           Some (i, bin, bout)
         }) (filter (\<lambda>i. if_number i = data_number \<and> if_class i = CLASS_CDC_DATA) (cfg_interfaces config));
       Some \<lparr>rf_config_value = cfg_value config,
             rf_control_interface = if_number control,
             rf_data_interface = if_number data,
             rf_data_alt_setting = if_alt_setting data,
             rf_interrupt_in = map_option ep_address (endpoint control TInterrupt DirIn),
             rf_bulk_in = ep_address bulk_in,
             rf_bulk_out = ep_address bulk_out,
             rf_bulk_max_packet_size = max (ep_max_packet_size bulk_in) (ep_max_packet_size bulk_out)\<rparr>
     })
   }"

text \<open>\<open>find_map\<close> over a closure that may panic.\<close>

fun find_map_panic :: "('a \<Rightarrow> 'b option option) \<Rightarrow> 'a list \<Rightarrow> 'b option option" where
  "find_map_panic f [] = Some None"
| "find_map_panic f (x # xs) =
     (case f x of None \<Rightarrow> None | Some (Some y) \<Rightarrow> Some (Some y) | Some None \<Rightarrow> find_map_panic f xs)"

definition find_rndis_in_config :: "config_descriptor \<Rightarrow> rndis_function option option" where
  "find_rndis_in_config config =
     find_map_panic (build_function config)
       (filter (\<lambda>i. if_alt_setting i = 0 \<and> is_control_signature i) (cfg_interfaces config))"

definition find_rndis :: "config_descriptor list \<Rightarrow> rndis_function option option" where
  "find_rndis configs = find_map_panic find_rndis_in_config configs"

subsection \<open>The descriptor walk\<close>

text \<open>The reference: the walk without the panics, on the sequence of descriptors.\<close>

definition is_union :: "bytes \<Rightarrow> bool" where
  "is_union d \<longleftrightarrow> 5 \<le> length d \<and> d ! 1 = 0x24 \<and> d ! 2 = 0x06"

definition descriptor_ok :: "bytes \<Rightarrow> bool" where
  "descriptor_ok d \<longleftrightarrow> 2 \<le> length d \<and> length d < 256 \<and> unat (d ! 0) = length d"

lemma union_subordinate_no_panic: "union_subordinate rest \<noteq> None"
proof (induction rest rule: union_subordinate.induct)
  case (1 rest)
  show ?case
  proof (cases rest)
    case (Cons len tail)
    show ?thesis
    proof (cases "len < 2 \<or> unat len > length rest")
      case True
      with Cons show ?thesis by (subst union_subordinate.simps) simp
    next
      case False
      then have "2 \<le> length (take (unat len) rest)"
        by (simp add: word_less_nat_alt)
      with False Cons 1 show ?thesis
        by (subst union_subordinate.simps) (auto simp: Let_def simp del: not_None_eq)
    qed
  qed (subst union_subordinate.simps, simp)
qed

lemma union_subordinate_step:
  assumes "descriptor_ok d"
  shows "union_subordinate (d @ rest) = (if is_union d then Some (Some (d ! 4)) else union_subordinate rest)"
proof -
  obtain len tail where d: "d = len # tail" "unat len = length d"
    using assms by (cases d) (auto simp: descriptor_ok_def)
  then have "\<not> len < 2"
    using assms by (auto simp: descriptor_ok_def word_less_nat_alt)
  moreover have "take (unat len) (d @ rest) = d" "drop (unat len) (d @ rest) = rest" by (simp_all add: d(2))
  moreover have "2 \<le> length d" using assms by (simp add: descriptor_ok_def)
  ultimately show ?thesis
    using d by (subst union_subordinate.simps) (auto simp: Let_def is_union_def const_simps)
qed

text \<open>
  The walk over the class-specific descriptors returns on any bytes without a panic, and on any
  sequence of well-formed descriptors (each as long as its length byte says, at least two bytes) it
  returns the subordinate interface of the first Union descriptor, if there is one; what follows the
  first Union descriptor is not looked at.
\<close>

lemma union_subordinate_finds:
  "(\<exists>x. union_subordinate bytes = Some x)
   \<and> (list_all descriptor_ok ds \<longrightarrow>
       union_subordinate (concat ds) = Some (map_option (\<lambda>d. d ! 4) (find is_union ds))
       \<and> (list_ex is_union ds \<longrightarrow>
            union_subordinate (concat ds @ bytes) = Some (map_option (\<lambda>d. d ! 4) (find is_union ds))))"
proof -
  have "union_subordinate (concat ds @ bytes) =
      (if list_ex is_union ds then Some (map_option (\<lambda>d. d ! 4) (find is_union ds)) else union_subordinate bytes)"
    if "list_all descriptor_ok ds" for bytes
    using that by (induction ds) (simp_all add: union_subordinate_step)
  moreover have "\<not> list_ex is_union ds \<Longrightarrow> find is_union ds = None"
    by (simp add: find_None_iff list_ex_iff)
  moreover have "union_subordinate [] = Some None"
    by (simp add: union_subordinate.simps)
  ultimately show ?thesis
    using union_subordinate_no_panic [of bytes] by (metis append_Nil2 not_None_eq option.map(1))
qed

lemma union_subordinate_finds_witness:
  "list_all descriptor_ok [[5, 0x24, 0, 0x10, 1], [5, 0x24, 6, 0, 3]]
   \<and> union_subordinate (concat [[5, 0x24, 0, 0x10, 1], [5, 0x24, 6, 0, 3]]) = Some (Some 3)"
proof -
  have ok: "list_all descriptor_ok [[5, 0x24, 0, 0x10, 1], [5, 0x24, 6, 0, 3]]"
    by (simp add: descriptor_ok_def)
  with union_subordinate_finds [of "[]" "[[5, 0x24, 0, 0x10, 1], [5, 0x24, 6, 0, 3]]"] show ?thesis
    by (simp add: is_union_def)
qed

subsection \<open>The function found\<close>

text \<open>The pairs of interfaces that make an RNDIS function, and what the function then is.\<close>

definition data_number :: "interface_descriptor \<Rightarrow> u8" where
  "data_number control =
     (case union_subordinate (if_extra control) of Some (Some n) \<Rightarrow> n | _ \<Rightarrow> if_number control + 1)"

definition rndis_pair :: "config_descriptor \<Rightarrow> interface_descriptor \<Rightarrow> interface_descriptor \<Rightarrow> bool" where
  "rndis_pair config control data \<longleftrightarrow>
     control \<in> set (cfg_interfaces config) \<and> data \<in> set (cfg_interfaces config)
     \<and> if_alt_setting control = 0 \<and> is_control_signature control
     \<and> if_number data = data_number control \<and> if_class data = 0x0A
     \<and> endpoint data TBulk DirIn \<noteq> None \<and> endpoint data TBulk DirOut \<noteq> None"

definition function_of :: "config_descriptor \<Rightarrow> interface_descriptor \<Rightarrow> interface_descriptor \<Rightarrow> rndis_function" where
  "function_of config control data =
     \<lparr>rf_config_value = cfg_value config, rf_control_interface = if_number control,
      rf_data_interface = if_number data, rf_data_alt_setting = if_alt_setting data,
      rf_interrupt_in = map_option ep_address (endpoint control TInterrupt DirIn),
      rf_bulk_in = ep_address (the (endpoint data TBulk DirIn)),
      rf_bulk_out = ep_address (the (endpoint data TBulk DirOut)),
      rf_bulk_max_packet_size = max (ep_max_packet_size (the (endpoint data TBulk DirIn)))
        (ep_max_packet_size (the (endpoint data TBulk DirOut)))\<rparr>"

lemma build_function_cases:
  obtains (found) data where "data \<in> set (cfg_interfaces config)" "if_number data = data_number control"
      "if_class data = 0x0A" "endpoint data TBulk DirIn \<noteq> None" "endpoint data TBulk DirOut \<noteq> None"
      "build_function config control = Some (Some (function_of config control data))"
  | (absent) "build_function config control = Some None"
      "\<not> (\<exists>data\<in>set (cfg_interfaces config). if_number data = data_number control \<and> if_class data = 0x0A
          \<and> endpoint data TBulk DirIn \<noteq> None \<and> endpoint data TBulk DirOut \<noteq> None)"
proof -
  let ?pair = "\<lambda>i. do { bin \<leftarrow> endpoint i TBulk DirIn; bout \<leftarrow> endpoint i TBulk DirOut; Some (i, bin, bout) }"
  let ?is = "filter (\<lambda>i. if_number i = data_number control \<and> if_class i = CLASS_CDC_DATA) (cfg_interfaces config)"
  obtain sub where sub: "union_subordinate (if_extra control) = Some sub"
    using union_subordinate_no_panic by blast
  then have n: "(case sub of Some n \<Rightarrow> n | None \<Rightarrow> if_number control + 1) = data_number control"
    by (simp add: data_number_def split: option.split)
  show thesis
  proof (cases "find_map ?pair ?is")
    case None
    have "build_function config control = Some None"
      unfolding build_function_def sub bind.bind_lunit Let_def n None by simp
    moreover have "\<not> (\<exists>data\<in>set (cfg_interfaces config). if_number data = data_number control \<and> if_class data = 0x0A
          \<and> endpoint data TBulk DirIn \<noteq> None \<and> endpoint data TBulk DirOut \<noteq> None)"
      using None by (fastforce simp: find_map_None_iff CLASS_CDC_DATA_def)
    ultimately show thesis by (rule absent)
  next
    case (Some y)
    then obtain data where d: "data \<in> set ?is" "?pair data = Some y" by (rule find_map_SomeE)
    then obtain bin bout where e: "endpoint data TBulk DirIn = Some bin" "endpoint data TBulk DirOut = Some bout"
      "y = (data, bin, bout)"
      unfolding bind_eq_Some_conv by blast
    have "build_function config control = Some (Some (function_of config control data))"
      unfolding build_function_def sub bind.bind_lunit Let_def n Some by (simp add: e function_of_def)
    with d e show thesis by (intro found) (simp_all add: CLASS_CDC_DATA_def)
  qed
qed

lemma find_map_panic_eq:
  "(\<And>x. f x \<noteq> None) \<Longrightarrow> find_map_panic f xs = Some (find_map (\<lambda>x. the (f x)) xs)"
proof (induction xs)
  case (Cons x xs)
  obtain y where "f x = Some y" using Cons.prems by blast
  with Cons show ?case by (cases y) simp_all
qed simp

lemma build_function_no_panic: "build_function config control \<noteq> None"
  by (cases rule: build_function_cases [of config control]) simp_all

lemma find_rndis_in_config_cases:
  obtains (found) control data where "rndis_pair config control data"
      "find_rndis_in_config config = Some (Some (function_of config control data))"
  | (absent) "find_rndis_in_config config = Some None" "\<not> (\<exists>control data. rndis_pair config control data)"
proof -
  let ?cs = "filter (\<lambda>i. if_alt_setting i = 0 \<and> is_control_signature i) (cfg_interfaces config)"
  have eq: "find_rndis_in_config config = Some (find_map (\<lambda>i. the (build_function config i)) ?cs)"
    by (simp add: find_rndis_in_config_def find_map_panic_eq build_function_no_panic)
  show thesis
  proof (cases "find_map (\<lambda>i. the (build_function config i)) ?cs")
    case None
    have "\<not> rndis_pair config control data" for control data
    proof
      assume p: "rndis_pair config control data"
      then have "the (build_function config control) = None"
        using None by (auto simp: find_map_None_iff rndis_pair_def)
      with p show False
        by (cases rule: build_function_cases [of config control]) (auto simp: rndis_pair_def)
    qed
    with eq None show thesis by (intro absent) simp_all
  next
    case (Some f)
    then obtain control where c: "control \<in> set ?cs" "the (build_function config control) = Some f"
      by (rule find_map_SomeE)
    show thesis
    proof (cases rule: build_function_cases [of config control])
      case (found data)
      with c eq Some show thesis by (intro that(1) [of control data]) (auto simp: rndis_pair_def)
    qed (use c in simp)
  qed
qed

lemma find_rndis_no_panic: "\<exists>f. find_rndis configs = Some f"
proof (induction configs)
  case (Cons config configs)
  then show ?case
    by (cases rule: find_rndis_in_config_cases [of config]) (simp_all add: find_rndis_def)
qed (simp add: find_rndis_def)

text \<open>
  C30: The matcher is exact. It never panics. It finds nothing exactly when no configuration has a
  matching pair of interfaces (a control interface at alternate setting 0 with one of the RNDIS
  signatures, and a CDC data interface, the one its Union descriptor names or else the next one,
  with a bulk endpoint in each direction). What it finds is the function of such a pair, in the
  first configuration that has one, with the addresses of that pair's endpoints.
\<close>

theorem find_rndis_exact:
  "(find_rndis configs = Some None \<and> \<not> (\<exists>config\<in>set configs. \<exists>control data. rndis_pair config control data))
   \<or> (\<exists>before config after control data. configs = before @ config # after
        \<and> rndis_pair config control data
        \<and> find_rndis configs = Some (Some (function_of config control data))
        \<and> \<not> (\<exists>config'\<in>set before. \<exists>control data. rndis_pair config' control data))"
proof (induction configs)
  case (Cons config configs)
  show ?case
  proof (cases rule: find_rndis_in_config_cases [of config])
    case (found control data)
    then show ?thesis
      by (intro disjI2 exI [of _ "[]"] exI [of _ config] exI [of _ configs] exI [of _ control] exI [of _ data])
        (simp add: find_rndis_def)
  next
    case absent
    then have eq: "find_rndis (config # configs) = find_rndis configs"
      by (simp add: find_rndis_def)
    from Cons show ?thesis
    proof (elim disjE exE conjE)
      fix before config' after control data
      assume "configs = before @ config' # after" "rndis_pair config' control data"
        "find_rndis configs = Some (Some (function_of config' control data))"
        "\<not> (\<exists>c\<in>set before. \<exists>control data. rndis_pair c control data)"
      with absent eq show ?thesis
        by (intro disjI2 exI [of _ "config # before"] exI [of _ config'] exI [of _ after] exI [of _ control]
            exI [of _ data]) simp
    qed (use absent eq in simp)
  qed
qed (simp add: find_rndis_def)

end
