(* ===== verification/Bulk_Io.thy ===== *)
theory Bulk_Io
  imports Usb_Matcher
begin

text \<open>
  The bulk endpoints as the link sees them: the traits \<open>InEndpoint\<close> and \<open>OutEndpoint\<close>
  of \<^verbatim>\<open>src/src/usb/backend.rs\<close>, and the functions of \<^verbatim>\<open>src/src/link.rs\<close> that
  reap and recover them. An endpoint is a parameter, a record of functions on its own state. Shown
  here: a halt is cleared only with nothing pending, once, after the queue was cancelled, and the
  read queue is refilled to its full depth only after that; recovery succeeds when the cancelled
  transfers come back; reaping returns.
\<close>

subsection \<open>Endpoints\<close>

record 'e in_endpoint =
  ie_submit :: "usize \<Rightarrow> 'e \<Rightarrow> 'e"
  ie_wait :: "duration \<Rightarrow> 'e \<Rightarrow> (usb_error + bytes) option \<times> 'e"
  ie_pending :: "'e \<Rightarrow> usize"
  ie_cancel_all :: "'e \<Rightarrow> 'e"
  ie_clear_halt :: "'e \<Rightarrow> (usb_error + unit) \<times> 'e"

record 'e out_endpoint =
  oe_max_packet_size :: "'e \<Rightarrow> usize"
  oe_pending :: "'e \<Rightarrow> usize"
  oe_submit :: "bytes \<Rightarrow> 'e \<Rightarrow> 'e"
  oe_wait :: "duration \<Rightarrow> 'e \<Rightarrow> (usb_error + unit) option \<times> 'e"
  oe_cancel_all :: "'e \<Rightarrow> 'e"
  oe_clear_halt :: "'e \<Rightarrow> (usb_error + unit) \<times> 'e"

definition RX_DEPTH :: usize where [const_simps]: "RX_DEPTH = 16"
definition TX_DEPTH :: usize where [const_simps]: "TX_DEPTH = 8"
definition TICK :: duration where "TICK = from_millis 200"
definition DRAIN_TIMEOUT :: duration where "DRAIN_TIMEOUT = from_millis 250"
definition MAX_CONSECUTIVE_STALLS :: u32 where [const_simps]: "MAX_CONSECUTIVE_STALLS = 5"

subsection \<open>Recovery\<close>

text \<open>
  \<open>for _ in 0..=DEPTH { if pending() == 0 { break; } wait(DRAIN_TIMEOUT); }\<close>, with \<open>n\<close>
  turns left.
\<close>

fun drain_in :: "'e in_endpoint \<Rightarrow> nat \<Rightarrow> 'e \<Rightarrow> 'e" where
  "drain_in E 0 ep = ep"
| "drain_in E (Suc n) ep =
     (if ie_pending E ep = 0 then ep else drain_in E n (snd (ie_wait E DRAIN_TIMEOUT ep)))"

fun drain_out :: "'e out_endpoint \<Rightarrow> nat \<Rightarrow> 'e \<Rightarrow> 'e" where
  "drain_out E 0 ep = ep"
| "drain_out E (Suc n) ep =
     (if oe_pending E ep = 0 then ep else drain_out E n (snd (oe_wait E DRAIN_TIMEOUT ep)))"

text \<open>\<open>for _ in 0..RX_DEPTH { submit(transfer_size); }\<close>\<close>

definition submit_reads :: "'e in_endpoint \<Rightarrow> usize \<Rightarrow> 'e \<Rightarrow> 'e" where
  "submit_reads E transfer_size ep = (ie_submit E transfer_size ^^ RX_DEPTH) ep"

definition recover_bulk_in :: "'e in_endpoint \<Rightarrow> usize \<Rightarrow> 'e \<Rightarrow> (usb_error + unit) \<times> 'e" where
  "recover_bulk_in E transfer_size ep =
     (let ep = ie_cancel_all E ep;
          ep = drain_in E (Suc RX_DEPTH) ep
      in if ie_pending E ep > 0
         then (Inl (UsbOther ''bulk IN reads did not drain after cancel''), ep)
         else (case ie_clear_halt E ep of
                 (Inl e, ep) \<Rightarrow> (Inl e, ep)
               | (Inr _, ep) \<Rightarrow> (Inr (), submit_reads E transfer_size ep)))"

definition recover_bulk_out :: "'e out_endpoint \<Rightarrow> 'e \<Rightarrow> (usb_error + unit) \<times> 'e" where
  "recover_bulk_out E ep =
     (let ep = oe_cancel_all E ep;
          ep = drain_out E (Suc TX_DEPTH) ep
      in if oe_pending E ep > 0
         then (Inl (UsbOther ''bulk OUT transfers did not drain after cancel''), ep)
         else oe_clear_halt E ep)"

partial_function (option) reap :: "'e out_endpoint \<Rightarrow> duration \<Rightarrow> 'e \<Rightarrow> 'e option" where
  "reap E timeout ep =
     (if oe_pending E ep > 0 then
        (case oe_wait E timeout ep of
           (r, ep) \<Rightarrow>
             (case r of
                Some (Inr _) \<Rightarrow> reap E timeout ep
              | Some (Inl e) \<Rightarrow> Some (if e = UsbStall then snd (recover_bulk_out E ep) else ep)
              | None \<Rightarrow> Some ep))
      else Some ep)"

subsection \<open>What recovery calls, and when\<close>

text \<open>The calls on an endpoint, with what \<open>pending\<close> was when the halt was cleared.\<close>

datatype in_call = ICancel | IWait | IClearHalt usize | ISubmit usize

definition traced :: "'e in_endpoint \<Rightarrow> ('e \<times> in_call list) in_endpoint" where
  "traced E =
     \<lparr>ie_submit = \<lambda>n (ep, tr). (ie_submit E n ep, tr @ [ISubmit n]),
      ie_wait = \<lambda>d (ep, tr). (case ie_wait E d ep of (r, ep') \<Rightarrow> (r, (ep', tr @ [IWait]))),
      ie_pending = \<lambda>(ep, tr). ie_pending E ep,
      ie_cancel_all = \<lambda>(ep, tr). (ie_cancel_all E ep, tr @ [ICancel]),
      ie_clear_halt = \<lambda>(ep, tr). (case ie_clear_halt E ep of
          (r, ep') \<Rightarrow> (r, (ep', tr @ [IClearHalt (ie_pending E ep)])))\<rparr>"

lemma drain_in_traced:
  "\<exists>k\<le>n. snd (drain_in (traced E) n (ep, tr)) = tr @ replicate k IWait"
proof (induction n arbitrary: ep tr)
  case (Suc n)
  obtain r ep' where w: "ie_wait E DRAIN_TIMEOUT ep = (r, ep')" by fastforce
  obtain k where k: "k \<le> n" "snd (drain_in (traced E) n (ep', tr @ [IWait])) = tr @ [IWait] @ replicate k IWait"
    using Suc [of ep' "tr @ [IWait]"] by auto
  show ?case
  proof (cases "ie_pending E ep = 0")
    case True
    then show ?thesis by (auto simp: traced_def intro: exI [of _ 0])
  next
    case False
    with w k show ?thesis
      by (intro exI [of _ "Suc k"]) (simp add: traced_def)
  qed
qed auto

lemma submits_traced:
  "snd ((ie_submit (traced E) n ^^ k) (ep, tr)) = tr @ replicate k (ISubmit n)"
proof (induction k arbitrary: ep tr)
  case (Suc k)
  have "(ie_submit (traced E) n ^^ Suc k) (ep, tr) = (ie_submit (traced E) n ^^ k) (ie_submit E n ep, tr @ [ISubmit n])"
    by (simp add: funpow_swap1 traced_def)
  then show ?case by (simp add: Suc)
qed simp

text \<open>
  C31: Recovery of a stalled endpoint respects the USB rule, whatever the endpoint does: the queued reads
  are cancelled first and waited for at most RX_DEPTH + 1 times, the halt is cleared at most once
  and only with nothing pending, and the sixteen reads of the queue are submitted again only after
  the halt was cleared; the three ways out are the three results.
\<close>

theorem recover_bulk_in_order:
  "\<exists>res ep' k rest. recover_bulk_in (traced E) transfer_size (ep, []) = (res, (ep', [ICancel] @ replicate k IWait @ rest))
    \<and> k \<le> RX_DEPTH + 1
    \<and> ((res = Inl (UsbOther ''bulk IN reads did not drain after cancel'') \<and> rest = [])
      \<or> ((\<exists>e. res = Inl e) \<and> rest = [IClearHalt 0])
      \<or> (res = Inr () \<and> rest = [IClearHalt 0] @ replicate RX_DEPTH (ISubmit transfer_size)))"
proof -
  define s where "s = drain_in (traced E) (Suc RX_DEPTH) (ie_cancel_all (traced E) (ep, []))"
  obtain k where k: "k \<le> Suc RX_DEPTH" "snd s = [ICancel] @ replicate k IWait"
    using drain_in_traced [of "Suc RX_DEPTH" E "ie_cancel_all E ep" "[ICancel]"] by (auto simp: s_def traced_def)
  obtain e where s: "s = (e, [ICancel] @ replicate k IWait)"
    using k(2) by (cases s) auto
  have rec: "recover_bulk_in (traced E) transfer_size (ep, []) =
      (if ie_pending (traced E) s > 0
       then (Inl (UsbOther ''bulk IN reads did not drain after cancel''), s)
       else (case ie_clear_halt (traced E) s of
               (Inl e, ep) \<Rightarrow> (Inl e, ep) | (Inr _, ep) \<Rightarrow> (Inr (), submit_reads (traced E) transfer_size ep)))"
    by (simp add: recover_bulk_in_def s_def Let_def)
  show ?thesis
  proof (cases "ie_pending E e > 0")
    case True
    then show ?thesis
      unfolding rec s using k by (auto simp: traced_def)
  next
    case False
    obtain c e2 where c: "ie_clear_halt E e = (c, e2)" by fastforce
    have sub: "snd (submit_reads (traced E) transfer_size (e2, tr)) = tr @ replicate RX_DEPTH (ISubmit transfer_size)" for tr
      by (simp add: submit_reads_def submits_traced)
    have "ie_clear_halt (traced E) s = (c, (e2, [ICancel] @ replicate k IWait @ [IClearHalt 0]))"
      using False c by (simp add: s traced_def)
    with False k sub [of "[ICancel] @ replicate k IWait @ [IClearHalt 0]"] show ?thesis
      unfolding rec by (cases c; cases "submit_reads (traced E) transfer_size (e2, [ICancel] @ replicate k IWait @ [IClearHalt 0])")
        (auto simp: s traced_def)
  qed
qed

subsection \<open>What the endpoints promise\<close>

text \<open>
  The documented behaviour of \<open>pending\<close>, on either direction: the transfers submitted and not
  yet returned by \<open>wait\<close>.
\<close>

definition in_endpoint_ok :: "'e in_endpoint \<Rightarrow> bool" where
  "in_endpoint_ok E \<longleftrightarrow>
     (\<forall>n ep. ie_pending E (ie_submit E n ep) = ie_pending E ep + 1)
     \<and> (\<forall>d ep. case ie_wait E d ep of (None, ep') \<Rightarrow> ie_pending E ep' = ie_pending E ep
                                 | (Some _, ep') \<Rightarrow> ie_pending E ep = ie_pending E ep' + 1)
     \<and> (\<forall>ep. ie_pending E (ie_cancel_all E ep) = ie_pending E ep)
     \<and> (\<forall>ep. ie_pending E (snd (ie_clear_halt E ep)) = ie_pending E ep)"

definition out_endpoint_ok :: "'e out_endpoint \<Rightarrow> bool" where
  "out_endpoint_ok E \<longleftrightarrow>
     (\<forall>m ep. oe_pending E (oe_submit E m ep) = oe_pending E ep + 1)
     \<and> (\<forall>d ep. case oe_wait E d ep of (None, ep') \<Rightarrow> oe_pending E ep' = oe_pending E ep
                                 | (Some _, ep') \<Rightarrow> oe_pending E ep = oe_pending E ep' + 1)"

text \<open>Aborted reads come back: in the states of \<open>C\<close>, a wait with something pending returns it.\<close>

definition cancelled_reads_return :: "'e in_endpoint \<Rightarrow> ('e \<Rightarrow> bool) \<Rightarrow> bool" where
  "cancelled_reads_return E C \<longleftrightarrow>
     (\<forall>ep. C (ie_cancel_all E ep))
     \<and> (\<forall>ep. C ep \<and> ie_pending E ep > 0 \<longrightarrow>
          fst (ie_wait E DRAIN_TIMEOUT ep) \<noteq> None \<and> C (snd (ie_wait E DRAIN_TIMEOUT ep)))"

lemma in_endpoint_okD:
  assumes "in_endpoint_ok E"
  shows "ie_pending E (ie_submit E n ep) = ie_pending E ep + 1"
    "ie_wait E d ep = (None, ep') \<Longrightarrow> ie_pending E ep' = ie_pending E ep"
    "ie_wait E d ep = (Some r, ep') \<Longrightarrow> ie_pending E ep = ie_pending E ep' + 1"
    "ie_pending E (ie_cancel_all E ep) = ie_pending E ep"
    "ie_clear_halt E ep = (x, ep') \<Longrightarrow> ie_pending E ep' = ie_pending E ep"
proof -
  note ok = assms [unfolded in_endpoint_ok_def]
  show "ie_pending E (ie_submit E n ep) = ie_pending E ep + 1" "ie_pending E (ie_cancel_all E ep) = ie_pending E ep"
    using ok by simp_all
  have w: "case ie_wait E d ep of (None, ep') \<Rightarrow> ie_pending E ep' = ie_pending E ep
                                 | (Some _, ep') \<Rightarrow> ie_pending E ep = ie_pending E ep' + 1"
    using ok by simp
  show "ie_wait E d ep = (None, ep') \<Longrightarrow> ie_pending E ep' = ie_pending E ep"
    "ie_wait E d ep = (Some r, ep') \<Longrightarrow> ie_pending E ep = ie_pending E ep' + 1"
    using w by auto
  have "ie_pending E (snd (ie_clear_halt E ep)) = ie_pending E ep"
    using ok by blast
  then show "ie_clear_halt E ep = (x, ep') \<Longrightarrow> ie_pending E ep' = ie_pending E ep"
    by simp
qed

lemma pending_submits:
  assumes "in_endpoint_ok E"
  shows "ie_pending E ((ie_submit E n ^^ k) ep) = ie_pending E ep + k"
  by (induction k) (simp_all add: in_endpoint_okD(1) [OF assms])

lemma pending_submit_reads:
  "in_endpoint_ok E \<Longrightarrow> ie_pending E (submit_reads E n ep) = ie_pending E ep + RX_DEPTH"
  by (simp add: submit_reads_def pending_submits)

lemma drain_in_empties:
  assumes "in_endpoint_ok E" and "cancelled_reads_return E C" and "C ep" and "ie_pending E ep \<le> n"
  shows "ie_pending E (drain_in E n ep) = 0"
  using assms(3,4)
proof (induction n arbitrary: ep)
  case (Suc n)
  show ?case
  proof (cases "ie_pending E ep = 0")
    case False
    then have "fst (ie_wait E DRAIN_TIMEOUT ep) \<noteq> None \<and> C (snd (ie_wait E DRAIN_TIMEOUT ep))"
      using assms(2) Suc.prems(1) unfolding cancelled_reads_return_def by blast
    then obtain r ep' where w: "ie_wait E DRAIN_TIMEOUT ep = (Some r, ep')" "C ep'"
      by (cases "ie_wait E DRAIN_TIMEOUT ep") auto
    with in_endpoint_okD(3) [OF assms(1) w(1)] Suc False show ?thesis by simp
  qed simp
qed simp

lemma recover_bulk_in_pending:
  assumes "in_endpoint_ok E" and "recover_bulk_in E n ep = (Inr u, ep')"
  shows "ie_pending E ep' = RX_DEPTH"
  using assms(2) in_endpoint_okD(5) [OF assms(1)] pending_submit_reads [OF assms(1)]
  by (auto simp: recover_bulk_in_def Let_def split: if_splits sum.splits prod.splits)

text \<open>
  Recovery works. If the aborted reads come back, as the trait says, at most RX_DEPTH + 1 are
  queued and the device accepts the request to clear the halt, then recovery succeeds and leaves
  exactly RX_DEPTH reads queued.
\<close>

lemma recover_bulk_in_succeeds:
  assumes "in_endpoint_ok E" and "cancelled_reads_return E C" and "ie_pending E ep \<le> RX_DEPTH + 1"
    and "\<forall>ep. fst (ie_clear_halt E ep) = Inr ()"
  shows "\<exists>ep'. recover_bulk_in E transfer_size ep = (Inr (), ep') \<and> ie_pending E ep' = RX_DEPTH"
proof -
  let ?ep = "drain_in E (Suc RX_DEPTH) (ie_cancel_all E ep)"
  have "C (ie_cancel_all E ep)"
    using assms(2) unfolding cancelled_reads_return_def by blast
  then have "ie_pending E ?ep = 0"
    using assms(3) by (intro drain_in_empties [OF assms(1,2)]) (simp_all add: in_endpoint_okD(4) [OF assms(1)])
  moreover obtain ep2 where "ie_clear_halt E ?ep = (Inr (), ep2)"
    using assms(4) by (metis prod.collapse)
  ultimately have "recover_bulk_in E transfer_size ep = (Inr (), submit_reads E transfer_size ep2)"
    by (simp add: recover_bulk_in_def Let_def)
  with recover_bulk_in_pending [OF assms(1) this] show ?thesis by blast
qed

text \<open>A queue of reads: \<open>None\<close> a read still waiting, \<open>Some\<close> its result.\<close>

definition read_queue :: "(usb_error + bytes) option list in_endpoint" where
  "read_queue =
     \<lparr>ie_submit = \<lambda>n q. q @ [None],
      ie_wait = \<lambda>d q. (case q of Some r # q' \<Rightarrow> (Some r, q') | _ \<Rightarrow> (None, q)),
      ie_pending = length,
      ie_cancel_all = map (\<lambda>r. case r of None \<Rightarrow> Some (Inl UsbTimeout) | Some x \<Rightarrow> Some x),
      ie_clear_halt = \<lambda>q. (Inr (), q)\<rparr>"

lemma read_queue_ok: "in_endpoint_ok read_queue"
  by (auto simp: in_endpoint_ok_def read_queue_def split: list.split option.split)

lemma read_queue_cancelled: "cancelled_reads_return read_queue (\<lambda>q. None \<notin> set q)"
  by (auto simp: cancelled_reads_return_def read_queue_def split: list.split option.splits)

lemma recover_bulk_in_succeeds_witness:
  "in_endpoint_ok read_queue \<and> cancelled_reads_return read_queue (\<lambda>q. None \<notin> set q)
   \<and> (\<exists>ep'. recover_bulk_in read_queue 16384 (replicate 15 None) = (Inr (), ep') \<and> ie_pending read_queue ep' = RX_DEPTH)"
proof -
  have "ie_pending read_queue (replicate 15 None) \<le> RX_DEPTH + 1" "\<forall>ep. fst (ie_clear_halt read_queue ep) = Inr ()"
    by (simp_all add: read_queue_def RX_DEPTH_def)
  from recover_bulk_in_succeeds [OF read_queue_ok read_queue_cancelled this] read_queue_ok read_queue_cancelled
  show ?thesis by blast
qed

subsection \<open>Reaping returns\<close>

lemma out_endpoint_okD:
  assumes "out_endpoint_ok E"
  shows "oe_pending E (oe_submit E m ep) = oe_pending E ep + 1"
    "oe_wait E d ep = (None, ep') \<Longrightarrow> oe_pending E ep' = oe_pending E ep"
    "oe_wait E d ep = (Some r, ep') \<Longrightarrow> oe_pending E ep = oe_pending E ep' + 1"
proof -
  note ok = assms [unfolded out_endpoint_ok_def]
  show "oe_pending E (oe_submit E m ep) = oe_pending E ep + 1" using ok by simp
  have w: "case oe_wait E d ep of (None, ep') \<Rightarrow> oe_pending E ep' = oe_pending E ep
                                 | (Some _, ep') \<Rightarrow> oe_pending E ep = oe_pending E ep' + 1"
    using ok by simp
  show "oe_wait E d ep = (None, ep') \<Longrightarrow> oe_pending E ep' = oe_pending E ep"
    "oe_wait E d ep = (Some r, ep') \<Longrightarrow> oe_pending E ep = oe_pending E ep' + 1"
    using w by auto
qed

lemma reap_returns:
  assumes "out_endpoint_ok E"
  shows "\<exists>ep'. reap E timeout ep = Some ep'"
proof (induction "oe_pending E ep" arbitrary: ep rule: less_induct)
  case less
  obtain r ep1 where w: "oe_wait E timeout ep = (r, ep1)" by fastforce
  have "\<exists>ep'. reap E timeout ep1 = Some ep'" if "r = Some x" for x
    using out_endpoint_okD(3) [OF assms, of timeout ep x ep1] w that by (intro less) simp
  with w show ?case
    by (subst reap.simps) (auto split: option.split sum.split)
qed

end
