(* ===== verification/Link_Tx.thy ===== *)
theory Link_Tx
  imports Rndis_Packet Bulk_Io
begin

text \<open>
  The transmit thread of \<^verbatim>\<open>src/src/link.rs\<close>: \<open>Tx\<close> with \<open>fits\<close>, \<open>push\<close>
  and \<open>flush\<close>, and \<open>tx_loop\<close>. The endpoint and the shutdown flag are parameters on a
  state \<open>'w\<close>, so that the flag may change between any two reads. The frames that the channel
  hands out before it first reports empty are an explicit list, the queue of a burst; what a burst
  leaves in the queue is what the next turn starts with. \<open>None\<close> is not returning: a wait that
  does not end, or a panic. Shown here: with an endpoint that completes its transfers every burst
  returns; the transfers handed to the endpoint decode to exactly the frames of the queue, in order,
  except a frame that is over the device limit; the number of packets, the length of each
  transfer and the counters; and that the length can exceed the device limit by the padding.
\<close>

subsection \<open>State\<close>

record tx_limits =
  tl_max_transfer_size :: usize
  tl_max_packets :: usize
  tl_alignment :: usize

record 'w tx_env =
  te_out :: "'w out_endpoint"
  te_shutdown :: "'w \<Rightarrow> bool \<times> 'w"

record 'w tx =
  tx_world :: 'w
  tx_lim :: tx_limits
  tx_max_packet :: usize
  tx_batch :: bytes
  tx_packets :: u64
  tx_sent :: u64
  tx_transfers :: u64
  tx_bytes :: u64

subsection \<open>Operations\<close>

definition tx_fits :: "'w tx \<Rightarrow> bytes \<Rightarrow> bool" where
  "tx_fits t frame \<longleftrightarrow> tx_packets t < of_nat (tl_max_packets (tx_lim t))
     \<and> length (tx_batch t) + DATA_HEADER_LEN + length frame \<le> tl_max_transfer_size (tx_lim t)"

definition tx_push :: "'w tx \<Rightarrow> bytes \<Rightarrow> 'w tx" where
  "tx_push t frame = t\<lparr>tx_batch := packet_append (tx_batch t) frame (tl_alignment (tx_lim t)),
                       tx_packets := tx_packets t + 1\<rparr>"

text \<open>
  The loop that bounds the queue; \<open>False\<close> is the early return of \<open>flush\<close>.
\<close>

partial_function (option) flush_wait :: "'w tx_env \<Rightarrow> 'w \<Rightarrow> (bool \<times> 'w) option" where
  "flush_wait V w =
     (if oe_pending (te_out V) w \<ge> TX_DEPTH then
        (case oe_wait (te_out V) TICK w of
           (r, w) \<Rightarrow>
             (case r of
                Some _ \<Rightarrow> flush_wait V w
              | None \<Rightarrow> (case te_shutdown V w of
                           (stop, w) \<Rightarrow> if stop then Some (False, w) else flush_wait V w)))
      else Some (True, w))"

definition tx_flush :: "'w tx_env \<Rightarrow> 'w tx \<Rightarrow> 'w tx option" where
  "tx_flush V t =
     (if tx_packets t = 0 then Some t
      else if tx_max_packet t = 0 then None
      else
        let t = (if length (tx_batch t) mod tx_max_packet t = 0
                 then t\<lparr>tx_batch := tx_batch t @ [0]\<rparr> else t)
        in do {
          (proceed, w) \<leftarrow> flush_wait V (tx_world t);
          if \<not> proceed then Some (t\<lparr>tx_world := w\<rparr>)
          else do {
            let t = t\<lparr>tx_bytes := tx_bytes t + of_nat (length (tx_batch t)),
                      tx_sent := tx_sent t + tx_packets t,
                      tx_transfers := tx_transfers t + 1\<rparr>;
            let full = tx_batch t;
            let w = oe_submit (te_out V) full w;
            w \<leftarrow> reap (te_out V) 0 w;
            Some (t\<lparr>tx_batch := [], tx_packets := 0, tx_world := w\<rparr>)
          }
        })"

text \<open>
  The inner loop \<open>while let Some(frame) = next.take()\<close>; the second component is what it leaves
  in the queue when it drops a frame and breaks.
\<close>

fun tx_fill :: "'w tx_env \<Rightarrow> 'w tx \<Rightarrow> bytes list \<Rightarrow> ('w tx \<times> bytes list) option" where
  "tx_fill V t [] = Some (t, [])"
| "tx_fill V t (frame # queue) =
     (if tx_fits t frame then tx_fill V (tx_push t frame) queue
      else do {
        t \<leftarrow> tx_flush V t;
        if tx_fits t frame then tx_fill V (tx_push t frame) queue
        else Some (t, queue)
      })"

definition tx_burst :: "'w tx_env \<Rightarrow> 'w tx \<Rightarrow> bytes list \<Rightarrow> ('w tx \<times> bytes list) option" where
  "tx_burst V t queue = do {
     (t, rest) \<leftarrow> tx_fill V t queue;
     t \<leftarrow> tx_flush V t;
     Some (t, rest)
   }"

definition tx_start :: "'w tx_env \<Rightarrow> tx_limits \<Rightarrow> 'w \<Rightarrow> 'w tx" where
  "tx_start V limits w =
     \<lparr>tx_world = w, tx_lim = limits, tx_max_packet = max (oe_max_packet_size (te_out V) w) 1,
      tx_batch = [], tx_packets = 0, tx_sent = 0, tx_transfers = 0, tx_bytes = 0\<rparr>"

text \<open>
  What \<open>recv_timeout\<close> finds: frames (the first one and those queued behind it), nothing within
  the tick, or the channel closed.
\<close>

datatype tx_input = TxFrames "bytes list" | TxTimeout | TxDisconnected

text \<open>\<open>tx_loop\<close> on the inputs of its turns; what a burst leaves in the queue comes first in the next turn.\<close>

lemma tx_fill_shrinks: "tx_fill V t queue = Some (t', rest) \<Longrightarrow> length rest \<le> length queue - 1"
proof (induction V t queue rule: tx_fill.induct)
  case (2 V t frame queue)
  show ?case
  proof (cases "tx_fits t frame")
    case True
    with 2 show ?thesis by fastforce
  next
    case False
    with "2.prems" obtain t1 where t1: "tx_flush V t = Some t1"
      by (auto simp: bind_eq_Some_conv)
    with 2 False show ?thesis
      by (cases "tx_fits t1 frame") fastforce+
  qed
qed simp

lemma tx_burst_shrinks: "tx_burst V t queue = Some (t', rest) \<Longrightarrow> rest = [] \<or> length rest < length queue"
  by (cases rest) (force simp: tx_burst_def bind_eq_Some_conv dest: tx_fill_shrinks)+

fun input_size :: "tx_input \<Rightarrow> nat" where
  "input_size (TxFrames fs) = Suc (length fs)"
| "input_size _ = 1"

function tx_loop :: "'w tx_env \<Rightarrow> 'w tx \<Rightarrow> tx_input list \<Rightarrow> 'w tx option" where
  "tx_loop V t inputs =
     (case te_shutdown V (tx_world t) of
        (True, w) \<Rightarrow> map_option (\<lambda>w. t\<lparr>tx_world := w\<rparr>) (reap (te_out V) (from_millis 500) w)
      | (False, w) \<Rightarrow>
          (let t = t\<lparr>tx_world := w\<rparr> in
           case inputs of
             [] \<Rightarrow> Some t
           | TxTimeout # inputs' \<Rightarrow> do {
               w \<leftarrow> reap (te_out V) 0 w;
               tx_loop V (t\<lparr>tx_world := w\<rparr>) inputs'
             }
           | TxDisconnected # inputs' \<Rightarrow>
               map_option (\<lambda>w. t\<lparr>tx_world := w\<rparr>) (reap (te_out V) (from_millis 500) w)
           | TxFrames fs # inputs' \<Rightarrow>
               (case tx_burst V t fs of
                  None \<Rightarrow> None
                | Some (t, rest) \<Rightarrow>
                    tx_loop V t (if rest = [] then inputs' else TxFrames rest # inputs'))))"
  by pat_completeness auto
termination
  by (relation "measure (\<lambda>(V, t, inputs). sum_list (map input_size inputs))")
    (auto dest!: tx_burst_shrinks split: if_splits)

declare tx_loop.simps [simp del]

subsection \<open>An endpoint that keeps the record of what was submitted\<close>

definition recorded :: "'w tx_env \<Rightarrow> ('w \<times> bytes list) tx_env" where
  "recorded V =
     \<lparr>te_out =
        \<lparr>oe_max_packet_size = \<lambda>(w, bs). oe_max_packet_size (te_out V) w,
         oe_pending = \<lambda>(w, bs). oe_pending (te_out V) w,
         oe_submit = \<lambda>b (w, bs). (oe_submit (te_out V) b w, bs @ [b]),
         oe_wait = \<lambda>d (w, bs). (case oe_wait (te_out V) d w of (r, w') \<Rightarrow> (r, (w', bs))),
         oe_cancel_all = \<lambda>(w, bs). (oe_cancel_all (te_out V) w, bs),
         oe_clear_halt = \<lambda>(w, bs). (case oe_clear_halt (te_out V) w of (r, w') \<Rightarrow> (r, (w', bs)))\<rparr>,
      te_shutdown = \<lambda>(w, bs). (case te_shutdown V w of (x, w') \<Rightarrow> (x, (w', bs)))\<rparr>"

definition submitted :: "('w \<times> bytes list) tx \<Rightarrow> bytes list" where
  "submitted t = snd (tx_world t)"

text \<open>
  A link in operation: the endpoint counts its transfers as documented, the shutdown flag is not
  raised, and while the queue is full a write completes after finitely many ticks, \<open>mu\<close> of
  them at most.
\<close>

definition tx_running :: "'w tx_env \<Rightarrow> ('w \<Rightarrow> nat) \<Rightarrow> bool" where
  "tx_running V mu \<longleftrightarrow> out_endpoint_ok (te_out V)
     \<and> (\<forall>w. fst (te_shutdown V w) = False \<and> oe_pending (te_out V) (snd (te_shutdown V w)) = oe_pending (te_out V) w)
     \<and> (\<forall>w w'. TX_DEPTH \<le> oe_pending (te_out V) w \<and> oe_wait (te_out V) TICK w = (None, w')
          \<longrightarrow> mu (snd (te_shutdown V w')) < mu w)"

lemma recorded_sel:
  "oe_max_packet_size (te_out (recorded V)) (w, bs) = oe_max_packet_size (te_out V) w"
  "oe_pending (te_out (recorded V)) (w, bs) = oe_pending (te_out V) w"
  "oe_wait (te_out (recorded V)) d (w, bs) = (case oe_wait (te_out V) d w of (r, w') \<Rightarrow> (r, (w', bs)))"
  "oe_submit (te_out (recorded V)) b (w, bs) = (oe_submit (te_out V) b w, bs @ [b])"
  "oe_cancel_all (te_out (recorded V)) (w, bs) = (oe_cancel_all (te_out V) w, bs)"
  "oe_clear_halt (te_out (recorded V)) (w, bs) = (case oe_clear_halt (te_out V) w of (r, w') \<Rightarrow> (r, (w', bs)))"
  "te_shutdown (recorded V) (w, bs) = (case te_shutdown V w of (x, w') \<Rightarrow> (x, (w', bs)))"
  by (simp_all add: recorded_def)

lemma drain_out_recorded: "snd (drain_out (te_out (recorded V)) n (w, bs)) = bs"
  by (induction n arbitrary: w) (simp_all add: recorded_sel split: prod.split)

lemma recover_bulk_out_recorded: "snd (snd (recover_bulk_out (te_out (recorded V)) (w, bs))) = bs"
proof -
  obtain w' where "drain_out (te_out (recorded V)) (Suc TX_DEPTH) (oe_cancel_all (te_out V) w, bs) = (w', bs)"
    using drain_out_recorded [of V "Suc TX_DEPTH" "oe_cancel_all (te_out V) w" bs] by (metis prod.collapse)
  then show ?thesis
    by (simp add: recover_bulk_out_def recorded_sel Let_def del: drain_out.simps split: prod.split)
qed

lemma reap_recorded:
  assumes "out_endpoint_ok (te_out V)"
  shows "\<exists>w'. reap (te_out (recorded V)) d (w, bs) = Some (w', bs)"
proof (induction "oe_pending (te_out V) w" arbitrary: w rule: less_induct)
  case less
  obtain r w1 where r: "oe_wait (te_out V) d w = (r, w1)" by fastforce
  have again: "\<exists>w'. reap (te_out (recorded V)) d (w1, bs) = Some (w', bs)" if "r = Some x" for x
    using out_endpoint_okD(3) [OF assms, of d w x w1] r that by (intro less) simp
  have "\<exists>w'. snd (recover_bulk_out (te_out (recorded V)) (w1, bs)) = (w', bs)"
    using recover_bulk_out_recorded [of V w1 bs] by (metis prod.collapse)
  with r again show ?case
    by (subst reap.simps) (auto simp: recorded_sel split: option.split sum.split)
qed

lemma flush_wait_recorded:
  assumes "tx_running V mu"
  shows "\<exists>w'. flush_wait (recorded V) (w, bs) = Some (True, (w', bs))"
proof (induction w rule: wf_induct [OF wf_measures [of "[oe_pending (te_out V), mu]"]])
  case (1 w)
  note run = assms [unfolded tx_running_def]
  obtain r w1 where r: "oe_wait (te_out V) TICK w = (r, w1)" by fastforce
  obtain w2 where s: "te_shutdown V w1 = (False, w2)" "oe_pending (te_out V) w2 = oe_pending (te_out V) w1"
    using run by (metis prod.collapse)
  show ?case
  proof (cases "TX_DEPTH \<le> oe_pending (te_out V) w")
    case True
    show ?thesis
    proof (cases r)
      case None
      with run r s True have "mu w2 < mu w" "oe_pending (te_out V) w2 = oe_pending (te_out V) w"
        using out_endpoint_okD(2) [of "te_out V" TICK w w1] by (auto, metis snd_conv)
      then have "\<exists>w'. flush_wait (recorded V) (w2, bs) = Some (True, (w', bs))"
        using 1 by simp
      with True None r s show ?thesis by (subst flush_wait.simps) (simp add: recorded_sel)
    next
      case (Some x)
      with run r have "oe_pending (te_out V) w1 < oe_pending (te_out V) w"
        using out_endpoint_okD(3) [of "te_out V" TICK w x w1] by simp
      then have "\<exists>w'. flush_wait (recorded V) (w1, bs) = Some (True, (w', bs))"
        using 1 by simp
      with True Some r show ?thesis by (subst flush_wait.simps) (simp add: recorded_sel)
    qed
  qed (subst flush_wait.simps, simp add: recorded_sel)
qed

subsection \<open>Transfers\<close>

definition limits_ok :: "tx_limits \<Rightarrow> bool" where
  "limits_ok L \<longleftrightarrow> tl_max_packets L < 2 ^ 64 \<and> tl_max_transfer_size L + max (tl_alignment L) 1 < 2 ^ 32"

text \<open>The batch holds the messages of the frames \<open>fs\<close>.\<close>

definition holding :: "'w tx \<Rightarrow> bytes list \<Rightarrow> bool" where
  "holding t fs \<longleftrightarrow>
     tx_batch t = concat (map (packet_msg (tl_alignment (tx_lim t))) fs)
     \<and> tx_packets t = of_nat (length fs) \<and> length fs \<le> tl_max_packets (tx_lim t)
     \<and> (\<forall>f\<in>set fs. 44 + length f \<le> tl_max_transfer_size (tx_lim t))
     \<and> (fs \<noteq> [] \<longrightarrow> length (tx_batch t) < tl_max_transfer_size (tx_lim t) + max (tl_alignment (tx_lim t)) 1)"

text \<open>A frame that no transfer of this device can carry.\<close>

definition oversize :: "tx_limits \<Rightarrow> bytes \<Rightarrow> bool" where
  "oversize L f \<longleftrightarrow> tl_max_packets L = 0 \<or> tl_max_transfer_size L < 44 + length f"

text \<open>A transfer that carries the frames \<open>fs\<close> within the limits.\<close>

definition carries :: "tx_limits \<Rightarrow> usize \<Rightarrow> bytes list \<Rightarrow> bytes \<Rightarrow> bool" where
  "carries L mp fs b \<longleftrightarrow> packet_decode b = Some (map Inr fs)
     \<and> 1 \<le> length fs \<and> length fs \<le> tl_max_packets L
     \<and> list_all (\<lambda>f. \<not> oversize L f) fs
     \<and> length b \<le> tl_max_transfer_size L + max (tl_alignment L) 1
     \<and> (1 < mp \<longrightarrow> length b mod mp \<noteq> 0)"

text \<open>What changed from \<open>t\<close> to \<open>t'\<close> when the groups \<open>gs\<close> of frames went out in the transfers \<open>bs\<close>.\<close>

definition tx_went_out :: "('w \<times> bytes list) tx \<Rightarrow> ('w \<times> bytes list) tx \<Rightarrow> bytes list list \<Rightarrow> bytes list \<Rightarrow> bool" where
  "tx_went_out t t' gs bs \<longleftrightarrow>
     tx_lim t' = tx_lim t \<and> tx_max_packet t' = tx_max_packet t
     \<and> submitted t' = submitted t @ bs \<and> list_all2 (carries (tx_lim t) (tx_max_packet t)) gs bs
     \<and> tx_sent t' = tx_sent t + of_nat (length (concat gs))
     \<and> tx_transfers t' = tx_transfers t + of_nat (length bs)
     \<and> tx_bytes t' = tx_bytes t + of_nat (length (concat bs))"

lemma tx_went_out_refl: "tx_went_out t t [] []"
  by (simp add: tx_went_out_def)

lemma tx_went_out_trans:
  "tx_went_out t t1 gs bs \<Longrightarrow> tx_went_out t1 t2 gs' bs' \<Longrightarrow> tx_went_out t t2 (gs @ gs') (bs @ bs')"
  by (auto simp: tx_went_out_def list_all2_appendI)

lemma tx_push_sel [simp]: "tx_lim (tx_push t f) = tx_lim t" "tx_max_packet (tx_push t f) = tx_max_packet t"
  by (simp_all add: tx_push_def)

lemma tx_went_out_push [simp]: "tx_went_out (tx_push t f) t' gs bs = tx_went_out t t' gs bs"
  by (simp add: tx_went_out_def tx_push_def submitted_def)

lemma holding_push:
  assumes "holding t fs" and "tx_fits t f" and "limits_ok (tx_lim t)"
  shows "holding (tx_push t f) (fs @ [f])"
proof -
  have "length fs < 2 ^ 64"
    using assms(1,3) by (simp add: holding_def limits_ok_def)
  then have "unat (of_nat (length fs) :: u64) = length fs"
      "unat (of_nat (tl_max_packets (tx_lim t)) :: u64) = tl_max_packets (tx_lim t)"
    using assms(3) by (simp_all add: unat_of_nat limits_ok_def)
  then have n: "length fs < tl_max_packets (tx_lim t)"
    using assms(1,2) by (simp add: tx_fits_def holding_def word_less_nat_alt)
  have "length (tx_batch t) + packet_len (tl_alignment (tx_lim t)) f
      < tl_max_transfer_size (tx_lim t) + max (tl_alignment (tx_lim t)) 1"
    using assms(2) packet_len_less [of "tl_alignment (tx_lim t)" f] by (simp add: tx_fits_def DATA_HEADER_LEN_def)
  with n assms(1,2) show ?thesis
    by (auto simp: holding_def tx_push_def packet_append_eq tx_fits_def DATA_HEADER_LEN_def)
qed

lemma holding_nonempty:
  assumes "holding t fs" and "limits_ok (tx_lim t)"
  shows "tx_packets t = 0 \<longleftrightarrow> fs = []"
proof -
  have "length fs < 2 ^ 64"
    using assms by (simp add: holding_def limits_ok_def)
  then have "unat (tx_packets t) = length fs"
    using assms(1) by (simp add: holding_def unat_of_nat)
  then show ?thesis by (metis length_0_conv unat_0 unat_eq_zero)
qed

lemma mod_Suc_of_0: "1 < m \<Longrightarrow> n mod m = 0 \<Longrightarrow> Suc n mod m \<noteq> (0 :: nat)"
  by (simp add: mod_Suc)

lemma carries_batch:
  assumes "holding t fs" and "fs \<noteq> []" and "limits_ok (tx_lim t)"
  shows "carries (tx_lim t) (tx_max_packet t) fs
    (if length (tx_batch t) mod tx_max_packet t = 0 then tx_batch t @ [0] else tx_batch t)"
proof -
  let ?al = "tl_alignment (tx_lim t)"
  have "\<forall>f\<in>set fs. packet_len ?al f < 2 ^ 32"
  proof
    fix f
    assume "f \<in> set fs"
    with assms(1) have "44 + length f \<le> tl_max_transfer_size (tx_lim t)" by (simp add: holding_def)
    with assms(3) packet_len_less [of ?al f] show "packet_len ?al f < 2 ^ 32"
      unfolding limits_ok_def by linarith
  qed
  then have dec: "packet_decode (tx_batch t @ pad) = Some (map Inr fs)" if "length pad < 44" for pad
    using packet_decode_msgs [of fs ?al pad] that assms(1) by (simp add: holding_def)
  have len: "1 \<le> length fs" "length fs \<le> tl_max_packets (tx_lim t)"
    "length (tx_batch t) < tl_max_transfer_size (tx_lim t) + max ?al 1"
    using assms(1,2) unfolding holding_def by (cases fs; simp)+
  have "list_all (\<lambda>f. \<not> oversize (tx_lim t) f) fs"
    using assms(1) len(1,2) by (auto simp: holding_def oversize_def list_all_iff not_less)
  then show ?thesis
    using len dec [of "[0]"] dec [of "[]"] mod_Suc_of_0 [of "tx_max_packet t" "length (tx_batch t)"]
    by (auto simp: carries_def)
qed

lemma tx_flush_recorded:
  assumes "tx_running V mu" and "holding t fs" and "limits_ok (tx_lim t)" and "tx_max_packet t \<noteq> 0"
  shows "\<exists>t' gs bs. tx_flush (recorded V) t = Some t' \<and> holding t' [] \<and> tx_went_out t t' gs bs
    \<and> concat gs = fs"
proof (cases "fs = []")
  case True
  with assms have "tx_flush (recorded V) t = Some t"
    by (simp add: tx_flush_def holding_nonempty)
  with True assms(2) tx_went_out_refl show ?thesis by fastforce
next
  case False
  define b where "b = (if length (tx_batch t) mod tx_max_packet t = 0 then tx_batch t @ [0] else tx_batch t)"
  obtain w bs where w: "tx_world t = (w, bs)" by fastforce
  obtain w1 where w1: "flush_wait (recorded V) (w, bs) = Some (True, (w1, bs))"
    using flush_wait_recorded [OF assms(1)] by blast
  obtain w2 where w2: "reap (te_out (recorded V)) 0 (oe_submit (te_out V) b w1, bs @ [b]) = Some (w2, bs @ [b])"
    using reap_recorded [OF assms(1) [unfolded tx_running_def, THEN conjunct1]] by blast
  let ?t' = "t\<lparr>tx_batch := [], tx_packets := 0, tx_sent := tx_sent t + tx_packets t,
    tx_transfers := tx_transfers t + 1, tx_bytes := tx_bytes t + of_nat (length b), tx_world := (w2, bs @ [b])\<rparr>"
  have "tx_flush (recorded V) t = Some ?t'"
  proof -
    have "(if length (tx_batch t) mod tx_max_packet t = 0 then t\<lparr>tx_batch := tx_batch t @ [0]\<rparr> else t)
        = t\<lparr>tx_batch := b\<rparr>"
      by (simp add: b_def)
    moreover have "tx_packets t \<noteq> 0" using False holding_nonempty [OF assms(2,3)] by simp
    ultimately show ?thesis
      using assms(4) unfolding tx_flush_def Let_def by (simp add: w w1 w2 recorded_sel)
  qed
  moreover have "tx_went_out t ?t' [fs] [b]"
    using carries_batch [OF assms(2) False assms(3)] assms(2)
    by (simp add: tx_went_out_def submitted_def w b_def [symmetric] holding_def)
  moreover have "holding ?t' []" by (simp add: holding_def)
  ultimately show ?thesis by fastforce
qed

lemma not_fits_empty:
  assumes "holding t []" and "\<not> tx_fits t f" and "limits_ok (tx_lim t)"
  shows "oversize (tx_lim t) f"
proof (rule ccontr)
  assume "\<not> oversize (tx_lim t) f"
  then have "0 < tl_max_packets (tx_lim t)" "44 + length f \<le> tl_max_transfer_size (tx_lim t)"
    by (simp_all add: oversize_def)
  moreover have "unat (of_nat (tl_max_packets (tx_lim t)) :: u64) = tl_max_packets (tx_lim t)"
    using assms(3) by (simp add: limits_ok_def unat_of_nat)
  ultimately show False
    using assms(1,2) by (simp add: holding_def tx_fits_def DATA_HEADER_LEN_def word_less_nat_alt)
qed

lemma tx_fill_recorded:
  assumes "tx_running V mu" and "holding t fs" and "limits_ok (tx_lim t)" and "tx_max_packet t \<noteq> 0"
  shows "\<exists>t' rest gs bs fs' taken dropped. tx_fill (recorded V) t queue = Some (t', rest)
    \<and> holding t' fs' \<and> tx_went_out t t' gs bs \<and> concat gs @ fs' = fs @ taken
    \<and> queue = taken @ dropped @ rest
    \<and> (dropped = [] \<and> rest = [] \<or> (\<exists>f. dropped = [f] \<and> oversize (tx_lim t) f))"
  using assms(2-)
proof (induction queue arbitrary: t fs)
  case Nil
  then show ?case using tx_went_out_refl by fastforce
next
  case (Cons f queue)
  show ?case
  proof (cases "tx_fits t f")
    case True
    from Cons.IH [OF holding_push [OF Cons.prems(1) True Cons.prems(2)]] Cons.prems(2,3)
    obtain t' rest gs bs fs' taken dropped where
      "tx_fill (recorded V) (tx_push t f) queue = Some (t', rest)" "holding t' fs'" "tx_went_out t t' gs bs"
      "concat gs @ fs' = (fs @ [f]) @ taken" "queue = taken @ dropped @ rest"
      "dropped = [] \<and> rest = [] \<or> (\<exists>f. dropped = [f] \<and> oversize (tx_lim t) f)"
      unfolding tx_push_sel tx_went_out_push by blast
    with True show ?thesis
      by (intro exI [of _ t'] exI [of _ rest] exI [of _ gs] exI [of _ bs] exI [of _ fs'] exI [of _ "f # taken"]
          exI [of _ dropped]) simp
  next
    case False
    from tx_flush_recorded [OF assms(1) Cons.prems] obtain t1 gs1 bs1 where
      fl: "tx_flush (recorded V) t = Some t1" "holding t1 []" "tx_went_out t t1 gs1 bs1" "concat gs1 = fs"
      by blast
    then have L: "tx_lim t1 = tx_lim t" "tx_max_packet t1 = tx_max_packet t"
      by (simp_all add: tx_went_out_def)
    show ?thesis
    proof (cases "tx_fits t1 f")
      case fits: True
      have "holding (tx_push t1 f) [f]"
        using holding_push [OF fl(2) fits] Cons.prems(2) L by simp
      from Cons.IH [OF this] Cons.prems(2,3) L
      obtain t' rest gs bs fs' taken dropped where
        "tx_fill (recorded V) (tx_push t1 f) queue = Some (t', rest)" "holding t' fs'" "tx_went_out t1 t' gs bs"
        "concat gs @ fs' = [f] @ taken" "queue = taken @ dropped @ rest"
        "dropped = [] \<and> rest = [] \<or> (\<exists>f. dropped = [f] \<and> oversize (tx_lim t) f)"
        unfolding tx_push_sel tx_went_out_push L by blast
      with False fits fl tx_went_out_trans [OF fl(3)] show ?thesis
        by (intro exI [of _ t'] exI [of _ rest] exI [of _ "gs1 @ gs"] exI [of _ "bs1 @ bs"] exI [of _ fs']
            exI [of _ "f # taken"] exI [of _ dropped]) simp
    next
      case nofit: False
      have "oversize (tx_lim t) f"
        using not_fits_empty [OF fl(2) nofit] L Cons.prems(2) by simp
      with False nofit fl show ?thesis
        by (intro exI [of _ t1] exI [of _ queue] exI [of _ gs1] exI [of _ bs1] exI [of _ "[]"]
            exI [of _ "[]"] exI [of _ "[f]"]) simp
    qed
  qed
qed

lemma tx_burst_recorded:
  assumes "tx_running V mu" and "holding t []" and "limits_ok (tx_lim t)" and "tx_max_packet t \<noteq> 0"
  obtains t' rest gs bs taken dropped where "tx_burst (recorded V) t queue = Some (t', rest)"
    "holding t' []" "tx_went_out t t' gs bs" "concat gs = taken" "queue = taken @ dropped @ rest"
    "dropped = [] \<and> rest = [] \<or> (\<exists>f. dropped = [f] \<and> oversize (tx_lim t) f)"
proof -
  from tx_fill_recorded [OF assms, of queue] obtain t1 rest gs bs fs' taken dropped where
    f: "tx_fill (recorded V) t queue = Some (t1, rest)" "holding t1 fs'" "tx_went_out t t1 gs bs"
      "concat gs @ fs' = taken" "queue = taken @ dropped @ rest"
      "dropped = [] \<and> rest = [] \<or> (\<exists>f. dropped = [f] \<and> oversize (tx_lim t) f)"
    unfolding append_Nil by blast
  then have L: "tx_lim t1 = tx_lim t" "tx_max_packet t1 = tx_max_packet t"
    by (simp_all add: tx_went_out_def)
  from tx_flush_recorded [OF assms(1) f(2)] L assms(3,4) obtain t' gs' bs' where
    "tx_flush (recorded V) t1 = Some t'" "holding t' []" "tx_went_out t1 t' gs' bs'" "concat gs' = fs'"
    by auto
  with f tx_went_out_trans [OF f(3)] show thesis
    by (intro that [of t' rest "gs @ gs'" "bs @ bs'" taken dropped]) (auto simp: tx_burst_def)
qed

lemma carried_not_oversize:
  "list_all2 (carries L mp) gs bs \<Longrightarrow> filter (\<lambda>f. \<not> oversize L f) (concat gs) = concat gs"
  by (induction rule: list_all2_induct) (auto simp: carries_def filter_id_conv list_all_iff)

fun frames_of :: "tx_input list \<Rightarrow> bytes list" where
  "frames_of [] = []"
| "frames_of (TxFrames fs # ins) = fs @ frames_of ins"
| "frames_of (_ # ins) = frames_of ins"

lemma tx_loop_recorded:
  assumes "tx_running V mu" and "tx_max_packet t \<noteq> 0" and "limits_ok (tx_lim t)" and "holding t []"
    and "TxDisconnected \<notin> set inputs"
  shows "\<exists>t' gs bs. tx_loop (recorded V) t inputs = Some t' \<and> holding t' [] \<and> tx_went_out t t' gs bs
    \<and> concat gs = filter (\<lambda>f. \<not> oversize (tx_lim t) f) (frames_of inputs)"
  using assms(2-)
proof (induction "sum_list (map input_size inputs)" arbitrary: t inputs rule: less_induct)
  case less
  obtain w bs0 where w: "tx_world t = (w, bs0)" by fastforce
  have "fst (te_shutdown V w) = False"
    using assms(1) unfolding tx_running_def by blast
  then obtain w1 where w1: "te_shutdown V w = (False, w1)" by (cases "te_shutdown V w") auto
  define t1 where "t1 = t\<lparr>tx_world := (w1, bs0)\<rparr>"
  have t1: "holding t1 []" "tx_lim t1 = tx_lim t" "tx_max_packet t1 = tx_max_packet t"
    and eq: "tx_went_out t1 t' gs bs = tx_went_out t t' gs bs" for t' gs bs
    using less.prems by (simp_all add: t1_def holding_def tx_went_out_def submitted_def w)
  note unfold = tx_loop.simps [of "recorded V" t inputs, unfolded w recorded_sel w1, simplified, folded t1_def]
  show ?case
  proof (cases inputs)
    case Nil
    with t1 tx_went_out_refl [of t1] show ?thesis
      unfolding unfold eq by fastforce
  next
    case (Cons i ins)
    show ?thesis
    proof (cases i)
      case (TxFrames fs)
      from tx_burst_recorded [OF assms(1) t1(1), of fs] t1 less.prems(1,2)
      obtain t2 rest gs bs taken dropped where b: "tx_burst (recorded V) t1 fs = Some (t2, rest)"
        "holding t2 []" "tx_went_out t1 t2 gs bs" "concat gs = taken" "fs = taken @ dropped @ rest"
        "dropped = [] \<and> rest = [] \<or> (\<exists>f. dropped = [f] \<and> oversize (tx_lim t) f)"
        by (metis (no_types, lifting))
      define ins' where "ins' = (if rest = [] then ins else TxFrames rest # ins)"
      have L: "tx_lim t2 = tx_lim t" "tx_max_packet t2 = tx_max_packet t"
        using b(3) t1 by (simp_all add: tx_went_out_def)
      have "sum_list (map input_size ins') < sum_list (map input_size inputs)"
        using Cons TxFrames tx_burst_shrinks [OF b(1)] by (auto simp: ins'_def)
      then obtain t' gs' bs' where IH: "tx_loop (recorded V) t2 ins' = Some t'" "holding t' []"
        "tx_went_out t2 t' gs' bs'" "concat gs' = filter (\<lambda>f. \<not> oversize (tx_lim t) f) (frames_of ins')"
        using less.hyps [of ins' t2] less.prems b(2) L Cons TxFrames by (auto simp: ins'_def split: if_splits)
      have "frames_of ins' = rest @ frames_of ins" by (simp add: ins'_def)
      moreover have "filter (\<lambda>f. \<not> oversize (tx_lim t) f) taken = taken"
        using b(3,4) t1 carried_not_oversize by (auto simp: tx_went_out_def)
      ultimately have "concat (gs @ gs') = filter (\<lambda>f. \<not> oversize (tx_lim t) f) (frames_of inputs)"
        using b(4-6) IH(4) Cons TxFrames by auto
      moreover have "tx_loop (recorded V) t inputs = Some t'"
        unfolding unfold using Cons TxFrames b(1) IH(1) by (simp add: ins'_def)
      ultimately show ?thesis
        using IH(2) tx_went_out_trans [OF b(3) IH(3)] unfolding eq by blast
    next
      case TxTimeout
      obtain w2 where r: "reap (te_out (recorded V)) 0 (w1, bs0) = Some (w2, bs0)"
        using reap_recorded [OF assms(1) [unfolded tx_running_def, THEN conjunct1]] by blast
      define t2 where "t2 = t1\<lparr>tx_world := (w2, bs0)\<rparr>"
      have t2: "holding t2 []" "tx_lim t2 = tx_lim t" "tx_max_packet t2 = tx_max_packet t"
        and eq2: "tx_went_out t2 t' gs bs = tx_went_out t t' gs bs" for t' gs bs
        using less.prems by (simp_all add: t1_def t2_def holding_def tx_went_out_def submitted_def w)
      from less.hyps [of ins t2] less.prems t2 Cons TxTimeout
      obtain t' gs bs where "tx_loop (recorded V) t2 ins = Some t'" "holding t' []" "tx_went_out t2 t' gs bs"
        "concat gs = filter (\<lambda>f. \<not> oversize (tx_lim t) f) (frames_of ins)"
        by auto
      with Cons TxTimeout r show ?thesis
        unfolding unfold eq2 by (auto simp: t2_def [symmetric])
    qed (use less.prems Cons in simp)
  qed
qed

subsection \<open>The transmit thread\<close>

text \<open>
  C12: The transmit thread loses nothing and invents nothing. On a link in operation, whatever the
  channel hands out turn by turn, the thread comes through all its turns, and the transfers it
  handed to the endpoint, decoded the way the receiver decodes, are groups of frames whose
  concatenation is exactly the frames of the channel, in order, less those over the device limit
  (a frame that with its header exceeds the largest transfer). Each transfer carries at least one
  frame and at most as many as the device allows, is never a multiple of the endpoint's packet
  size (so no zero-length packet is needed), and is at most the device limit plus the alignment
  long; the counters are the numbers of frames, transfers and bytes, modulo their width.
\<close>

theorem tx_loop_delivers:
  assumes "tx_running V mu" and "limits_ok L" and "TxDisconnected \<notin> set inputs"
  shows "\<exists>t' gs. tx_loop (recorded V) (tx_start (recorded V) L (w, [])) inputs = Some t'
    \<and> concat gs = filter (\<lambda>f. \<not> oversize L f) (frames_of inputs)
    \<and> list_all2 (\<lambda>g b. packet_decode b = Some (map Inr g) \<and> 1 \<le> length g \<and> length g \<le> tl_max_packets L
        \<and> length b \<le> tl_max_transfer_size L + max (tl_alignment L) 1
        \<and> (1 < oe_max_packet_size (te_out V) w \<longrightarrow> length b mod oe_max_packet_size (te_out V) w \<noteq> 0))
      gs (submitted t')
    \<and> tx_sent t' = of_nat (length (concat gs)) \<and> tx_transfers t' = of_nat (length (submitted t'))
    \<and> tx_bytes t' = of_nat (length (concat (submitted t')))"
proof -
  let ?t = "tx_start (recorded V) L (w, [])"
  have t: "tx_max_packet ?t = max (oe_max_packet_size (te_out V) w) 1" "tx_lim ?t = L" "holding ?t []"
    by (simp_all add: tx_start_def recorded_def holding_def)
  obtain t' gs bs where r: "tx_loop (recorded V) ?t inputs = Some t'" "tx_went_out ?t t' gs bs"
    "concat gs = filter (\<lambda>f. \<not> oversize L f) (frames_of inputs)"
    using tx_loop_recorded [OF assms(1), of ?t inputs] assms(2,3) t by auto
  have z: "tx_sent ?t = 0" "tx_transfers ?t = 0" "tx_bytes ?t = 0" "submitted ?t = []"
    by (simp_all add: tx_start_def submitted_def)
  have "list_all2 (carries L (max (oe_max_packet_size (te_out V) w) 1)) gs (submitted t')"
    using r(2) t z by (simp add: tx_went_out_def)
  then have "list_all2 (\<lambda>g b. packet_decode b = Some (map Inr g) \<and> 1 \<le> length g \<and> length g \<le> tl_max_packets L
        \<and> length b \<le> tl_max_transfer_size L + max (tl_alignment L) 1
        \<and> (1 < oe_max_packet_size (te_out V) w \<longrightarrow> length b mod oe_max_packet_size (te_out V) w \<noteq> 0))
      gs (submitted t')"
    by (rule list_all2_mono) (auto simp: carries_def max_def)
  with r t z show ?thesis by (auto simp: tx_went_out_def)
qed

text \<open>An endpoint whose writes complete when they are waited for; its packet size is 512.\<close>

definition prompt_env :: "nat tx_env" where
  "prompt_env =
     \<lparr>te_out =
        \<lparr>oe_max_packet_size = \<lambda>_. 512, oe_pending = \<lambda>n. n, oe_submit = \<lambda>_ n. n + 1,
         oe_wait = \<lambda>_ n. (case n of 0 \<Rightarrow> (None, 0) | Suc k \<Rightarrow> (Some (Inr ()), k)),
         oe_cancel_all = \<lambda>n. n, oe_clear_halt = \<lambda>n. (Inr (), n)\<rparr>,
      te_shutdown = \<lambda>n. (False, n)\<rparr>"

lemma prompt_env_running: "tx_running prompt_env (\<lambda>_. 0)"
  by (auto simp: tx_running_def out_endpoint_ok_def prompt_env_def TX_DEPTH_def split: nat.splits)

theorem tx_loop_delivers_witness:
  "\<exists>t' gs. tx_loop (recorded prompt_env) (tx_start (recorded prompt_env)
      \<lparr>tl_max_transfer_size = 1024, tl_max_packets = 8, tl_alignment = 4\<rparr> (0, []))
      [TxFrames [[1, 2, 3], replicate 2000 0, [4]], TxTimeout, TxFrames [[5]]] = Some t'
    \<and> concat gs = [[1, 2, 3], [4], [5]] \<and> list_all2 (\<lambda>g b. packet_decode b = Some (map Inr g)) gs (submitted t')"
proof -
  let ?L = "\<lparr>tl_max_transfer_size = 1024, tl_max_packets = 8, tl_alignment = 4\<rparr>"
  let ?ins = "[TxFrames [[1, 2, 3], replicate 2000 0, [4]], TxTimeout, TxFrames [[5]]]"
  have ok: "limits_ok ?L" "TxDisconnected \<notin> set ?ins"
    by (simp_all add: limits_ok_def)
  have filt: "filter (\<lambda>f. \<not> oversize ?L f) (frames_of ?ins) = [[1, 2, 3], [4], [5]]"
    by (simp add: oversize_def)
  from tx_loop_delivers [OF prompt_env_running ok, of 0, unfolded filt] show ?thesis
    by (elim exE conjE, intro exI conjI) (assumption | erule list_all2_mono, simp)+
qed


end
