(* ===== verification/Ethernet.thy ===== *)
theory Ethernet
  imports Prelude
begin

text \<open>
  The Ethernet layer, \<^verbatim>\<open>src/src/netstack/ethernet.rs\<close>, and the error type of
  \<^verbatim>\<open>src/src/netstack/error.rs\<close> that the whole network stack shares. A MAC address is six
  bytes; \<open>ethernet_parse\<close> and \<open>ethernet_build\<close> are the source's \<open>parse\<close> and \<open>build\<close>.
  The lemmas: the parser never panics, the round trip up to the padding to sixty bytes, and,
  for every format that keeps the contract \<open>wire_codec\<close>, that it survives being carried
  in a padded frame.
\<close>

subsection \<open>Data\<close>

datatype net_error = NetTruncated | NetMalformed string

definition HEADER_LEN :: usize where [const_simps]: "HEADER_LEN = 14"

definition MIN_FRAME_LEN :: usize where [const_simps]: "MIN_FRAME_LEN = 60"

definition ETHERTYPE_IPV4 :: u16 where [const_simps]: "ETHERTYPE_IPV4 = 0x0800"

definition ETHERTYPE_ARP :: u16 where [const_simps]: "ETHERTYPE_ARP = 0x0806"

datatype mac_addr = MacAddr u8 u8 u8 u8 u8 u8

definition MAC_BROADCAST :: mac_addr where
  "MAC_BROADCAST = MacAddr 0xFF 0xFF 0xFF 0xFF 0xFF 0xFF"

definition MAC_ZERO :: mac_addr where
  "MAC_ZERO = MacAddr 0 0 0 0 0 0"

record frame =
  fr_dst :: mac_addr
  fr_src :: mac_addr
  fr_ethertype :: u16
  fr_payload :: bytes

subsection \<open>Operations\<close>

definition mac_from_slice :: "bytes \<Rightarrow> net_error + mac_addr" where
  "mac_from_slice b =
     (case ok_or (slice 0 6 b) NetTruncated of
        Inl e \<Rightarrow> Inl e
      | Inr m \<Rightarrow> Inr (MacAddr (m ! 0) (m ! 1) (m ! 2) (m ! 3) (m ! 4) (m ! 5)))"

fun is_multicast :: "mac_addr \<Rightarrow> bool" where
  "is_multicast (MacAddr a _ _ _ _ _) = (a AND 1 \<noteq> 0)"

fun mac_as_bytes :: "mac_addr \<Rightarrow> bytes" where
  "mac_as_bytes (MacAddr a b c d e f) = [a, b, c, d, e, f]"

text \<open>The address at an offset of a buffer, for the closed forms of the parsers.\<close>

definition mac_at :: "bytes \<Rightarrow> nat \<Rightarrow> mac_addr" where
  "mac_at b i = MacAddr (b ! i) (b ! (i + 1)) (b ! (i + 2)) (b ! (i + 3)) (b ! (i + 4)) (b ! (i + 5))"

definition ethernet_parse :: "bytes \<Rightarrow> (net_error + frame) option" where
  "ethernet_parse buf =
     (if length buf < HEADER_LEN then Some (Inl NetTruncated)
      else do {
        d \<leftarrow> slice 0 6 buf;
        tryq (Some (mac_from_slice d)) (\<lambda>dst. do {
          s \<leftarrow> slice 6 12 buf;
          tryq (Some (mac_from_slice s)) (\<lambda>src. do {
            b12 \<leftarrow> index buf 12;
            b13 \<leftarrow> index buf 13;
            payload \<leftarrow> slice HEADER_LEN (length buf) buf;
            Some (Inr \<lparr>fr_dst = dst, fr_src = src, fr_ethertype = from_be16 b12 b13,
                       fr_payload = payload\<rparr>)
          })
        })
      })"

definition ethernet_build :: "mac_addr \<Rightarrow> mac_addr \<Rightarrow> u16 \<Rightarrow> bytes \<Rightarrow> bytes" where
  "ethernet_build dst src ethertype payload =
     (let f = mac_as_bytes dst @ mac_as_bytes src @ to_be16 ethertype @ payload
      in resize f (max (length f) MIN_FRAME_LEN) 0)"

subsection \<open>MAC addresses\<close>

lemma length_mac_as_bytes [simp]: "length (mac_as_bytes m) = 6"
  by (cases m) simp

lemma mac_from_slice_eq:
  "mac_from_slice b = (if length b < 6 then Inl NetTruncated else Inr (mac_at b 0))"
  by (simp add: mac_from_slice_def slice_def mac_at_def numeral_2_eq_2)

lemma mac_at_as_bytes [simp]: "mac_at (mac_as_bytes m @ xs) 0 = m"
  by (cases m) (simp add: mac_at_def)

lemma mac_at_append [simp]: "length xs \<le> i \<Longrightarrow> mac_at (xs @ ys) i = mac_at ys (i - length xs)"
  by (simp add: mac_at_def nth_append Suc_diff_le)

lemma mac_at_Cons [simp]:
  "mac_at (x # xs) (Suc i) = mac_at xs i"
  "mac_at (x # xs) (numeral k) = mac_at xs (pred_numeral k)"
  by (simp_all add: mac_at_def numeral_eq_Suc)

lemma mac_at_take: "i + 5 < n \<Longrightarrow> mac_at (take n xs) i = mac_at xs i"
  by (simp add: mac_at_def)

lemma mac_at_drop: "a + i + 5 < length xs \<Longrightarrow> mac_at (drop a xs) i = mac_at xs (a + i)"
  by (simp add: mac_at_def add.assoc)

lemma mac_from_slice_take: "a + 6 \<le> length xs \<Longrightarrow> mac_from_slice (take 6 (drop a xs)) = Inr (mac_at xs a)"
  by (simp add: mac_from_slice_eq mac_at_def)

lemma mac_as_bytes_inject [simp]: "mac_as_bytes m = mac_as_bytes n \<longleftrightarrow> m = n"
  by (cases m; cases n) auto

lemma broadcast_is_multicast [simp]: "is_multicast MAC_BROADCAST"
  by (simp add: MAC_BROADCAST_def)

subsection \<open>Frames\<close>

lemma ethernet_parse_eq [parse_simps]:
  "ethernet_parse buf =
     Some (if length buf < 14 then Inl NetTruncated
           else Inr \<lparr>fr_dst = mac_at buf 0, fr_src = mac_at buf 6,
                     fr_ethertype = from_be16 (buf ! 12) (buf ! 13),
                     fr_payload = drop 14 buf\<rparr>)"
  using mac_from_slice_take [of 0 buf]
  by (simp add: ethernet_parse_def const_simps mac_from_slice_take)

lemma ethernet_parse_no_panic: "ethernet_parse buf \<noteq> None"
  by (simp add: parse_simps)

lemma length_ethernet_build:
  "length (ethernet_build dst src ty payload) = max (14 + length payload) 60"
  by (simp add: ethernet_build_def Let_def const_simps)

lemma ethernet_build_eq:
  "ethernet_build dst src ty payload =
     mac_as_bytes dst @ mac_as_bytes src @ to_be16 ty @ payload @ replicate (46 - length payload) 0"
  by (simp add: ethernet_build_def Let_def const_simps resize_ge max_def)

lemma ethernet_roundtrip:
  "ethernet_parse (ethernet_build dst src ty payload) =
     Some (Inr \<lparr>fr_dst = dst, fr_src = src, fr_ethertype = ty,
                fr_payload = payload @ replicate (46 - length payload) 0\<rparr>)"
  by (simp add: parse_simps ethernet_build_eq nth_append to_be16_def byte_simps)

context wire_codec
begin

lemma dec_through_ethernet:
  assumes "ok a"
  shows "\<exists>f. ethernet_parse (ethernet_build dst src ty (enc a)) = Some (Inr f)
    \<and> fr_dst f = dst \<and> fr_src f = src \<and> fr_ethertype f = ty
    \<and> dec (fr_payload f) = Some (Inr a)"
  using dec_enc [OF assms] by (simp add: ethernet_roundtrip)

end

end
