(* ===== verification/Arp.thy ===== *)
theory Arp
  imports Ethernet
begin

text \<open>
  The ARP responder and resolver, \<^verbatim>\<open>src/src/netstack/arp.rs\<close>. The two hash maps are
  maps from addresses; each operation that reads the clock takes the reading as its argument
  \<open>now\<close>. Shown here: the packet round trip (an interpretation of \<open>wire_codec\<close>), the
  cache contract \<open>neighbour_cache\<close> and its interpretation, what an inbound packet teaches
  and when it is answered, that no cache entry is ever learned from an unspecified or multicast
  sender, and the rate limit of outgoing requests over every sequence of operations.
\<close>

subsection \<open>Data\<close>

definition ARP_OP_REQUEST :: u16 where [const_simps]: "ARP_OP_REQUEST = 1"

definition ARP_OP_REPLY :: u16 where [const_simps]: "ARP_OP_REPLY = 2"

definition HTYPE_ETHERNET :: u16 where [const_simps]: "HTYPE_ETHERNET = 1"

definition PACKET_LEN :: usize where [const_simps]: "PACKET_LEN = 28"

definition ENTRY_TTL :: duration where "ENTRY_TTL = from_secs 300"

definition RETRY_INTERVAL :: duration where "RETRY_INTERVAL = from_secs 1"

record arp_packet =
  ap_op :: u16
  ap_sender_mac :: mac_addr
  ap_sender_ip :: ipv4_addr
  ap_target_mac :: mac_addr
  ap_target_ip :: ipv4_addr

record arp_entry =
  en_mac :: mac_addr
  en_learned :: instant

record arp =
  arp_host_mac :: mac_addr
  arp_host_ip :: ipv4_addr
  arp_cache :: "ipv4_addr \<rightharpoonup> arp_entry"
  arp_last_request :: "ipv4_addr \<rightharpoonup> instant"

subsection \<open>Packets\<close>

text \<open>\<open>fn ipv4(b: &[u8])\<close>: panics on a slice shorter than four bytes.\<close>

definition arp_ipv4 :: "bytes \<Rightarrow> ipv4_addr option" where
  "arp_ipv4 b = do {
     b0 \<leftarrow> index b 0;
     b1 \<leftarrow> index b 1;
     b2 \<leftarrow> index b 2;
     b3 \<leftarrow> index b 3;
     Some (Ipv4Addr b0 b1 b2 b3)
   }"

definition arp_parse :: "bytes \<Rightarrow> (net_error + arp_packet) option" where
  "arp_parse buf =
     (if length buf < PACKET_LEN then Some (Inl NetTruncated)
      else do {
        b0 \<leftarrow> index buf 0; b1 \<leftarrow> index buf 1;
        b2 \<leftarrow> index buf 2; b3 \<leftarrow> index buf 3;
        let htype = from_be16 b0 b1;
        let ptype = from_be16 b2 b3;
        if htype \<noteq> HTYPE_ETHERNET \<or> ptype \<noteq> ETHERTYPE_IPV4
        then Some (Inl (NetMalformed ''not Ethernet/IPv4 ARP''))
        else do {
          b4 \<leftarrow> index buf 4; b5 \<leftarrow> index buf 5;
          if b4 \<noteq> 6 \<or> b5 \<noteq> 4
          then Some (Inl (NetMalformed ''unexpected ARP address sizes''))
          else do {
            b6 \<leftarrow> index buf 6; b7 \<leftarrow> index buf 7;
            sm \<leftarrow> slice 8 14 buf;
            tryq (Some (mac_from_slice sm)) (\<lambda>sender_mac. do {
              si \<leftarrow> slice 14 18 buf;
              sender_ip \<leftarrow> arp_ipv4 si;
              tm \<leftarrow> slice 18 24 buf;
              tryq (Some (mac_from_slice tm)) (\<lambda>target_mac. do {
                ti \<leftarrow> slice 24 28 buf;
                target_ip \<leftarrow> arp_ipv4 ti;
                Some (Inr \<lparr>ap_op = from_be16 b6 b7,
                           ap_sender_mac = sender_mac, ap_sender_ip = sender_ip,
                           ap_target_mac = target_mac, ap_target_ip = target_ip\<rparr>)
              })
            })
          }
        }
      })"

definition arp_build :: "arp_packet \<Rightarrow> bytes" where
  "arp_build p =
     to_be16 HTYPE_ETHERNET @ to_be16 ETHERTYPE_IPV4 @ [6] @ [4] @ to_be16 (ap_op p)
     @ mac_as_bytes (ap_sender_mac p) @ octets (ap_sender_ip p)
     @ mac_as_bytes (ap_target_mac p) @ octets (ap_target_ip p)"

subsection \<open>The responder and resolver\<close>

definition arp_new :: "mac_addr \<Rightarrow> ipv4_addr \<Rightarrow> arp" where
  "arp_new mac ip = \<lparr>arp_host_mac = mac, arp_host_ip = ip,
                     arp_cache = Map.empty, arp_last_request = Map.empty\<rparr>"

definition arp_set_host_ip :: "ipv4_addr \<Rightarrow> arp \<Rightarrow> arp" where
  "arp_set_host_ip ip a = a\<lparr>arp_host_ip := ip\<rparr>"

definition arp_lookup :: "instant \<Rightarrow> arp \<Rightarrow> ipv4_addr \<Rightarrow> mac_addr option" where
  "arp_lookup now a ip =
     (case arp_cache a ip of
        None \<Rightarrow> None
      | Some e \<Rightarrow> if now - en_learned e < ENTRY_TTL then Some (en_mac e) else None)"

definition arp_insert :: "instant \<Rightarrow> ipv4_addr \<Rightarrow> mac_addr \<Rightarrow> arp \<Rightarrow> arp" where
  "arp_insert now ip mac a =
     a\<lparr>arp_cache := (arp_cache a)(ip \<mapsto> \<lparr>en_mac = mac, en_learned = now\<rparr>)\<rparr>"

definition arp_request :: "instant \<Rightarrow> ipv4_addr \<Rightarrow> arp \<Rightarrow> bytes option \<times> arp" where
  "arp_request now ip a =
     (if (case arp_last_request a ip of None \<Rightarrow> False | Some sent \<Rightarrow> now - sent < RETRY_INTERVAL)
      then (None, a)
      else
        (Some (ethernet_build MAC_BROADCAST (arp_host_mac a) ETHERTYPE_ARP
                 (arp_build \<lparr>ap_op = ARP_OP_REQUEST,
                             ap_sender_mac = arp_host_mac a, ap_sender_ip = arp_host_ip a,
                             ap_target_mac = MAC_ZERO, ap_target_ip = ip\<rparr>)),
         a\<lparr>arp_last_request := (arp_last_request a)(ip \<mapsto> now)\<rparr>))"

text \<open>The learning step of \<open>handle\<close>.\<close>

definition arp_learn :: "instant \<Rightarrow> arp_packet \<Rightarrow> arp \<Rightarrow> arp" where
  "arp_learn now p a =
     (if \<not> is_unspecified (ap_sender_ip p) \<and> \<not> is_multicast (ap_sender_mac p)
      then arp_insert now (ap_sender_ip p) (ap_sender_mac p) a
      else a)"

definition arp_handle ::
  "instant \<Rightarrow> bytes \<Rightarrow> arp \<Rightarrow> ((net_error + bytes option) \<times> arp) option" where
  "arp_handle now payload a = do {
     r \<leftarrow> arp_parse payload;
     (case r of
        Inl e \<Rightarrow> Some (Inl e, a)
      | Inr p \<Rightarrow>
          (let a' = arp_learn now p a
           in if ap_op p \<noteq> ARP_OP_REQUEST \<or> ap_target_ip p \<noteq> arp_host_ip a'
                 \<or> is_unspecified (arp_host_ip a')
              then Some (Inr None, a')
              else
                Some (Inr (Some (ethernet_build (ap_sender_mac p) (arp_host_mac a') ETHERTYPE_ARP
                        (arp_build \<lparr>ap_op = ARP_OP_REPLY,
                                    ap_sender_mac = arp_host_mac a', ap_sender_ip = arp_host_ip a',
                                    ap_target_mac = ap_sender_mac p,
                                    ap_target_ip = ap_sender_ip p\<rparr>))), a')))
   }"

subsection \<open>Packets: the parser never panics, the round trip\<close>

lemma arp_ipv4_eq: "4 \<le> length b \<Longrightarrow> arp_ipv4 b = Some (ip_at b 0)"
  by (simp add: arp_ipv4_def ip_at_def numeral_2_eq_2)

lemma arp_parse_eq [parse_simps]:
  "arp_parse buf = Some
     (if length buf < 28 then Inl NetTruncated
      else if from_be16 (buf ! 0) (buf ! 1) \<noteq> HTYPE_ETHERNET \<or> from_be16 (buf ! 2) (buf ! 3) \<noteq> ETHERTYPE_IPV4
      then Inl (NetMalformed ''not Ethernet/IPv4 ARP'')
      else if buf ! 4 \<noteq> 6 \<or> buf ! 5 \<noteq> 4 then Inl (NetMalformed ''unexpected ARP address sizes'')
      else Inr \<lparr>ap_op = from_be16 (buf ! 6) (buf ! 7),
                ap_sender_mac = mac_at buf 8, ap_sender_ip = ip_at buf 14,
                ap_target_mac = mac_at buf 18, ap_target_ip = ip_at buf 24\<rparr>)"
  by (simp add: arp_parse_def arp_ipv4_eq mac_from_slice_take ip_at_take ip_at_drop
      PACKET_LEN_def)

lemma length_arp_build [simp]: "length (arp_build p) = 28"
  by (simp add: arp_build_def)

lemma arp_roundtrip: "arp_parse (arp_build p @ pad) = Some (Inr p)"
  by (simp add: parse_simps arp_build_def nth_append to_be16_def byte_simps)

interpretation arp_wire: wire_codec arp_build arp_parse "\<lambda>_. True"
  by unfold_locales (rule arp_roundtrip)

subsection \<open>The cache contract\<close>

text \<open>
  What the resolver's clients (the link, which records the gateway when a lease is bound, and
  the tunnel reader, which looks it up for every packet) rely on: a lookup sees the latest
  insertion for its key for as long as the entry is fresh, and nothing else.
\<close>

locale neighbour_cache =
  fixes lookup :: "instant \<Rightarrow> 's \<Rightarrow> 'k \<Rightarrow> 'm option"
    and store :: "instant \<Rightarrow> 'k \<Rightarrow> 'm \<Rightarrow> 's \<Rightarrow> 's"
    and ttl :: duration
  assumes lookup_store: "lookup now (store t k m s) k' =
     (if k' = k then (if now - t < ttl then Some m else None) else lookup now s k')"
begin

lemma lookup_store_fresh: "now - t < ttl \<Longrightarrow> lookup now (store t k m s) k = Some m"
  by (simp add: lookup_store)

lemma lookup_store_expired: "t + ttl \<le> now \<Longrightarrow> lookup now (store t k m s) k = None"
  by (simp add: lookup_store)

lemma lookup_store_other: "k' \<noteq> k \<Longrightarrow> lookup now (store t k m s) k' = lookup now s k'"
  by (simp add: lookup_store)

lemma lookup_store_history:
  "lookup now (fold (\<lambda>(t, k, m). store t k m) es s) k =
     (case find (\<lambda>(t, k', m). k' = k) (rev es) of
        None \<Rightarrow> lookup now s k
      | Some (t, k', m) \<Rightarrow> if now - t < ttl then Some m else None)"
  by (induction es rule: rev_induct) (auto simp: lookup_store split: prod.splits)

end

interpretation arp_neighbours: neighbour_cache arp_lookup arp_insert ENTRY_TTL
  by unfold_locales (simp add: arp_lookup_def arp_insert_def)

subsection \<open>Answering\<close>

lemma arp_learn_host [simp]:
  "arp_host_mac (arp_learn now p a) = arp_host_mac a"
  "arp_host_ip (arp_learn now p a) = arp_host_ip a"
  "arp_last_request (arp_learn now p a) = arp_last_request a"
  by (simp_all add: arp_learn_def arp_insert_def)

definition arp_reply_to :: "arp \<Rightarrow> arp_packet \<Rightarrow> arp_packet" where
  "arp_reply_to a p = \<lparr>ap_op = ARP_OP_REPLY,
     ap_sender_mac = arp_host_mac a, ap_sender_ip = arp_host_ip a,
     ap_target_mac = ap_sender_mac p, ap_target_ip = ap_sender_ip p\<rparr>"

definition asks_for_us :: "arp \<Rightarrow> arp_packet \<Rightarrow> bool" where
  "asks_for_us a p \<longleftrightarrow> ap_op p = ARP_OP_REQUEST \<and> ap_target_ip p = arp_host_ip a
     \<and> arp_host_ip a \<noteq> IP_UNSPECIFIED"

lemma arp_handle_eq:
  "arp_handle now payload a = Some
     (case the (arp_parse payload) of
        Inl e \<Rightarrow> (Inl e, a)
      | Inr p \<Rightarrow>
          (Inr (if asks_for_us a p
                then Some (ethernet_build (ap_sender_mac p) (arp_host_mac a) ETHERTYPE_ARP
                             (arp_build (arp_reply_to a p)))
                else None), arp_learn now p a))"
  by (cases "the (arp_parse payload)")
    (auto simp: arp_handle_def arp_parse_eq arp_reply_to_def asks_for_us_def Let_def
      is_unspecified_def)

lemma arp_handle_no_panic: "arp_handle now payload a \<noteq> None"
  by (simp add: arp_handle_eq)

lemma arp_handle_host:
  "arp_handle now payload a = Some (r, a') \<Longrightarrow>
     arp_host_mac a' = arp_host_mac a \<and> arp_host_ip a' = arp_host_ip a
     \<and> arp_last_request a' = arp_last_request a"
  by (auto simp: arp_handle_eq split: sum.splits)

text \<open>
  C29: Inbound requests. A well-formed ARP packet is answered exactly when it is a request for
  our own, already assigned address. The answer is an Ethernet frame from our MAC to the asker's
  that carries the ARP reply with the sender and target swapped; any other packet is met with
  silence.
\<close>

theorem arp_reply_correct:
  assumes "arp_parse payload = Some (Inr p)"
  shows "if asks_for_us a p
    then \<exists>reply f. arp_handle now payload a = Some (Inr (Some reply), arp_learn now p a)
      \<and> ethernet_parse reply = Some (Inr f)
      \<and> fr_dst f = ap_sender_mac p \<and> fr_src f = arp_host_mac a
      \<and> fr_ethertype f = ETHERTYPE_ARP
      \<and> arp_parse (fr_payload f) = Some (Inr (arp_reply_to a p))
    else arp_handle now payload a = Some (Inr None, arp_learn now p a)"
  using assms arp_wire.dec_through_ethernet by (simp add: arp_handle_eq)

theorem arp_reply_correct_witness:
  "asks_for_us (arp_new (MacAddr 2 0 0 0 0 1) (Ipv4Addr 192 168 42 130))
     \<lparr>ap_op = 1, ap_sender_mac = MacAddr 62 2 36 143 176 204, ap_sender_ip = Ipv4Addr 192 168 42 129,
      ap_target_mac = MAC_ZERO, ap_target_ip = Ipv4Addr 192 168 42 130\<rparr>
   \<and> (\<exists>reply. fst (the (arp_handle 5 (arp_build
     \<lparr>ap_op = 1, ap_sender_mac = MacAddr 62 2 36 143 176 204, ap_sender_ip = Ipv4Addr 192 168 42 129,
      ap_target_mac = MAC_ZERO, ap_target_ip = Ipv4Addr 192 168 42 130\<rparr>)
        (arp_new (MacAddr 2 0 0 0 0 1) (Ipv4Addr 192 168 42 130)))) = Inr (Some reply))"
  (is "asks_for_us ?a ?p \<and> _")
proof -
  have ask: "asks_for_us ?a ?p"
    by (simp add: asks_for_us_def arp_new_def IP_UNSPECIFIED_def const_simps)
  with arp_reply_correct [where p = ?p and a = ?a and now = 5, OF arp_wire.dec_enc_exact] show ?thesis
    by auto
qed

subsection \<open>Every sequence of operations\<close>

text \<open>
  The calls the daemon makes on its one \<open>Arp\<close> value, from the RX thread and the tunnel
  reader in any order, each with its clock reading and the frame it emits, if any.
\<close>

datatype arp_call = ArpHandle bytes | ArpRequest ipv4_addr | ArpSetHostIp ipv4_addr
  | ArpInsert ipv4_addr mac_addr

inductive arp_step :: "arp \<Rightarrow> instant \<Rightarrow> arp_call \<Rightarrow> bytes option \<Rightarrow> arp \<Rightarrow> bool" where
  step_handle: "arp_handle now payload a = Some (r, a') \<Longrightarrow>
     arp_step a now (ArpHandle payload) (case r of Inl e \<Rightarrow> None | Inr out \<Rightarrow> out) a'"
| step_request: "arp_request now ip a = (out, a') \<Longrightarrow> arp_step a now (ArpRequest ip) out a'"
| step_set_host_ip: "arp_step a now (ArpSetHostIp ip) None (arp_set_host_ip ip a)"
| step_insert: "arp_step a now (ArpInsert ip mac) None (arp_insert now ip mac a)"

inductive_cases arp_step_requestE: "arp_step a now (ArpRequest ip) out a'"

inductive arp_run :: "arp \<Rightarrow> (instant \<times> arp_call \<times> bytes option) list \<Rightarrow> arp \<Rightarrow> bool" where
  run_nil: "arp_run a [] a"
| run_cons: "arp_step a now c out a' \<Longrightarrow> arp_run a' es a'' \<Longrightarrow> arp_run a ((now, c, out) # es) a''"

text \<open>The requests a run really sent, with their times.\<close>

fun arp_sent :: "(instant \<times> arp_call \<times> bytes option) list \<Rightarrow> (instant \<times> ipv4_addr) list" where
  "arp_sent [] = []"
| "arp_sent ((now, ArpRequest ip, Some _) # es) = (now, ip) # arp_sent es"
| "arp_sent (_ # es) = arp_sent es"

definition waited_since :: "(ipv4_addr \<rightharpoonup> instant) \<Rightarrow> instant \<times> ipv4_addr \<Rightarrow> bool" where
  "waited_since sent s = (case sent (snd s) of None \<Rightarrow> True | Some t \<Rightarrow> t + RETRY_INTERVAL \<le> fst s)"

lemma arp_step_progress: "\<exists>out a'. arp_step a now c out a'"
proof (cases c)
  case (ArpHandle payload)
  obtain r a' where "arp_handle now payload a = Some (r, a')"
    using arp_handle_no_panic [of now payload a] by auto
  with ArpHandle show ?thesis by (auto intro: arp_step.intros)
next
  case (ArpRequest ip)
  then show ?thesis
    using step_request [OF surjective_pairing] by blast
qed (auto intro: arp_step.intros)

lemma arp_step_other_last_request:
  "arp_step a now c out a' \<Longrightarrow> (\<forall>ip. c \<noteq> ArpRequest ip) \<or> out = None \<Longrightarrow>
     arp_last_request a' = arp_last_request a"
  by (induction rule: arp_step.induct)
    (auto simp: arp_request_def arp_set_host_ip_def arp_insert_def dest: arp_handle_host
      split: if_splits)

lemma arp_request_sent:
  "arp_request now ip a = (Some f, a') \<Longrightarrow>
     waited_since (arp_last_request a) (now, ip)
     \<and> arp_last_request a' = (arp_last_request a)(ip \<mapsto> now)"
  by (auto simp: arp_request_def waited_since_def RETRY_INTERVAL_def from_secs_def
      split: if_splits option.splits)

lemma arp_run_waited:
  "arp_run a es a' \<Longrightarrow> s \<in> set (arp_sent es) \<Longrightarrow> waited_since (arp_last_request a) s"
proof (induction arbitrary: s rule: arp_run.induct)
  case (run_nil a)
  then show ?case by simp
next
  case (run_cons a now c out a' es a'')
  show ?case
  proof (cases "\<exists>ip f. c = ArpRequest ip \<and> out = Some f")
    case True
    then obtain ip f where c: "c = ArpRequest ip" "out = Some f" by blast
    with run_cons.hyps(1) have req: "waited_since (arp_last_request a) (now, ip)"
        "arp_last_request a' = (arp_last_request a)(ip \<mapsto> now)"
      by (auto elim: arp_step_requestE dest: arp_request_sent)
    show ?thesis
    proof (cases "s = (now, ip)")
      case False
      with run_cons.prems c have "waited_since (arp_last_request a') s"
        by (auto intro: run_cons.IH)
      with req show ?thesis
        by (auto simp: waited_since_def split: option.splits if_splits)
    qed (use req in simp)
  next
    case False
    then have "arp_sent ((now, c, out) # es) = arp_sent es"
      by (cases c; cases out) auto
    moreover from False run_cons.hyps(1) have "arp_last_request a' = arp_last_request a"
      by (intro arp_step_other_last_request) auto
    ultimately show ?thesis
      using run_cons.IH run_cons.prems by metis
  qed
qed

text \<open>
  C28: The rate limit. Over every run of the resolver, whatever the other calls in between and
  whatever the clock does, two requests sent for the same address are at least
  \<open>RETRY_INTERVAL\<close> (one second) apart.
\<close>

theorem arp_requests_rate_limited:
  assumes "arp_run a es a'"
  shows "sorted_wrt (\<lambda>(t, ip) (t', ip'). ip = ip' \<longrightarrow> t + from_secs 1 \<le> t') (arp_sent es)"
  using assms
proof (induction rule: arp_run.induct)
  case (run_nil a)
  then show ?case by simp
next
  case (run_cons a now c out a' es a'')
  show ?case
  proof (cases "\<exists>ip f. c = ArpRequest ip \<and> out = Some f")
    case True
    then obtain ip f where c: "c = ArpRequest ip" "out = Some f" by blast
    with run_cons.hyps(1) have "arp_last_request a' = (arp_last_request a)(ip \<mapsto> now)"
      by (auto elim: arp_step_requestE dest: arp_request_sent)
    then have "now + from_secs 1 \<le> t" if "(t, ip) \<in> set (arp_sent es)" for t
      using arp_run_waited [OF run_cons.hyps(2) that] by (simp add: waited_since_def RETRY_INTERVAL_def)
    with c run_cons.IH show ?thesis by auto
  next
    case False
    then have "arp_sent ((now, c, out) # es) = arp_sent es"
      by (cases c; cases out) auto
    with run_cons.IH show ?thesis by simp
  qed
qed

theorem arp_requests_rate_limited_witness:
  "\<exists>out out' a'. arp_run (arp_new MAC_ZERO IP_UNSPECIFIED)
     [(0, ArpRequest IP_BROADCAST, out), (1000000000, ArpRequest IP_BROADCAST, out')] a'
   \<and> arp_sent [(0, ArpRequest IP_BROADCAST, out), (1000000000, ArpRequest IP_BROADCAST, out')]
     = [(0, IP_BROADCAST), (1000000000, IP_BROADCAST)]
   \<and> (0::nat) + from_secs 1 \<le> 1000000000"
proof -
  let ?a = "arp_new MAC_ZERO IP_UNSPECIFIED"
  obtain f a1 where 1: "arp_request 0 IP_BROADCAST ?a = (Some f, a1)"
    and a1: "arp_last_request a1 IP_BROADCAST = Some 0"
    by (auto simp: arp_request_def arp_new_def)
  obtain f' a2 where 2: "arp_request 1000000000 IP_BROADCAST a1 = (Some f', a2)"
    using a1 by (auto simp: arp_request_def RETRY_INTERVAL_def from_secs_def)
  let ?es = "[(0, ArpRequest IP_BROADCAST, Some f), (1000000000, ArpRequest IP_BROADCAST, Some f')]"
  have run: "arp_run ?a ?es a2"
    by (rule run_cons [OF step_request [OF 1]], rule run_cons [OF step_request [OF 2]], rule run_nil)
  show ?thesis
    using run arp_requests_rate_limited [OF run] by (intro exI conjI) (assumption, simp_all)
qed

text \<open>
  What the resolver learns. A well-formed packet is remembered under its sender's address
  exactly when that address is specified and the sender's MAC is not a group address; it is then
  what a lookup returns until the entry's five minutes are over. Nothing else of the cache
  changes, and a packet that does not parse changes nothing.
\<close>

lemma arp_handle_learns:
  "\<exists>r a'. arp_handle now payload a = Some (r, a')
    \<and> (\<forall>later ip. arp_lookup later a' ip =
        (case arp_parse payload of
           Some (Inr p) \<Rightarrow>
             if ip = ap_sender_ip p \<and> ap_sender_ip p \<noteq> IP_UNSPECIFIED \<and> \<not> is_multicast (ap_sender_mac p)
             then if later - now < from_secs 300 then Some (ap_sender_mac p) else None
             else arp_lookup later a ip
         | _ \<Rightarrow> arp_lookup later a ip))"
  by (auto simp: arp_handle_eq arp_parse_eq arp_learn_def arp_neighbours.lookup_store
      is_unspecified_def ENTRY_TTL_def)

text \<open>
  Outgoing requests. When a request is due it is a broadcast Ethernet frame from our MAC with
  an ARP request for the address, naming our own address as the sender.
\<close>

lemma arp_request_content:
  assumes "arp_request now ip a = (Some req, a')"
  shows "\<exists>f. ethernet_parse req = Some (Inr f) \<and> fr_dst f = MAC_BROADCAST
    \<and> fr_src f = arp_host_mac a \<and> fr_ethertype f = ETHERTYPE_ARP
    \<and> arp_parse (fr_payload f) = Some (Inr \<lparr>ap_op = ARP_OP_REQUEST,
         ap_sender_mac = arp_host_mac a, ap_sender_ip = arp_host_ip a,
         ap_target_mac = MAC_ZERO, ap_target_ip = ip\<rparr>)"
  using assms arp_wire.dec_through_ethernet by (auto simp: arp_request_def split: if_splits)

end
