(* ===== verification/Ipv4.thy ===== *)
theory Ipv4
  imports Ethernet
begin

text \<open>
  IPv4 and UDP, \<^verbatim>\<open>src/src/netstack/ipv4.rs\<close>: the one's-complement checksum over a list of
  parts, \<open>build_udp\<close> and \<open>parse_udp\<close>. The checksum loops are recursive functions with the
  32-bit accumulator of the source; \<open>be_sum\<close> and \<open>ocs\<close> are the reference they are
  compared with, on unbounded naturals. Shown here: the multi-part checksum is the checksum of the
  concatenation (and where it is not), the closed form of the checksum, that both checksums of
  a built packet verify, the round trip under trailing padding (an interpretation of
  \<open>wire_codec\<close>), and that the parser never panics and stays inside the buffer.
\<close>

subsection \<open>Data\<close>

definition PROTO_UDP :: u8 where [const_simps]: "PROTO_UDP = 17"

definition IPV4_HEADER_LEN :: usize where [const_simps]: "IPV4_HEADER_LEN = 20"

definition UDP_HEADER_LEN :: usize where [const_simps]: "UDP_HEADER_LEN = 8"

record udp_datagram =
  ud_src_ip :: ipv4_addr
  ud_dst_ip :: ipv4_addr
  ud_src_port :: u16
  ud_dst_port :: u16
  ud_payload :: bytes

subsection \<open>The checksum\<close>

text \<open>The inner loop over \<open>chunks_exact(2)\<close>, with the odd byte left over.\<close>

fun chunk_sum :: "u32 \<Rightarrow> bytes \<Rightarrow> u32 \<times> u8 option" where
  "chunk_sum acc (a # b # bs) = chunk_sum (acc + ucast (from_be16 a b)) bs"
| "chunk_sum acc [x] = (acc, Some x)"
| "chunk_sum acc [] = (acc, None)"

text \<open>One turn of the outer loop: the odd byte of the part before pairs with the first here.\<close>

definition checksum_part :: "bytes \<Rightarrow> u32 \<times> u8 option \<Rightarrow> u32 \<times> u8 option" where
  "checksum_part part st =
     (case st of
        (acc, None) \<Rightarrow> chunk_sum acc part
      | (acc, Some high) \<Rightarrow>
          chunk_sum (acc + ucast (from_be16 high (case part of [] \<Rightarrow> 0 | low # _ \<Rightarrow> low)))
            (drop 1 part))"

text \<open>The closing \<open>while sum >> 16 != 0\<close>.\<close>

lemma unat_drop_bit_16: "unat (drop_bit 16 (s :: u32)) = unat s div 65536"
proof -
  have "unat (drop_bit 16 s) = drop_bit 16 (unat s)" by (rule unat_drop_bit_eq)
  also have "\<dots> = unat s div 65536" by (simp only: drop_bit_eq_div) simp
  finally show ?thesis .
qed

lemma fold_carry_decreases:
  assumes "drop_bit 16 (s :: u32) \<noteq> 0"
  shows "unat ((s AND 0xFFFF) + drop_bit 16 s) < unat s"
    and "unat ((s AND 0xFFFF) + drop_bit 16 s) = unat s mod 65536 + unat s div 65536"
proof -
  have l: "unat (s AND 0xFFFF) = unat s mod 65536"
  proof -
    have "s AND 0xFFFF = take_bit 16 s"
      by (simp add: take_bit_eq_mask mask_eq_exp_minus_1)
    then have "unat (s AND 0xFFFF) = take_bit 16 (unat s)"
      by (simp only: unsigned_take_bit_eq)
    then show ?thesis by (simp add: take_bit_eq_mod)
  qed
  have h: "unat (drop_bit 16 s) = unat s div 65536"
    by (rule unat_drop_bit_16)
  have "unat s div 65536 \<noteq> 0"
    using assms h by (metis unat_eq_zero)
  moreover have "unat s < 4294967296" by (rule unat_bounds)
  ultimately show "unat ((s AND 0xFFFF) + drop_bit 16 s) = unat s mod 65536 + unat s div 65536"
    by (simp add: unat_word_ariths l h)
  with \<open>unat s div 65536 \<noteq> 0\<close> show "unat ((s AND 0xFFFF) + drop_bit 16 s) < unat s"
    using div_mult_mod_eq [of "unat s" 65536] by linarith
qed

function fold_carry :: "u32 \<Rightarrow> u32" where
  "fold_carry s = (if drop_bit 16 s \<noteq> 0 then fold_carry ((s AND 0xFFFF) + drop_bit 16 s) else s)"
  by pat_completeness auto
termination
  by (relation "measure unat") (simp_all add: fold_carry_decreases(1))

declare fold_carry.simps [simp del]

definition checksum_finish :: "u32 \<times> u8 option \<Rightarrow> u16" where
  "checksum_finish st =
     (let acc = (case st of (s, None) \<Rightarrow> s | (s, Some high) \<Rightarrow> s + ucast (from_be16 high 0))
      in NOT (ucast (fold_carry acc)))"

definition checksum :: "bytes list \<Rightarrow> u16" where
  "checksum parts = checksum_finish (fold checksum_part parts (0, None))"

subsection \<open>Building and parsing\<close>

definition build_udp :: "udp_datagram \<Rightarrow> u16 \<Rightarrow> bytes" where
  "build_udp d ip_id =
     (let udp_len = UDP_HEADER_LEN + length (ud_payload d);
          total_len = IPV4_HEADER_LEN + udp_len;
          p = [0x45] @ [0] @ to_be16 (of_nat total_len) @ to_be16 ip_id @ to_be16 0 @ [64]
              @ [PROTO_UDP] @ to_be16 0 @ octets (ud_src_ip d) @ octets (ud_dst_ip d);
          ip_checksum = checksum [take IPV4_HEADER_LEN p];
          p = overwrite 10 (to_be16 ip_checksum) p;
          p = p @ to_be16 (ud_src_port d) @ to_be16 (ud_dst_port d) @ to_be16 (of_nat udp_len)
              @ to_be16 0 @ ud_payload d;
          pseudo = octets (ud_src_ip d) @ octets (ud_dst_ip d)
              @ [0, PROTO_UDP, of_nat (udp_len div 256), of_nat udp_len];
          udp_checksum = checksum [pseudo, drop IPV4_HEADER_LEN p];
          udp_checksum = (if udp_checksum = 0 then 0xFFFF else udp_checksum)
      in overwrite (IPV4_HEADER_LEN + 6) (to_be16 udp_checksum) p)"

definition parse_udp :: "bytes \<Rightarrow> (net_error + udp_datagram) option" where
  "parse_udp buf =
     (if length buf < IPV4_HEADER_LEN then Some (Inl NetTruncated)
      else do {
        b0 \<leftarrow> index buf 0;
        if drop_bit 4 b0 \<noteq> 4 then Some (Inl (NetMalformed ''not IPv4''))
        else let header_len = unat (b0 AND 0x0F) * 4 in
        if header_len < IPV4_HEADER_LEN \<or> header_len > length buf
        then Some (Inl (NetMalformed ''bad IPv4 header length''))
        else do {
          b9 \<leftarrow> index buf 9;
          if b9 \<noteq> PROTO_UDP then Some (Inl (NetMalformed ''not UDP''))
          else do {
            b6 \<leftarrow> index buf 6;
            b7 \<leftarrow> index buf 7;
            if b6 AND 0x20 \<noteq> 0 \<or> from_be16 (b6 AND 0x1F) b7 \<noteq> 0
            then Some (Inl (NetMalformed ''fragmented''))
            else do {
              b2 \<leftarrow> index buf 2;
              b3 \<leftarrow> index buf 3;
              let total_len = unat (from_be16 b2 b3);
              if total_len < header_len \<or> total_len > length buf then Some (Inl NetTruncated)
              else do {
                udp \<leftarrow> slice header_len total_len buf;
                if length udp < UDP_HEADER_LEN then Some (Inl NetTruncated)
                else do {
                  u4 \<leftarrow> index udp 4;
                  u5 \<leftarrow> index udp 5;
                  let udp_len = unat (from_be16 u4 u5);
                  if udp_len < UDP_HEADER_LEN \<or> udp_len > length udp then Some (Inl NetTruncated)
                  else do {
                    s0 \<leftarrow> index buf 12; s1 \<leftarrow> index buf 13; s2 \<leftarrow> index buf 14; s3 \<leftarrow> index buf 15;
                    d0 \<leftarrow> index buf 16; d1 \<leftarrow> index buf 17; d2 \<leftarrow> index buf 18; d3 \<leftarrow> index buf 19;
                    u0 \<leftarrow> index udp 0; u1 \<leftarrow> index udp 1; u2 \<leftarrow> index udp 2; u3 \<leftarrow> index udp 3;
                    payload \<leftarrow> slice UDP_HEADER_LEN udp_len udp;
                    Some (Inr \<lparr>ud_src_ip = Ipv4Addr s0 s1 s2 s3, ud_dst_ip = Ipv4Addr d0 d1 d2 d3,
                               ud_src_port = from_be16 u0 u1, ud_dst_port = from_be16 u2 u3,
                               ud_payload = payload\<rparr>)
                  }
                }
              }
            }
          }
        }
      })"

subsection \<open>The reference: sums of 16-bit words on the naturals\<close>

fun be_sum :: "bytes \<Rightarrow> nat" where
  "be_sum (a # b # bs) = 256 * unat a + unat b + be_sum bs"
| "be_sum [x] = 256 * unat x"
| "be_sum [] = 0"

text \<open>The end-around-carry sum: the representative of the class modulo 65535 in 1 to 65535.\<close>

definition ocs :: "nat \<Rightarrow> nat" where
  "ocs n = (if n = 0 then 0 else (n - 1) mod 65535 + 1)"

lemma ocs_le: "ocs n \<le> 65535"
  by (simp add: ocs_def Suc_le_eq)

lemma ocs_small: "n \<le> 65535 \<Longrightarrow> ocs n = n"
  by (auto simp: ocs_def)

lemma ocs_carry: "ocs (n mod 65536 + n div 65536) = ocs n"
proof (cases "n = 0")
  case False
  define h l where "h = n div 65536" and "l = n mod 65536"
  then have n: "n = 65536 * h + l" by simp
  with False have pos: "0 < l + h" by auto
  have "n - 1 = l + h - 1 + h * 65535"
    using n pos by arith
  then have "(n - 1) mod 65535 = (l + h - 1) mod 65535"
    by (simp only: mod_mult_self1)
  then show ?thesis
    using False pos by (simp add: ocs_def h_def [symmetric] l_def [symmetric])
qed (simp add: ocs_def)

lemma ocs_eq_max: "0 < n \<Longrightarrow> 65535 dvd n \<Longrightarrow> ocs n = 65535"
proof (elim dvdE)
  fix k
  assume "0 < n" and n: "n = 65535 * k"
  then obtain j where "k = Suc j" by (cases k) auto
  with n have "n - 1 = 65534 + 65535 * j" by simp
  then have "(n - 1) mod 65535 = 65534" by simp
  with \<open>0 < n\<close> show ?thesis by (simp add: ocs_def)
qed

text \<open>Adding the complement of the sum, or 65535 for a complement of zero, verifies.\<close>

lemma ocs_complement: "ocs (n + (65535 - ocs n)) = 65535"
proof (cases "n = 0")
  case False
  then have "n = (n - 1) div 65535 * 65535 + ocs n"
    by (simp add: ocs_def)
  then have "n + (65535 - ocs n) = ((n - 1) div 65535 + 1) * 65535"
    using ocs_le [of n] by simp
  then have "65535 dvd n + (65535 - ocs n)" by simp
  with False show ?thesis by (intro ocs_eq_max) auto
qed (simp add: ocs_def)

lemma ocs_add_max: "0 < n \<Longrightarrow> ocs (n + 65535) = ocs n"
  by (cases n) (simp_all add: ocs_def)

lemma be_sum_append: "even (length xs) \<Longrightarrow> be_sum (xs @ ys) = be_sum xs + be_sum ys"
  by (induction xs rule: be_sum.induct) auto

lemma be_sum_bound: "be_sum xs \<le> 65535 * ((length xs + 1) div 2)"
proof (induction xs rule: be_sum.induct)
  case (1 a b bs)
  then show ?case using unat_u8_less [of a] unat_u8_less [of b] by simp
next
  case (2 x)
  then show ?case using unat_u8_less [of x] by simp
qed simp

lemma be_sum_to_be16: "be_sum (to_be16 w) = unat w"
  using unat_from_be16 [of "ucast (drop_bit 8 w)" "ucast w"] by (simp add: to_be16_def byte_simps)

subsection \<open>The 32-bit accumulator computes the reference\<close>

lemma chunk_sum_acc:
  "chunk_sum (s + t) xs = (s + fst (chunk_sum t xs), snd (chunk_sum t xs))"
  by (induction t xs rule: chunk_sum.induct) (simp_all add: add.assoc)

lemma chunk_sum_part:
  "ys \<noteq> [] \<or> snd (chunk_sum s xs) = None \<Longrightarrow> checksum_part ys (chunk_sum s xs) = chunk_sum s (xs @ ys)"
  by (induction s xs rule: chunk_sum.induct)
    (auto simp: checksum_part_def split: list.splits)

lemma checksum_finish_empty_part:
  "checksum_finish (checksum_part [] st) = checksum_finish st"
  by (simp add: checksum_finish_def checksum_part_def split: prod.splits option.splits)

lemma chunk_sum_be_sum:
  "(case chunk_sum s xs of (t, None) \<Rightarrow> t | (t, Some x) \<Rightarrow> t + ucast (from_be16 x 0)) = s + of_nat (be_sum xs)"
proof (induction s xs rule: chunk_sum.induct)
  case (1 s a b bs)
  have "(ucast (from_be16 a b) :: u32) = of_nat (unat (from_be16 a b))"
    by (rule of_nat_unat [symmetric])
  with "1" show ?case by (simp add: unat_from_be16 add.assoc)
next
  case (2 s x)
  have "(ucast (from_be16 x 0) :: u32) = of_nat (unat (from_be16 x 0))"
    by (rule of_nat_unat [symmetric])
  then show ?case by (simp add: unat_from_be16)
qed simp

lemma unat_fold_carry: "unat (fold_carry s) = ocs (unat s)"
proof (induction s rule: fold_carry.induct)
  case (1 s)
  show ?case
  proof (cases "drop_bit 16 s = 0")
    case True
    then have "unat s div 65536 = 0"
      using unat_drop_bit_16 [of s] by (metis unat_0)
    then have "unat s \<le> 65535" by simp
    with True show ?thesis by (simp add: fold_carry.simps [of s] ocs_small)
  next
    case False
    with "1" fold_carry_decreases(2) [OF False] show ?thesis
      by (simp add: fold_carry.simps [of s] ocs_carry)
  qed
qed

lemma checksum_single: "checksum [xs] = NOT (ucast (fold_carry (of_nat (be_sum xs))))"
  using chunk_sum_be_sum [of 0 xs] by (simp add: checksum_def checksum_finish_def checksum_part_def)

lemma unat_not_u16: "unat (NOT (w :: u16)) = 65535 - unat w"
proof -
  have "NOT w = 65535 - w" by (simp add: not_eq_complement)
  moreover have "w \<le> 65535"
    using unat_u16_less [of w] by (simp add: word_le_nat_alt)
  ultimately show ?thesis by (simp add: unat_sub)
qed

lemma unat_checksum_single:
  assumes "length xs \<le> 131072"
  shows "unat (checksum [xs]) = 65535 - ocs (be_sum xs)"
proof -
  have "(length xs + 1) div 2 \<le> 65536" using assms by simp
  then have "be_sum xs \<le> 65535 * 65536"
    using be_sum_bound [of xs] by (meson le_trans mult_le_mono2)
  then have "unat (of_nat (be_sum xs) :: u32) = be_sum xs"
    by (simp add: unat_of_nat)
  moreover have "unat (ucast (fold_carry s) :: u16) = unat (fold_carry s)" for s
    using ocs_le [of "unat s"] by (simp add: unsigned_ucast_eq take_bit_nat_eq_self unat_fold_carry)
  ultimately show ?thesis
    by (simp add: checksum_single unat_not_u16 unat_fold_carry)
qed

subsection \<open>Parts against the concatenation\<close>

lemma fold_checksum_part:
  "[] \<notin> set parts \<Longrightarrow> fold checksum_part parts (0, None) = chunk_sum 0 (concat parts)"
  by (induction parts rule: rev_induct) (auto simp: chunk_sum_part)

lemma checksum_parts_flat_lemma:
  assumes "[] \<notin> set (butlast parts)"
  shows "checksum parts = checksum [concat parts]"
proof (cases parts rule: rev_cases)
  case Nil
  then show ?thesis by (simp add: checksum_def checksum_part_def)
next
  case (snoc ps p)
  with assms have ps: "fold checksum_part ps (0, None) = chunk_sum 0 (concat ps)"
    by (simp add: fold_checksum_part)
  have whole: "checksum [concat parts] = checksum_finish (chunk_sum 0 (concat parts))"
    by (simp add: checksum_def checksum_part_def)
  show ?thesis
  proof (cases "p = []")
    case True
    with snoc ps whole show ?thesis by (simp add: checksum_def checksum_finish_empty_part)
  next
    case False
    with snoc ps whole show ?thesis by (simp add: checksum_def chunk_sum_part)
  qed
qed

text \<open>
  C26: The multi-part checksum is the checksum of the concatenated parts, odd part lengths
  included, as long as no part before the last is empty. \<open>build_udp\<close> calls it with a
  header, or with the pseudo header and a segment, none of which is empty.
\<close>

theorem checksum_parts_flat:
  assumes "[] \<notin> set (butlast parts)"
  shows "checksum parts = checksum [concat parts]"
  using assms by (rule checksum_parts_flat_lemma)

theorem checksum_parts_flat_witness:
  "[] \<notin> set (butlast [[1, 2, 3], [4, 5 :: u8]])
   \<and> checksum [[1, 2, 3], [4, 5]] = checksum [[1, 2, 3, 4, 5]]"
  using checksum_parts_flat [of "[[1, 2, 3], [4, 5]]"] by simp

text \<open>
  The exception, which the comment in the loop does not make: an empty part after an odd
  one closes the pending pair with a zero byte, so the parts 1, nothing, 2 do not have the
  checksum of the bytes 1, 2.
\<close>

lemma checksum_empty_part_differs: "checksum [[1], [], [2]] \<noteq> checksum [[1, 2]]"
  by (simp add: checksum_def checksum_part_def checksum_finish_def from_be16_def fold_carry.simps)

subsection \<open>What \<open>build_udp\<close> lays out\<close>

definition ip_header :: "udp_datagram \<Rightarrow> u16 \<Rightarrow> u16 \<Rightarrow> bytes" where
  "ip_header d ip_id c =
     ([0x45, 0] @ to_be16 (of_nat (28 + length (ud_payload d))) @ to_be16 ip_id @ [0, 0, 64, 17])
     @ to_be16 c @ octets (ud_src_ip d) @ octets (ud_dst_ip d)"

definition udp_header :: "udp_datagram \<Rightarrow> u16 \<Rightarrow> bytes" where
  "udp_header d c =
     (to_be16 (ud_src_port d) @ to_be16 (ud_dst_port d)
       @ to_be16 (of_nat (8 + length (ud_payload d)))) @ to_be16 c"

definition pseudo_header :: "udp_datagram \<Rightarrow> bytes" where
  "pseudo_header d = octets (ud_src_ip d) @ octets (ud_dst_ip d)
     @ [0, 17, of_nat ((8 + length (ud_payload d)) div 256), of_nat (8 + length (ud_payload d))]"

definition ip_checksum_of :: "udp_datagram \<Rightarrow> u16 \<Rightarrow> u16" where
  "ip_checksum_of d ip_id = checksum [ip_header d ip_id 0]"

definition udp_checksum_of :: "udp_datagram \<Rightarrow> u16" where
  "udp_checksum_of d =
     (let c = checksum [pseudo_header d, udp_header d 0 @ ud_payload d] in if c = 0 then 0xFFFF else c)"

lemma header_lengths [simp]:
  "length (ip_header d i c) = 20" "length (udp_header d c) = 8" "length (pseudo_header d) = 12"
  by (simp_all add: ip_header_def udp_header_def pseudo_header_def)

lemma build_udp_eq:
  "build_udp d ip_id =
     ip_header d ip_id (ip_checksum_of d ip_id) @ udp_header d (udp_checksum_of d) @ ud_payload d"
proof -
  have z: "to_be16 0 = [0, 0]" by (simp add: to_be16_def)
  have hdr: "[0x45] @ [0] @ to_be16 (of_nat (20 + (8 + length (ud_payload d)))) @ to_be16 ip_id @ to_be16 0
      @ [64] @ [17] @ to_be16 0 @ octets (ud_src_ip d) @ octets (ud_dst_ip d) = ip_header d ip_id 0"
    by (simp add: ip_header_def z)
  have ow1: "overwrite 10 (to_be16 c) (ip_header d ip_id 0) = ip_header d ip_id c" for c
    by (simp add: overwrite_def ip_header_def)
  have seg: "to_be16 (ud_src_port d) @ to_be16 (ud_dst_port d)
      @ to_be16 (of_nat (8 + length (ud_payload d))) @ to_be16 0 @ ud_payload d = udp_header d 0 @ ud_payload d"
    by (simp add: udp_header_def)
  have ow2: "overwrite 26 (to_be16 c) (ip_header d ip_id c' @ udp_header d 0 @ ud_payload d)
      = ip_header d ip_id c' @ udp_header d c @ ud_payload d" for c c'
    by (simp add: overwrite_def udp_header_def)
  show ?thesis
    unfolding build_udp_def Let_def const_simps hdr seg
    by (simp add: ow1 ow2 ip_checksum_of_def udp_checksum_of_def pseudo_header_def Let_def)
qed

lemma be_sum_ip_header: "be_sum (ip_header d i c) = be_sum (ip_header d i 0) + unat c"
  by (simp add: ip_header_def be_sum_append be_sum_to_be16 del: append_Cons append_assoc)

lemma be_sum_segment:
  "be_sum (pseudo_header d @ udp_header d c @ ud_payload d) =
     be_sum (pseudo_header d @ udp_header d 0 @ ud_payload d) + unat c"
  by (simp add: udp_header_def be_sum_append be_sum_to_be16 del: append_Cons append_assoc)

lemma checksum_zero_iff:
  "length xs \<le> 131072 \<Longrightarrow> checksum [xs] = 0 \<longleftrightarrow> ocs (be_sum xs) = 65535"
  using unat_checksum_single [of xs] ocs_le [of "be_sum xs"] by (auto simp: unat_eq_zero [symmetric])

text \<open>
  Every IPv4 header this program builds carries a correct header checksum: summing the
  twenty header bytes, checksum included, gives zero, which is the receiver's test.
\<close>

lemma built_ip_checksum_verifies: "checksum [take 20 (build_udp d ip_id)] = 0"
proof -
  have "be_sum (ip_header d ip_id (ip_checksum_of d ip_id)) =
      be_sum (ip_header d ip_id 0) + (65535 - ocs (be_sum (ip_header d ip_id 0)))"
    unfolding be_sum_ip_header [of d ip_id "ip_checksum_of d ip_id"]
    by (simp add: ip_checksum_of_def unat_checksum_single)
  then show ?thesis
    by (simp add: build_udp_eq checksum_zero_iff ocs_complement)
qed

text \<open>
  The UDP checksum verifies too, over the pseudo header and the segment, for every payload
  that fits an IPv4 packet. It is never sent as zero, which would mean that there is none.
\<close>

theorem built_udp_checksum_verifies:
  assumes "length (ud_payload d) \<le> 65507"
  shows "checksum [pseudo_header d, drop 20 (build_udp d ip_id)] = 0
    \<and> drop 26 (take 28 (build_udp d ip_id)) \<noteq> [0, 0]"
proof (rule conjI)
  let ?seg = "\<lambda>c. pseudo_header d @ udp_header d c @ ud_payload d"
  let ?n = "be_sum (?seg 0)"
  have flat: "checksum [pseudo_header d, udp_header d c @ ud_payload d] = checksum [?seg c]" for c
    using checksum_parts_flat_lemma [of "[pseudo_header d, udp_header d c @ ud_payload d]"]
    by (simp add: pseudo_header_def)
  have len: "length (?seg c) \<le> 131072" for c using assms by simp
  have "17 \<le> ?n"
    by (simp add: pseudo_header_def be_sum_append)
  then have n0: "0 < ?n" by simp
  have "udp_checksum_of d \<noteq> 0"
    by (simp add: udp_checksum_of_def Let_def)
  then show "drop 26 (take 28 (build_udp d ip_id)) \<noteq> [0, 0]"
    using from_be16_to_be16 [of "udp_checksum_of d"]
    by (auto simp: build_udp_eq udp_header_def to_be16_def)
  have "ocs (?n + unat (udp_checksum_of d)) = 65535"
  proof (cases "checksum [?seg 0] = 0")
    case True
    then have "unat (udp_checksum_of d) = 65535" and "ocs ?n = 65535"
      using len [of 0] by (simp_all add: udp_checksum_of_def flat checksum_zero_iff Let_def)
    with n0 show ?thesis by (simp add: ocs_add_max)
  next
    case False
    with len [of 0] have "unat (udp_checksum_of d) = 65535 - ocs ?n"
      by (simp add: udp_checksum_of_def flat unat_checksum_single Let_def)
    then show ?thesis by (simp only: ocs_complement)
  qed
  then show "checksum [pseudo_header d, drop 20 (build_udp d ip_id)] = 0"
    using len by (simp add: build_udp_eq flat checksum_zero_iff be_sum_segment [of _ "udp_checksum_of d"])
qed

theorem built_udp_checksum_verifies_witness:
  "length (ud_payload \<lparr>ud_src_ip = IP_UNSPECIFIED, ud_dst_ip = IP_BROADCAST, ud_src_port = 68,
     ud_dst_port = 67, ud_payload = [1, 2, 3, 4, 5]\<rparr>) \<le> 65507
   \<and> checksum [pseudo_header \<lparr>ud_src_ip = IP_UNSPECIFIED, ud_dst_ip = IP_BROADCAST, ud_src_port = 68,
         ud_dst_port = 67, ud_payload = [1, 2, 3, 4, 5]\<rparr>,
       drop 20 (build_udp \<lparr>ud_src_ip = IP_UNSPECIFIED, ud_dst_ip = IP_BROADCAST, ud_src_port = 68,
         ud_dst_port = 67, ud_payload = [1, 2, 3, 4, 5]\<rparr> 1)] = 0"
  using built_udp_checksum_verifies [of "\<lparr>ud_src_ip = IP_UNSPECIFIED, ud_dst_ip = IP_BROADCAST,
     ud_src_port = 68, ud_dst_port = 67, ud_payload = [1, 2, 3, 4, 5]\<rparr>" 1]
  by simp

subsection \<open>Parsing\<close>

lemma parse_udp_eq [parse_simps]:
  "parse_udp buf = Some
     (if length buf < 20 then Inl NetTruncated
      else if drop_bit 4 (buf ! 0) \<noteq> 4 then Inl (NetMalformed ''not IPv4'')
      else let hl = unat (buf ! 0 AND 0x0F) * 4; tl = unat (from_be16 (buf ! 2) (buf ! 3));
               ul = unat (from_be16 (buf ! (hl + 4)) (buf ! (hl + 5))) in
      if hl < 20 \<or> hl > length buf then Inl (NetMalformed ''bad IPv4 header length'')
      else if buf ! 9 \<noteq> 17 then Inl (NetMalformed ''not UDP'')
      else if buf ! 6 AND 0x20 \<noteq> 0 \<or> from_be16 (buf ! 6 AND 0x1F) (buf ! 7) \<noteq> 0
      then Inl (NetMalformed ''fragmented'')
      else if tl < hl \<or> tl > length buf \<or> tl - hl < 8 \<or> ul < 8 \<or> ul > tl - hl
      then Inl NetTruncated
      else Inr \<lparr>ud_src_ip = ip_at buf 12, ud_dst_ip = ip_at buf 16,
                ud_src_port = from_be16 (buf ! hl) (buf ! (hl + 1)),
                ud_dst_port = from_be16 (buf ! (hl + 2)) (buf ! (hl + 3)),
                ud_payload = take (ul - 8) (drop (hl + 8) buf)\<rparr>)"
  by (simp add: parse_udp_def const_simps Let_def ip_at_def if_distrib [of Some] min_diff_le
      take_drop_take add.commute [of 8] del: zero_less_diff cong: if_cong)

lemma parse_udp_no_panic: "parse_udp buf \<noteq> None"
  by (simp add: parse_simps)

lemma udp_roundtrip_any:
  assumes "length (ud_payload d) \<le> 65507"
  shows "parse_udp (build_udp d ip_id @ pad) = Some (Inr d)"
proof -
  define n where "n = length (ud_payload d)"
  define buf where "buf = build_udp d ip_id @ pad"
  have tl: "from_be16 (buf ! 2) (buf ! 3) = of_nat (28 + n)"
    and ul: "from_be16 (buf ! 24) (buf ! 25) = of_nat (8 + n)"
    by (simp_all add: buf_def n_def build_udp_eq ip_header_def udp_header_def nth_append to_be16_def
        byte_simps)
  have lens: "unat (from_be16 (buf ! 2) (buf ! 3)) = 28 + n"
    "unat (from_be16 (buf ! 24) (buf ! 25)) = 8 + n"
    unfolding tl ul using assms by (simp_all only: n_def unat_of_nat_u16)
  have fields: "buf ! 0 = 0x45" "buf ! 6 = 0" "buf ! 7 = 0" "buf ! 9 = 17"
    "ip_at buf 12 = ud_src_ip d" "ip_at buf 16 = ud_dst_ip d"
    "from_be16 (buf ! 20) (buf ! 21) = ud_src_port d"
    "from_be16 (buf ! 22) (buf ! 23) = ud_dst_port d"
    "take n (drop 28 buf) = ud_payload d"
    "length buf = 28 + n + length pad" "from_be16 0 0 = 0"
    by (simp_all add: buf_def n_def build_udp_eq ip_header_def udp_header_def nth_append to_be16_def
        byte_simps from_be16_0)
  show ?thesis
    unfolding buf_def [symmetric] by (simp add: parse_udp_eq fields lens)
qed

text \<open>
  C25: A UDP datagram survives the trip: what \<open>build_udp\<close> laid out, with any identification
  and any bytes appended (Ethernet padding), is parsed back to the same addresses, ports and
  payload, as long as the payload fits an IPv4 packet.
\<close>

theorem udp_roundtrip:
  assumes "length (ud_payload d) \<le> 65507"
  shows "parse_udp (build_udp d ip_id @ pad) = Some (Inr d)"
  using assms by (rule udp_roundtrip_any)

theorem udp_roundtrip_witness:
  "length (ud_payload \<lparr>ud_src_ip = IP_UNSPECIFIED, ud_dst_ip = IP_BROADCAST, ud_src_port = 68,
     ud_dst_port = 67, ud_payload = replicate 300 7\<rparr>) \<le> 65507
   \<and> parse_udp (build_udp \<lparr>ud_src_ip = IP_UNSPECIFIED, ud_dst_ip = IP_BROADCAST, ud_src_port = 68,
       ud_dst_port = 67, ud_payload = replicate 300 7\<rparr> 0x1234 @ [0, 0])
     = Some (Inr \<lparr>ud_src_ip = IP_UNSPECIFIED, ud_dst_ip = IP_BROADCAST, ud_src_port = 68,
       ud_dst_port = 67, ud_payload = replicate 300 7\<rparr>)"
  using udp_roundtrip [of "\<lparr>ud_src_ip = IP_UNSPECIFIED, ud_dst_ip = IP_BROADCAST, ud_src_port = 68,
     ud_dst_port = 67, ud_payload = replicate 300 7\<rparr>" "0x1234" "[0, 0]"]
  by (simp only: udp_datagram.select_convs length_replicate) simp

text \<open>
  Parsing stays inside the packet. Whatever the bytes, \<open>parse_udp\<close> returns and does not
  panic; when it succeeds, the payload is a contiguous part of the buffer that begins past the
  IPv4 header (at least twenty bytes, options included) and the eight bytes of the UDP header and
  ends within the total length that the IPv4 header declares.
\<close>

lemma parse_udp_in_bounds:
  "case parse_udp buf of None \<Rightarrow> False | Some (Inl e) \<Rightarrow> True
   | Some (Inr d) \<Rightarrow> \<exists>start stop. 28 \<le> start \<and> start \<le> stop \<and> stop \<le> unat (from_be16 (buf ! 2) (buf ! 3))
        \<and> stop \<le> length buf \<and> slice start stop buf = Some (ud_payload d)"
proof -
  obtain r where r: "parse_udp buf = Some r"
    using parse_udp_no_panic [of buf] by auto
  moreover have "\<exists>start stop. 28 \<le> start \<and> start \<le> stop \<and> stop \<le> unat (from_be16 (buf ! 2) (buf ! 3))
        \<and> stop \<le> length buf \<and> slice start stop buf = Some (ud_payload d)" if "r = Inr d" for d
  proof -
    define hl ul where "hl = unat (buf ! 0 AND 0x0F) * 4"
      and "ul = unat (from_be16 (buf ! (hl + 4)) (buf ! (hl + 5)))"
    have ok: "20 \<le> hl" "8 \<le> ul" "hl + ul \<le> unat (from_be16 (buf ! 2) (buf ! 3))"
      "unat (from_be16 (buf ! 2) (buf ! 3)) \<le> length buf"
      and pay: "ud_payload d = take (ul - 8) (drop (hl + 8) buf)"
      using r that unfolding parse_udp_eq Let_def hl_def [symmetric] ul_def [symmetric]
      by (auto split: if_splits)
    from ok show ?thesis
      by (intro exI [of _ "hl + 8"] exI [of _ "hl + ul"]) (simp add: pay)
  qed
  ultimately show ?thesis by (cases r) simp_all
qed

interpretation udp_wire: wire_codec "\<lambda>d. build_udp d 0" parse_udp
  "\<lambda>d. length (ud_payload d) \<le> 65507"
  by unfold_locales (rule udp_roundtrip_any)

end
