(* ===== verification/Dhcp.thy ===== *)
theory Dhcp
  imports Ethernet
begin

text \<open>
  The DHCP client, \<^verbatim>\<open>src/src/netstack/dhcp.rs\<close>: the message builder, the parser with its
  option loop, the lease and the client state machine. The clock is not involved here; the
  retransmission timer is in the theory \<open>Link\<close>. Text is kept as its UTF-8 bytes, and
  \<open>String::from_utf8\<close> is the check \<open>utf8_valid\<close>. Shown here: the option loop ends,
  never panics and undoes any list of encoded options, a whole reply is read back, the built
  messages carry the options the server needs, what each message does to the client in each state,
  the invariant of every reachable client, the four-way exchange, and that every DISCOVER opens a
  new transaction.
\<close>

subsection \<open>Constants\<close>

definition CLIENT_PORT :: u16 where [const_simps]: "CLIENT_PORT = 68"
definition SERVER_PORT :: u16 where [const_simps]: "SERVER_PORT = 67"
definition DHCP_OP_REQUEST :: u8 where [const_simps]: "DHCP_OP_REQUEST = 1"
definition DHCP_OP_REPLY :: u8 where [const_simps]: "DHCP_OP_REPLY = 2"
definition DHCP_HTYPE_ETHERNET :: u8 where [const_simps]: "DHCP_HTYPE_ETHERNET = 1"
definition FLAG_BROADCAST :: u16 where [const_simps]: "FLAG_BROADCAST = 0x8000"
definition MAGIC_COOKIE :: bytes where [const_simps]: "MAGIC_COOKIE = [0x63, 0x82, 0x53, 0x63]"
definition BOOTP_LEN :: usize where [const_simps]: "BOOTP_LEN = 236"

definition OPT_PAD :: u8 where [const_simps]: "OPT_PAD = 0"
definition OPT_SUBNET_MASK :: u8 where [const_simps]: "OPT_SUBNET_MASK = 1"
definition OPT_ROUTER :: u8 where [const_simps]: "OPT_ROUTER = 3"
definition OPT_DNS :: u8 where [const_simps]: "OPT_DNS = 6"
definition OPT_DOMAIN_NAME :: u8 where [const_simps]: "OPT_DOMAIN_NAME = 15"
definition OPT_INTERFACE_MTU :: u8 where [const_simps]: "OPT_INTERFACE_MTU = 26"
definition OPT_REQUESTED_IP :: u8 where [const_simps]: "OPT_REQUESTED_IP = 50"
definition OPT_LEASE_TIME :: u8 where [const_simps]: "OPT_LEASE_TIME = 51"
definition OPT_MESSAGE_TYPE :: u8 where [const_simps]: "OPT_MESSAGE_TYPE = 53"
definition OPT_SERVER_ID :: u8 where [const_simps]: "OPT_SERVER_ID = 54"
definition OPT_PARAM_REQUEST :: u8 where [const_simps]: "OPT_PARAM_REQUEST = 55"
definition OPT_RENEWAL_TIME :: u8 where [const_simps]: "OPT_RENEWAL_TIME = 58"
definition OPT_CLIENT_ID :: u8 where [const_simps]: "OPT_CLIENT_ID = 61"
definition OPT_END :: u8 where [const_simps]: "OPT_END = 255"

definition DISCOVER :: u8 where [const_simps]: "DISCOVER = 1"
definition OFFER :: u8 where [const_simps]: "OFFER = 2"
definition REQUEST :: u8 where [const_simps]: "REQUEST = 3"
definition ACK :: u8 where [const_simps]: "ACK = 5"
definition NAK :: u8 where [const_simps]: "NAK = 6"

subsection \<open>Data\<close>

record lease =
  le_ip :: ipv4_addr
  le_netmask :: ipv4_addr
  le_router :: "ipv4_addr option"
  le_dns :: "ipv4_addr list"
  le_domain :: "bytes option"
  le_mtu :: "u16 option"
  le_server_id :: ipv4_addr
  le_lease_time :: duration
  le_renewal_time :: duration

datatype dhcp_state = Init | Selecting | Requesting | Bound | Renewing

datatype dhcp_event = EvIgnored | EvSend bytes | EvBound lease | EvNak

record dhcp_client =
  dc_mac :: mac_addr
  dc_xid :: u32
  dc_state :: dhcp_state
  dc_offered :: "ipv4_addr option"
  dc_server_id :: "ipv4_addr option"
  dc_lease :: "lease option"

record parsed =
  pd_xid :: u32
  pd_yiaddr :: ipv4_addr
  pd_siaddr :: ipv4_addr
  pd_chaddr :: mac_addr
  pd_message_type :: u8
  pd_netmask :: "ipv4_addr option"
  pd_router :: "ipv4_addr option"
  pd_dns :: "ipv4_addr list"
  pd_domain :: "bytes option"
  pd_mtu :: "u16 option"
  pd_server_id :: "ipv4_addr option"
  pd_lease_time :: "duration option"
  pd_renewal_time :: "duration option"

definition parsed_default :: parsed where
  "parsed_default = \<lparr>pd_xid = 0, pd_yiaddr = IP_UNSPECIFIED, pd_siaddr = IP_UNSPECIFIED,
     pd_chaddr = MAC_ZERO, pd_message_type = 0, pd_netmask = None, pd_router = None, pd_dns = [],
     pd_domain = None, pd_mtu = None, pd_server_id = None, pd_lease_time = None,
     pd_renewal_time = None\<rparr>"

text \<open>\<open>u32::count_ones\<close> of the netmask.\<close>

definition lease_prefix_len :: "lease \<Rightarrow> u8" where
  "lease_prefix_len l = of_nat (length (filter (bit (u32_of_ip (le_netmask l))) [0..<32]))"

subsection \<open>Building messages\<close>

definition push_option :: "bytes \<Rightarrow> u8 \<Rightarrow> bytes \<Rightarrow> bytes" where
  "push_option m code data = m @ [code] @ [of_nat (length data)] @ data"

definition dhcp_build ::
  "dhcp_client \<Rightarrow> u8 \<Rightarrow> ipv4_addr \<Rightarrow> ipv4_addr option \<Rightarrow> ipv4_addr option \<Rightarrow> bytes" where
  "dhcp_build c message_type ciaddr requested_ip server_id =
     (let m = [DHCP_OP_REQUEST] @ [DHCP_HTYPE_ETHERNET] @ [6] @ [0] @ to_be32 (dc_xid c) @ to_be16 0;
          flags = (if is_unspecified ciaddr then FLAG_BROADCAST else 0);
          m = m @ to_be16 flags @ octets ciaddr @ [0, 0, 0, 0] @ [0, 0, 0, 0] @ [0, 0, 0, 0]
              @ mac_as_bytes (dc_mac c);
          m = resize m BOOTP_LEN 0;
          m = m @ MAGIC_COOKIE;
          m = push_option m OPT_MESSAGE_TYPE [message_type];
          client_id = [DHCP_HTYPE_ETHERNET] @ mac_as_bytes (dc_mac c);
          m = push_option m OPT_CLIENT_ID client_id;
          m = (case requested_ip of None \<Rightarrow> m | Some ip \<Rightarrow> push_option m OPT_REQUESTED_IP (octets ip));
          m = (case server_id of None \<Rightarrow> m | Some ip \<Rightarrow> push_option m OPT_SERVER_ID (octets ip));
          m = (if message_type = DISCOVER \<or> message_type = REQUEST
               then push_option m OPT_PARAM_REQUEST
                      [OPT_SUBNET_MASK, OPT_ROUTER, OPT_DNS, OPT_DOMAIN_NAME, OPT_INTERFACE_MTU,
                       OPT_LEASE_TIME, OPT_RENEWAL_TIME]
               else m);
          m = m @ [OPT_END]
      in resize m (max (length m) 300) 0)"

subsection \<open>Parsing messages\<close>

text \<open>\<open>fn ipv4(b: &[u8])\<close> and \<open>fn seconds(b: &[u8])\<close>: panic on fewer than four bytes.\<close>

definition dhcp_ipv4 :: "bytes \<Rightarrow> ipv4_addr option" where
  "dhcp_ipv4 b = do {
     b0 \<leftarrow> index b 0; b1 \<leftarrow> index b 1; b2 \<leftarrow> index b 2; b3 \<leftarrow> index b 3;
     Some (Ipv4Addr b0 b1 b2 b3)
   }"

definition seconds :: "bytes \<Rightarrow> duration option" where
  "seconds b = do {
     b0 \<leftarrow> index b 0; b1 \<leftarrow> index b 1; b2 \<leftarrow> index b 2; b3 \<leftarrow> index b 3;
     Some (from_secs (unat (from_be32 b0 b1 b2 b3)))
   }"

text \<open>
  The acceptance rule of \<open>String::from_utf8\<close>: well-formed UTF-8, no overlong forms, no
  surrogates, nothing above U+10FFFF.
\<close>

definition utf8_cont :: "u8 \<Rightarrow> bool" where
  "utf8_cont b \<longleftrightarrow> 0x80 \<le> b \<and> b \<le> 0xBF"

fun utf8_valid :: "bytes \<Rightarrow> bool" where
  "utf8_valid [] = True"
| "utf8_valid (a # xs) =
     (if a \<le> 0x7F then utf8_valid xs
      else if 0xC2 \<le> a \<and> a \<le> 0xDF then
        (case xs of b # ys \<Rightarrow> utf8_cont b \<and> utf8_valid ys | _ \<Rightarrow> False)
      else if 0xE0 \<le> a \<and> a \<le> 0xEF then
        (case xs of b # c # ys \<Rightarrow>
           utf8_cont b \<and> utf8_cont c \<and> (a = 0xE0 \<longrightarrow> 0xA0 \<le> b) \<and> (a = 0xED \<longrightarrow> b \<le> 0x9F)
           \<and> utf8_valid ys
         | _ \<Rightarrow> False)
      else if 0xF0 \<le> a \<and> a \<le> 0xF4 then
        (case xs of b # c # d # ys \<Rightarrow>
           utf8_cont b \<and> utf8_cont c \<and> utf8_cont d \<and> (a = 0xF0 \<longrightarrow> 0x90 \<le> b)
           \<and> (a = 0xF4 \<longrightarrow> b \<le> 0x8F) \<and> utf8_valid ys
         | _ \<Rightarrow> False)
      else False)"

definition trim_end_nul :: "bytes \<Rightarrow> bytes" where
  "trim_end_nul s = rev (dropWhile (\<lambda>b. b = 0) (rev s))"

definition parse_domain :: "bytes \<Rightarrow> bytes option" where
  "parse_domain data =
     (if utf8_valid data
      then (let s = trim_end_nul data in if s = [] then None else Some s)
      else None)"

text \<open>The second \<open>match code\<close> of the loop, on an option's data.\<close>

definition apply_option :: "u8 \<Rightarrow> usize \<Rightarrow> bytes \<Rightarrow> parsed \<Rightarrow> parsed option" where
  "apply_option code len data p =
     (if code = OPT_MESSAGE_TYPE \<and> len \<ge> 1 then do {
        t \<leftarrow> index data 0; Some (p\<lparr>pd_message_type := t\<rparr>) }
      else if code = OPT_SUBNET_MASK \<and> len \<ge> 4 then do {
        ip \<leftarrow> dhcp_ipv4 data; Some (p\<lparr>pd_netmask := Some ip\<rparr>) }
      else if code = OPT_ROUTER \<and> len \<ge> 4 then do {
        ip \<leftarrow> dhcp_ipv4 data; Some (p\<lparr>pd_router := Some ip\<rparr>) }
      else if code = OPT_SERVER_ID \<and> len \<ge> 4 then do {
        ip \<leftarrow> dhcp_ipv4 data; Some (p\<lparr>pd_server_id := Some ip\<rparr>) }
      else if code = OPT_DNS then
        Some (p\<lparr>pd_dns := map (\<lambda>(a, b, c, d). Ipv4Addr a b c d) (chunks_exact4 data)\<rparr>)
      else if code = OPT_DOMAIN_NAME then Some (p\<lparr>pd_domain := parse_domain data\<rparr>)
      else if code = OPT_INTERFACE_MTU \<and> len \<ge> 2 then do {
        b0 \<leftarrow> index data 0; b1 \<leftarrow> index data 1; Some (p\<lparr>pd_mtu := Some (from_be16 b0 b1)\<rparr>) }
      else if code = OPT_LEASE_TIME \<and> len \<ge> 4 then do {
        t \<leftarrow> seconds data; Some (p\<lparr>pd_lease_time := Some t\<rparr>) }
      else if code = OPT_RENEWAL_TIME \<and> len \<ge> 4 then do {
        t \<leftarrow> seconds data; Some (p\<lparr>pd_renewal_time := Some t\<rparr>) }
      else Some p)"

text \<open>The loop \<open>while let Some((&code, tail)) = rest.split_first()\<close>.\<close>

function parse_options :: "bytes \<Rightarrow> parsed \<Rightarrow> (net_error + parsed) option" where
  "parse_options [] p = Some (Inr p)"
| "parse_options (code # tail) p =
     (if code = OPT_PAD then parse_options tail p
      else if code = OPT_END then Some (Inr p)
      else (case tail of
          [] \<Rightarrow> Some (Inl NetTruncated)
        | len8 # tail' \<Rightarrow>
            (let len = unat len8 in
             case slice 0 len tail' of
               None \<Rightarrow> Some (Inl NetTruncated)
             | Some data \<Rightarrow> do {
                 rest \<leftarrow> slice len (length tail') tail';
                 p' \<leftarrow> apply_option code len data p;
                 parse_options rest p'
               })))"
  by pat_completeness auto
termination
  by (relation "measure (\<lambda>(rest, p). length rest)") (auto dest: slice_length)

definition dhcp_parse :: "bytes \<Rightarrow> (net_error + parsed) option" where
  "dhcp_parse buf =
     (if length buf < BOOTP_LEN + 4 then Some (Inl NetTruncated)
      else do {
        b0 \<leftarrow> index buf 0;
        if b0 \<noteq> DHCP_OP_REPLY then Some (Inl (NetMalformed ''not a BOOTP reply''))
        else do {
          cookie \<leftarrow> slice BOOTP_LEN (BOOTP_LEN + 4) buf;
          if cookie \<noteq> MAGIC_COOKIE then Some (Inl (NetMalformed ''bad magic cookie''))
          else do {
            x0 \<leftarrow> index buf 4; x1 \<leftarrow> index buf 5; x2 \<leftarrow> index buf 6; x3 \<leftarrow> index buf 7;
            y \<leftarrow> slice 16 20 buf; yiaddr \<leftarrow> dhcp_ipv4 y;
            s \<leftarrow> slice 20 24 buf; siaddr \<leftarrow> dhcp_ipv4 s;
            h \<leftarrow> slice 28 34 buf;
            tryq (Some (mac_from_slice h)) (\<lambda>chaddr. do {
              rest \<leftarrow> slice (BOOTP_LEN + 4) (length buf) buf;
              tryq (parse_options rest (parsed_default\<lparr>pd_xid := from_be32 x0 x1 x2 x3,
                      pd_yiaddr := yiaddr, pd_siaddr := siaddr, pd_chaddr := chaddr\<rparr>)) (\<lambda>p.
                if pd_message_type p = 0 then Some (Inl (NetMalformed ''no DHCP message type''))
                else Some (Inr p))
            })
          }
        }
      })"

subsection \<open>The client\<close>

definition dhcp_new :: "mac_addr \<Rightarrow> u32 \<Rightarrow> dhcp_client" where
  "dhcp_new mac xid = \<lparr>dc_mac = mac, dc_xid = xid, dc_state = Init, dc_offered = None,
                       dc_server_id = None, dc_lease = None\<rparr>"

definition dhcp_discover :: "dhcp_client \<Rightarrow> bytes \<times> dhcp_client" where
  "dhcp_discover c =
     (let c = c\<lparr>dc_state := Selecting, dc_offered := None, dc_server_id := None,
                dc_xid := dc_xid c * 1664525 + 1013904223\<rparr>
      in (dhcp_build c DISCOVER IP_UNSPECIFIED None None, c))"

definition dhcp_retransmit :: "dhcp_client \<Rightarrow> bytes option" where
  "dhcp_retransmit c =
     (case dc_state c of
        Selecting \<Rightarrow> Some (dhcp_build c DISCOVER IP_UNSPECIFIED None None)
      | Requesting \<Rightarrow> Some (dhcp_build c REQUEST IP_UNSPECIFIED (dc_offered c) (dc_server_id c))
      | Renewing \<Rightarrow> (case dc_lease c of
            None \<Rightarrow> None
          | Some l \<Rightarrow> Some (dhcp_build c REQUEST (le_ip l) None None))
      | Init \<Rightarrow> None
      | Bound \<Rightarrow> None)"

definition dhcp_renew :: "dhcp_client \<Rightarrow> bytes option \<times> dhcp_client" where
  "dhcp_renew c =
     (case dc_lease c of
        None \<Rightarrow> (None, c)
      | Some l \<Rightarrow>
          (let c = c\<lparr>dc_state := Renewing\<rparr>
           in (Some (dhcp_build c REQUEST (le_ip l) None None), c)))"

definition lease_from :: "dhcp_client \<Rightarrow> parsed \<Rightarrow> net_error + lease" where
  "lease_from c p =
     (if is_unspecified (pd_yiaddr p) then Inl (NetMalformed ''ACK without an address'')
      else
        let server_id = (case pd_server_id p of
              Some s \<Rightarrow> s
            | None \<Rightarrow> (case dc_server_id c of Some s \<Rightarrow> s | None \<Rightarrow> pd_siaddr p));
            router = (case pd_router p of
              Some r \<Rightarrow> Some r
            | None \<Rightarrow> if is_unspecified server_id then None else Some server_id);
            netmask = (case pd_netmask p of Some m \<Rightarrow> m | None \<Rightarrow> Ipv4Addr 255 255 255 0);
            lease_time = (case pd_lease_time p of Some t \<Rightarrow> t | None \<Rightarrow> from_secs 3600)
        in Inr \<lparr>le_ip = pd_yiaddr p, le_netmask = netmask, le_router = router, le_dns = pd_dns p,
                le_domain = pd_domain p, le_mtu = pd_mtu p, le_server_id = server_id,
                le_lease_time = lease_time,
                le_renewal_time = (case pd_renewal_time p of Some t \<Rightarrow> t | None \<Rightarrow> lease_time div 2)\<rparr>)"

text \<open>\<open>DhcpClient::handle\<close> after a successful parse.\<close>

definition dhcp_handle_parsed ::
  "dhcp_client \<Rightarrow> parsed \<Rightarrow> (net_error + dhcp_event) \<times> dhcp_client" where
  "dhcp_handle_parsed c p =
     (if pd_xid p \<noteq> dc_xid c \<or> pd_chaddr p \<noteq> dc_mac c then (Inr EvIgnored, c)
      else if dc_state c = Selecting \<and> pd_message_type p = OFFER then
        let c = c\<lparr>dc_offered := Some (pd_yiaddr p), dc_server_id := pd_server_id p,
                  dc_state := Requesting\<rparr>
        in (Inr (EvSend (dhcp_build c REQUEST IP_UNSPECIFIED (Some (pd_yiaddr p)) (pd_server_id p))), c)
      else if (dc_state c = Requesting \<or> dc_state c = Renewing) \<and> pd_message_type p = ACK then
        (case lease_from c p of
           Inl e \<Rightarrow> (Inl e, c)
         | Inr l \<Rightarrow> (Inr (EvBound l), c\<lparr>dc_state := Bound, dc_lease := Some l\<rparr>))
      else if (dc_state c = Requesting \<or> dc_state c = Renewing) \<and> pd_message_type p = NAK then
        (Inr EvNak, c\<lparr>dc_state := Init, dc_lease := None, dc_offered := None\<rparr>)
      else (Inr EvIgnored, c))"

definition dhcp_handle ::
  "dhcp_client \<Rightarrow> bytes \<Rightarrow> ((net_error + dhcp_event) \<times> dhcp_client) option" where
  "dhcp_handle c msg = do {
     r \<leftarrow> dhcp_parse msg;
     (case r of Inl e \<Rightarrow> Some (Inl e, c) | Inr p \<Rightarrow> Some (dhcp_handle_parsed c p))
   }"

subsection \<open>Options: no panic, and the reference reading\<close>

text \<open>What an option means, without the panics: the reference for \<open>apply_option\<close>.\<close>

definition set_option :: "u8 \<times> bytes \<Rightarrow> parsed \<Rightarrow> parsed" where
  "set_option opt p =
     (let data = snd opt; n = length data in
      if fst opt = 53 then (if 1 \<le> n then p\<lparr>pd_message_type := data ! 0\<rparr> else p)
      else if fst opt = 1 then (if 4 \<le> n then p\<lparr>pd_netmask := Some (ip_at data 0)\<rparr> else p)
      else if fst opt = 3 then (if 4 \<le> n then p\<lparr>pd_router := Some (ip_at data 0)\<rparr> else p)
      else if fst opt = 54 then (if 4 \<le> n then p\<lparr>pd_server_id := Some (ip_at data 0)\<rparr> else p)
      else if fst opt = 6 then p\<lparr>pd_dns := map (\<lambda>(a, b, c, d). Ipv4Addr a b c d) (chunks_exact4 data)\<rparr>
      else if fst opt = 15 then p\<lparr>pd_domain := parse_domain data\<rparr>
      else if fst opt = 26 then (if 2 \<le> n then p\<lparr>pd_mtu := Some (from_be16 (data ! 0) (data ! 1))\<rparr> else p)
      else if fst opt = 51 then
        (if 4 \<le> n then p\<lparr>pd_lease_time := Some (from_secs (unat (u32_of_ip (ip_at data 0))))\<rparr> else p)
      else if fst opt = 58 then
        (if 4 \<le> n then p\<lparr>pd_renewal_time := Some (from_secs (unat (u32_of_ip (ip_at data 0))))\<rparr> else p)
      else p)"

definition enc_option :: "u8 \<times> bytes \<Rightarrow> bytes" where
  "enc_option opt = fst opt # of_nat (length (snd opt)) # snd opt"

definition option_ok :: "u8 \<times> bytes \<Rightarrow> bool" where
  "option_ok opt \<longleftrightarrow> fst opt \<noteq> 0 \<and> fst opt \<noteq> 255 \<and> length (snd opt) < 256"

lemma dhcp_ipv4_eq: "4 \<le> length b \<Longrightarrow> dhcp_ipv4 b = Some (ip_at b 0)"
  by (simp add: dhcp_ipv4_def ip_at_def numeral_2_eq_2)

lemma seconds_eq: "4 \<le> length b \<Longrightarrow> seconds b = Some (from_secs (unat (u32_of_ip (ip_at b 0))))"
  by (simp add: seconds_def ip_at_def numeral_2_eq_2)

lemma apply_option_eq: "apply_option code (length data) data p = Some (set_option (code, data) p)"
  by (auto simp: apply_option_def set_option_def const_simps dhcp_ipv4_eq seconds_eq Let_def)

lemma parse_options_no_panic: "parse_options rest p \<noteq> None"
proof (induction rest p rule: parse_options.induct)
  case (2 code tail p)
  show ?case
  proof (cases tail)
    case (Cons len8 tail')
    show ?thesis
    proof (cases "unat len8 \<le> length tail'")
      case True
      then have "apply_option code (unat len8) (take (unat len8) tail') p
          = Some (set_option (code, take (unat len8) tail') p)"
        using apply_option_eq [of code "take (unat len8) tail'"] by simp
      with "2.IH" Cons True show ?thesis
        by (auto simp: Let_def slice_def)
    qed (use "2.IH" Cons in \<open>auto simp: Let_def slice_def\<close>)
  qed (use "2.IH" in auto)
qed simp

lemma parse_options_enc:
  assumes "option_ok opt"
  shows "parse_options (enc_option opt @ rest) p = parse_options rest (set_option opt p)"
proof -
  have "unat (of_nat (length (snd opt)) :: u8) = length (snd opt)"
    using assms by (simp add: option_ok_def unat_of_nat)
  moreover have "fst opt \<noteq> OPT_PAD" "fst opt \<noteq> OPT_END"
    using assms by (simp_all add: option_ok_def const_simps)
  ultimately show ?thesis
    by (simp add: enc_option_def slice_def apply_option_eq)
qed

lemma parse_options_roundtrip_any:
  "\<forall>opt\<in>set opts. option_ok opt \<Longrightarrow>
   parse_options (concat (map enc_option opts) @ OPT_END # rest) p = Some (Inr (fold set_option opts p))"
  by (induction opts arbitrary: p) (simp_all add: parse_options_enc const_simps)

text \<open>
  The option loop undoes the encoding. Any list of options (no code 0 or 255, at most 255
  bytes of data each), written out one after another and closed by the end option, is read as
  that list, in order, each applied to what was parsed so far; what follows the end option is
  not looked at.
\<close>

lemma parse_options_roundtrip:
  assumes "\<forall>opt\<in>set opts. option_ok opt"
  shows "parse_options (concat (map enc_option opts) @ OPT_END # rest) p = Some (Inr (fold set_option opts p))"
  using assms by (rule parse_options_roundtrip_any)

lemma parse_options_roundtrip_witness:
  "parse_options (concat (map enc_option [(53, [5]), (1, [255, 255, 255, 0])]) @ OPT_END # [7]) parsed_default
     = Some (Inr (parsed_default\<lparr>pd_message_type := 5, pd_netmask := Some (Ipv4Addr 255 255 255 0)\<rparr>))"
  using parse_options_roundtrip [of "[(53, [5]), (1, [255, 255, 255, 0])]" "[7]" parsed_default]
  by (simp add: option_ok_def set_option_def ip_at_def Let_def)

subsection \<open>Whole messages\<close>

lemma dhcp_parse_eq:
  "dhcp_parse buf =
     (if length buf < 240 then Some (Inl NetTruncated)
      else if buf ! 0 \<noteq> 2 then Some (Inl (NetMalformed ''not a BOOTP reply''))
      else if take 4 (drop 236 buf) \<noteq> MAGIC_COOKIE then Some (Inl (NetMalformed ''bad magic cookie''))
      else tryq (parse_options (drop 240 buf)
             (parsed_default\<lparr>pd_xid := u32_of_ip (ip_at buf 4), pd_yiaddr := ip_at buf 16,
                pd_siaddr := ip_at buf 20, pd_chaddr := mac_at buf 28\<rparr>)) (\<lambda>p.
           if pd_message_type p = 0 then Some (Inl (NetMalformed ''no DHCP message type''))
           else Some (Inr p)))"
  by (simp add: dhcp_parse_def BOOTP_LEN_def DHCP_OP_REPLY_def dhcp_ipv4_eq mac_from_slice_take
      ip_at_take ip_at_drop cong: if_cong) (simp add: ip_at_def)

lemma dhcp_parse_no_panic: "dhcp_parse buf \<noteq> None"
proof -
  have "tryq (parse_options rest p0) (\<lambda>p. if pd_message_type p = 0
      then Some (Inl (NetMalformed ''no DHCP message type'')) else Some (Inr p)) \<noteq> None" for rest p0
    by (rule tryq_neq_None [OF parse_options_no_panic]) simp
  then show ?thesis
    by (simp add: dhcp_parse_eq del: not_None_eq)
qed

lemma dhcp_handle_no_panic: "dhcp_handle c msg \<noteq> None"
  using dhcp_parse_no_panic [of msg] by (auto simp: dhcp_handle_def split: sum.splits)

text \<open>A reply as a tether server lays it out.\<close>

definition dhcp_reply :: "mac_addr \<Rightarrow> u32 \<Rightarrow> ipv4_addr \<Rightarrow> ipv4_addr \<Rightarrow> (u8 \<times> bytes) list \<Rightarrow> bytes" where
  "dhcp_reply mac xid yiaddr siaddr opts =
     [2, 1, 6, 0] @ octets (ip_of_u32 xid) @ replicate 8 0 @ octets yiaddr @ octets siaddr @ replicate 4 0
     @ mac_as_bytes mac @ replicate 202 0 @ MAGIC_COOKIE @ concat (map enc_option opts) @ [OPT_END]"

definition reply_fields :: "mac_addr \<Rightarrow> u32 \<Rightarrow> ipv4_addr \<Rightarrow> ipv4_addr \<Rightarrow> parsed" where
  "reply_fields mac xid yiaddr siaddr =
     parsed_default\<lparr>pd_xid := xid, pd_yiaddr := yiaddr, pd_siaddr := siaddr, pd_chaddr := mac\<rparr>"

lemma dhcp_parse_reply_raw:
  assumes "\<forall>opt\<in>set opts. option_ok opt"
    and "pd_message_type (fold set_option opts (reply_fields mac xid yiaddr siaddr)) \<noteq> 0"
  shows "dhcp_parse (dhcp_reply mac xid yiaddr siaddr opts @ pad) =
    Some (Inr (fold set_option opts (reply_fields mac xid yiaddr siaddr)))"
proof -
  let ?buf = "dhcp_reply mac xid yiaddr siaddr opts @ pad"
  have hdr: "length ?buf = 241 + length (concat (map enc_option opts)) + length pad"
    "?buf ! 0 = 2" "take 4 (drop 236 ?buf) = MAGIC_COOKIE"
    "ip_at ?buf 4 = ip_of_u32 xid" "ip_at ?buf 16 = yiaddr" "ip_at ?buf 20 = siaddr"
    "mac_at ?buf 28 = mac"
    by (simp_all add: dhcp_reply_def MAGIC_COOKIE_def)
  have opts: "drop 240 ?buf = concat (map enc_option opts) @ OPT_END # pad"
    by (simp add: dhcp_reply_def MAGIC_COOKIE_def)
  show ?thesis
    using parse_options_roundtrip_any [OF assms(1)] assms(2)
    unfolding dhcp_parse_eq hdr opts by (simp add: reply_fields_def)
qed

lemma set_option_fixed [simp]:
  "pd_xid (set_option opt p) = pd_xid p" "pd_yiaddr (set_option opt p) = pd_yiaddr p"
  "pd_siaddr (set_option opt p) = pd_siaddr p" "pd_chaddr (set_option opt p) = pd_chaddr p"
  by (simp_all add: set_option_def Let_def)

lemma fold_set_option_fixed [simp]:
  "pd_xid (fold set_option opts p) = pd_xid p" "pd_yiaddr (fold set_option opts p) = pd_yiaddr p"
  "pd_siaddr (fold set_option opts p) = pd_siaddr p" "pd_chaddr (fold set_option opts p) = pd_chaddr p"
  by (induction opts arbitrary: p) simp_all

lemma set_option_message_type:
  "fst opt \<noteq> 53 \<Longrightarrow> pd_message_type (set_option opt p) = pd_message_type p"
  by (simp add: set_option_def Let_def)

lemma fold_set_option_message_type:
  "53 \<notin> fst ` set opts \<Longrightarrow> pd_message_type (fold set_option opts p) = pd_message_type p"
  by (induction opts arbitrary: p) (auto simp: set_option_message_type)

text \<open>
  A server's reply is understood. A reply with this transaction id, client address and
  offered address, a message type option and any further options, padded with anything, parses
  to exactly those values.
\<close>

lemma dhcp_parse_reply:
  assumes "\<forall>opt\<in>set opts. option_ok opt" and "53 \<notin> fst ` set opts" and "t \<noteq> 0"
  shows "\<exists>p. dhcp_parse (dhcp_reply mac xid yiaddr siaddr ((53, [t]) # opts) @ pad) = Some (Inr p)
    \<and> pd_xid p = xid \<and> pd_chaddr p = mac \<and> pd_yiaddr p = yiaddr \<and> pd_siaddr p = siaddr
    \<and> pd_message_type p = t
    \<and> p = fold set_option opts (set_option (53, [t]) (reply_fields mac xid yiaddr siaddr))"
proof -
  let ?p = "fold set_option opts (set_option (53, [t]) (reply_fields mac xid yiaddr siaddr))"
  have mt: "pd_message_type ?p = t"
    using assms(2) by (simp add: fold_set_option_message_type set_option_def)
  have "dhcp_parse (dhcp_reply mac xid yiaddr siaddr ((53, [t]) # opts) @ pad) = Some (Inr ?p)"
    using dhcp_parse_reply_raw [of "(53, [t]) # opts" mac xid yiaddr siaddr pad] assms mt
    by (simp add: option_ok_def)
  with mt show ?thesis by (simp add: reply_fields_def)
qed

lemma dhcp_parse_reply_witness:
  "\<exists>p. dhcp_parse (dhcp_reply MAC_ZERO 7 (Ipv4Addr 192 168 42 130) IP_UNSPECIFIED
        [(53, [2]), (54, [192, 168, 42, 129])] @ [0]) = Some (Inr p) \<and> pd_yiaddr p = Ipv4Addr 192 168 42 130"
  using dhcp_parse_reply [of "[(54, [192, 168, 42, 129])]" 2 MAC_ZERO 7 "Ipv4Addr 192 168 42 130" IP_UNSPECIFIED "[0]"]
  by (auto simp: option_ok_def)

subsection \<open>What the client sends\<close>

definition build_options ::
  "dhcp_client \<Rightarrow> u8 \<Rightarrow> ipv4_addr option \<Rightarrow> ipv4_addr option \<Rightarrow> (u8 \<times> bytes) list" where
  "build_options c t requested_ip server_id =
     [(53, [t]), (61, 1 # mac_as_bytes (dc_mac c))]
     @ (case requested_ip of None \<Rightarrow> [] | Some ip \<Rightarrow> [(50, octets ip)])
     @ (case server_id of None \<Rightarrow> [] | Some ip \<Rightarrow> [(54, octets ip)])
     @ (if t = 1 \<or> t = 3 then [(55, [1, 3, 6, 15, 26, 51, 58])] else [])"

text \<open>The options of a message, found the way a server finds them: the first with the code.\<close>

function find_option :: "bytes \<Rightarrow> u8 \<Rightarrow> bytes option" where
  "find_option [] code = None"
| "find_option (c # tail) code =
     (if c = OPT_END then None
      else if c = OPT_PAD then find_option tail code
      else (case tail of
          [] \<Rightarrow> None
        | len # tail' \<Rightarrow>
            (if unat len \<le> length tail'
             then if c = code then Some (take (unat len) tail')
                  else find_option (drop (unat len) tail') code
             else None)))"
  by pat_completeness auto
termination
  by (relation "measure (\<lambda>(rest, code). length rest)") auto

definition dhcp_option :: "bytes \<Rightarrow> u8 \<Rightarrow> bytes option" where
  "dhcp_option msg code = find_option (drop (BOOTP_LEN + 4) msg) code"

lemma find_option_enc:
  "\<forall>opt\<in>set opts. option_ok opt \<Longrightarrow>
   find_option (concat (map enc_option opts) @ OPT_END # rest) code = map_of opts code"
proof (induction opts)
  case (Cons opt opts)
  then have "unat (of_nat (length (snd opt)) :: u8) = length (snd opt)"
    by (simp add: option_ok_def unat_of_nat)
  with Cons show ?case
    by (cases opt) (auto simp: enc_option_def option_ok_def const_simps)
qed simp

lemma build_options_ok: "\<forall>opt\<in>set (build_options c t requested_ip server_id). option_ok opt"
  by (auto simp: build_options_def option_ok_def split: option.splits)


lemma push_option_enc: "push_option m code data = m @ enc_option (code, data)"
  by (simp add: push_option_def enc_option_def)

definition bootp_fixed :: "dhcp_client \<Rightarrow> ipv4_addr \<Rightarrow> bytes" where
  "bootp_fixed c ciaddr =
     [1, 1, 6, 0] @ to_be32 (dc_xid c) @ [0, 0] @ to_be16 (if is_unspecified ciaddr then 0x8000 else 0)
     @ octets ciaddr @ replicate 12 0 @ mac_as_bytes (dc_mac c) @ replicate 202 0 @ MAGIC_COOKIE"

lemma length_bootp_fixed: "length (bootp_fixed c ciaddr) = 240"
  by (simp add: bootp_fixed_def MAGIC_COOKIE_def)

lemma bootp_fixed_resize:
  "resize ((([DHCP_OP_REQUEST] @ [DHCP_HTYPE_ETHERNET] @ [6] @ [0] @ to_be32 (dc_xid c) @ to_be16 0)
      @ to_be16 (if is_unspecified ciaddr then FLAG_BROADCAST else 0) @ octets ciaddr @ [0, 0, 0, 0]
      @ [0, 0, 0, 0] @ [0, 0, 0, 0] @ mac_as_bytes (dc_mac c))) BOOTP_LEN 0 @ MAGIC_COOKIE
   = bootp_fixed c ciaddr"
  by (simp add: resize_ge bootp_fixed_def to_be16_def numeral_eq_Suc DHCP_OP_REQUEST_def
      DHCP_HTYPE_ETHERNET_def FLAG_BROADCAST_def BOOTP_LEN_def)

lemma resize_min_300: "resize m (max (length m) 300) 0 = m @ replicate (300 - length m) 0"
  by (simp add: resize_def max_def)

lemma build_options_enc:
  "concat (map enc_option (build_options c t requested_ip server_id)) =
     enc_option (OPT_MESSAGE_TYPE, [t])
     @ enc_option (OPT_CLIENT_ID, [DHCP_HTYPE_ETHERNET] @ mac_as_bytes (dc_mac c))
     @ (case requested_ip of None \<Rightarrow> [] | Some ip \<Rightarrow> enc_option (OPT_REQUESTED_IP, octets ip))
     @ (case server_id of None \<Rightarrow> [] | Some ip \<Rightarrow> enc_option (OPT_SERVER_ID, octets ip))
     @ (if t = DISCOVER \<or> t = REQUEST
        then enc_option (OPT_PARAM_REQUEST, [OPT_SUBNET_MASK, OPT_ROUTER, OPT_DNS, OPT_DOMAIN_NAME,
               OPT_INTERFACE_MTU, OPT_LEASE_TIME, OPT_RENEWAL_TIME])
        else [])"
  by (simp add: build_options_def const_simps split: option.splits)

lemma dhcp_build_eq:
  "dhcp_build c t ciaddr requested_ip server_id =
     (let m = bootp_fixed c ciaddr @ concat (map enc_option (build_options c t requested_ip server_id)) @ [OPT_END]
      in m @ replicate (300 - length m) 0)"
  unfolding dhcp_build_def Let_def push_option_enc resize_min_300 bootp_fixed_resize build_options_enc
  by (cases requested_ip; cases server_id; cases "t = DISCOVER \<or> t = REQUEST") simp_all

lemma dhcp_option_build:
  "dhcp_option (dhcp_build c t ciaddr requested_ip server_id) code
     = map_of (build_options c t requested_ip server_id) code"
  by (simp add: dhcp_option_def dhcp_build_eq Let_def length_bootp_fixed BOOTP_LEN_def
      find_option_enc [OF build_options_ok])

lemma length_build_options: "length (concat (map enc_option (build_options c t requested_ip server_id))) \<le> 33"
  by (auto simp: build_options_def enc_option_def split: option.splits)

lemma length_dhcp_build: "length (dhcp_build c t ciaddr requested_ip server_id) = 300"
  using length_build_options [of c t requested_ip server_id]
  by (simp add: dhcp_build_eq Let_def length_bootp_fixed)

lemma dhcp_build_fixed:
  defines "m \<equiv> \<lambda>c t ciaddr r s. dhcp_build c t ciaddr r s"
  shows "take 4 (m c t ciaddr r s) = [1, 1, 6, 0]" "ip_at (m c t ciaddr r s) 4 = ip_of_u32 (dc_xid c)"
    "take 2 (drop 10 (m c t ciaddr r s)) = to_be16 (if is_unspecified ciaddr then 0x8000 else 0)"
    "ip_at (m c t ciaddr r s) 12 = ciaddr" "mac_at (m c t ciaddr r s) 28 = dc_mac c"
    "take 4 (drop 236 (m c t ciaddr r s)) = MAGIC_COOKIE"
  by (simp_all add: m_def dhcp_build_eq Let_def bootp_fixed_def MAGIC_COOKIE_def to_be32_def ip_of_u32_def ip_at_def
      nth_append)

text \<open>
  C27: Every message the client builds is well formed: 300 bytes, a BOOTP request for Ethernet with the
  client's transaction id and hardware address, the broadcast flag exactly when the client has no
  address yet, and, behind the magic cookie, options that a reader of the option area finds with
  the values asked for: the message type, the client identifier and, when given, the requested
  address and the server identifier; the parameter request list is there in a DISCOVER and a
  REQUEST and only there.
\<close>

theorem dhcp_message_wellformed:
  "length (dhcp_build c t ciaddr req srv) = 300
   \<and> take 4 (dhcp_build c t ciaddr req srv) = [1, 1, 6, 0]
   \<and> u32_of_ip (ip_at (dhcp_build c t ciaddr req srv) 4) = dc_xid c
   \<and> take 2 (drop 10 (dhcp_build c t ciaddr req srv)) = (if ciaddr = IP_UNSPECIFIED then [0x80, 0] else [0, 0])
   \<and> ip_at (dhcp_build c t ciaddr req srv) 12 = ciaddr
   \<and> mac_at (dhcp_build c t ciaddr req srv) 28 = dc_mac c
   \<and> take 4 (drop 236 (dhcp_build c t ciaddr req srv)) = MAGIC_COOKIE
   \<and> dhcp_option (dhcp_build c t ciaddr req srv) OPT_MESSAGE_TYPE = Some [t]
   \<and> dhcp_option (dhcp_build c t ciaddr req srv) OPT_CLIENT_ID = Some (1 # mac_as_bytes (dc_mac c))
   \<and> dhcp_option (dhcp_build c t ciaddr req srv) OPT_REQUESTED_IP = map_option octets req
   \<and> dhcp_option (dhcp_build c t ciaddr req srv) OPT_SERVER_ID = map_option octets srv
   \<and> (dhcp_option (dhcp_build c t ciaddr req srv) OPT_PARAM_REQUEST \<noteq> None) = (t \<in> {DISCOVER, REQUEST})"
  unfolding dhcp_option_build length_dhcp_build dhcp_build_fixed
  by (auto simp: build_options_def const_simps to_be16_def is_unspecified_def split: option.splits)

subsection \<open>The state machine\<close>

lemma lease_from_ok: "pd_yiaddr p \<noteq> IP_UNSPECIFIED \<Longrightarrow> \<exists>l. lease_from c p = Inr l \<and> le_ip l = pd_yiaddr p"
  by (simp add: lease_from_def is_unspecified_def Let_def)

lemma lease_from_ip: "lease_from c p = Inr l \<Longrightarrow> le_ip l = pd_yiaddr p \<and> pd_yiaddr p \<noteq> IP_UNSPECIFIED"
  by (auto simp: lease_from_def is_unspecified_def Let_def split: if_splits)

text \<open>The states in which each message type is looked at, and the state it leads to.\<close>

inductive dhcp_transition :: "dhcp_state \<Rightarrow> u8 \<Rightarrow> dhcp_state \<Rightarrow> bool" where
  offered: "dhcp_transition Selecting OFFER Requesting"
| acked: "dhcp_transition Requesting ACK Bound"
| renewed: "dhcp_transition Renewing ACK Bound"
| refused: "dhcp_transition Requesting NAK Init"
| renewal_refused: "dhcp_transition Renewing NAK Init"

inductive_simps dhcp_transition_simps: "dhcp_transition s t s'"

lemma dhcp_handle_cases:
  assumes "dhcp_handle c msg = Some (r, c')"
  obtains (quiet) "c' = c" "r = Inr EvIgnored \<or> (\<exists>e. r = Inl e)"
  | (offer) p where "dhcp_parse msg = Some (Inr p)" "pd_xid p = dc_xid c" "pd_chaddr p = dc_mac c"
      "dc_state c = Selecting" "pd_message_type p = OFFER"
      "c' = c\<lparr>dc_offered := Some (pd_yiaddr p), dc_server_id := pd_server_id p, dc_state := Requesting\<rparr>"
      "r = Inr (EvSend (dhcp_build c' REQUEST IP_UNSPECIFIED (Some (pd_yiaddr p)) (pd_server_id p)))"
  | (ack) p l where "dhcp_parse msg = Some (Inr p)" "pd_xid p = dc_xid c" "pd_chaddr p = dc_mac c"
      "dc_state c = Requesting \<or> dc_state c = Renewing" "pd_message_type p = ACK"
      "lease_from c p = Inr l" "c' = c\<lparr>dc_state := Bound, dc_lease := Some l\<rparr>" "r = Inr (EvBound l)"
  | (nak) p where "dhcp_parse msg = Some (Inr p)" "pd_xid p = dc_xid c" "pd_chaddr p = dc_mac c"
      "dc_state c = Requesting \<or> dc_state c = Renewing" "pd_message_type p = NAK"
      "c' = c\<lparr>dc_state := Init, dc_lease := None, dc_offered := None\<rparr>" "r = Inr EvNak"
proof -
  from assms obtain r0 where r0: "dhcp_parse msg = Some r0"
    "(case r0 of Inl e \<Rightarrow> Some (Inl e, c) | Inr p \<Rightarrow> Some (dhcp_handle_parsed c p)) = Some (r, c')"
    by (auto simp: dhcp_handle_def bind_eq_Some_conv)
  show ?thesis
  proof (cases r0)
    case (Inl e)
    with r0 quiet show ?thesis by auto
  next
    case (Inr p)
    with r0 have p: "dhcp_parse msg = Some (Inr p)" and h: "dhcp_handle_parsed c p = (r, c')"
      by auto
    show ?thesis
      using h unfolding dhcp_handle_parsed_def Let_def
      by (auto split: if_splits sum.splits intro: quiet offer [OF p] ack [OF p] nak [OF p])
  qed
qed

text \<open>
  C20: What a received message may do. Handling any bytes never panics. If the client or the outside
  world sees anything of it (the client changes, or an event other than Ignored comes out), the
  bytes are a well-formed reply to this client's own transaction, of a type its state waits for;
  the state moves along that transition, the transaction id and the hardware address stay, and the
  event is a REQUEST to send, a lease with a usable address, or a refusal, by the state reached.
\<close>

theorem dhcp_handle_effect:
  "\<exists>r c'. dhcp_handle c msg = Some (r, c')
    \<and> ((c' = c \<and> (r = Inr EvIgnored \<or> (\<exists>e. r = Inl e)))
      \<or> (\<exists>p. dhcp_parse msg = Some (Inr p) \<and> pd_xid p = dc_xid c \<and> pd_chaddr p = dc_mac c
           \<and> dhcp_transition (dc_state c) (pd_message_type p) (dc_state c')
           \<and> dc_xid c' = dc_xid c \<and> dc_mac c' = dc_mac c
           \<and> (case dc_state c' of
                Requesting \<Rightarrow> dc_offered c' = Some (pd_yiaddr p)
                  \<and> r = Inr (EvSend (dhcp_build c' REQUEST IP_UNSPECIFIED (Some (pd_yiaddr p)) (pd_server_id p)))
              | Bound \<Rightarrow> (\<exists>l. r = Inr (EvBound l) \<and> dc_lease c' = Some l \<and> le_ip l = pd_yiaddr p
                           \<and> le_ip l \<noteq> IP_UNSPECIFIED)
              | Init \<Rightarrow> r = Inr EvNak \<and> dc_lease c' = None
              | _ \<Rightarrow> False)))"
proof -
  obtain r c' where h: "dhcp_handle c msg = Some (r, c')"
    using dhcp_handle_no_panic [of c msg] by fastforce
  then show ?thesis
  proof (cases rule: dhcp_handle_cases)
    case (ack p l)
    then show ?thesis using h lease_from_ip [of c p l]
      by (fastforce simp: dhcp_transition_simps)
  qed (use h in \<open>fastforce simp: dhcp_transition_simps\<close>)+
qed

text \<open>The clients an execution can reach: created, then driven by the timer and by received bytes.\<close>

inductive dhcp_reach :: "mac_addr \<Rightarrow> dhcp_client \<Rightarrow> bool" for mac where
  start: "dhcp_reach mac (dhcp_new mac xid)"
| discovers: "dhcp_reach mac c \<Longrightarrow> dhcp_reach mac (snd (dhcp_discover c))"
| renews: "dhcp_reach mac c \<Longrightarrow> dhcp_reach mac (snd (dhcp_renew c))"
| receives: "dhcp_reach mac c \<Longrightarrow> dhcp_handle c msg = Some (r, c') \<Longrightarrow> dhcp_reach mac c'"

definition dhcp_inv :: "dhcp_client \<Rightarrow> bool" where
  "dhcp_inv c \<longleftrightarrow>
     (dc_state c \<in> {Bound, Renewing} \<longrightarrow> dc_lease c \<noteq> None)
     \<and> (dc_state c = Requesting \<longrightarrow> dc_offered c \<noteq> None)
     \<and> (dc_state c = Selecting \<longrightarrow> dc_offered c = None \<and> dc_server_id c = None)
     \<and> (\<forall>l. dc_lease c = Some l \<longrightarrow> le_ip l \<noteq> IP_UNSPECIFIED)"

lemma dhcp_inv_new [simp]: "dhcp_inv (dhcp_new mac xid)"
  by (simp add: dhcp_inv_def dhcp_new_def)

lemma dhcp_inv_discover [simp]: "dhcp_inv c \<Longrightarrow> dhcp_inv (snd (dhcp_discover c))"
  by (simp add: dhcp_inv_def dhcp_discover_def Let_def)

lemma dhcp_inv_renew [simp]: "dhcp_inv c \<Longrightarrow> dhcp_inv (snd (dhcp_renew c))"
  by (auto simp: dhcp_inv_def dhcp_renew_def Let_def split: option.splits)

lemma dhcp_inv_handle:
  assumes "dhcp_inv c" and "dhcp_handle c msg = Some (r, c')"
  shows "dhcp_inv c'"
  using assms(2)
proof (cases rule: dhcp_handle_cases)
  case (ack p l)
  then show ?thesis using assms(1) lease_from_ip [of c p l] by (simp add: dhcp_inv_def)
qed (use assms(1) in \<open>auto simp: dhcp_inv_def\<close>)

lemma dhcp_mac_const [simp]:
  "dc_mac (dhcp_new mac xid) = mac" "dc_mac (snd (dhcp_discover c)) = dc_mac c"
  "dc_mac (snd (dhcp_renew c)) = dc_mac c"
  by (simp_all add: dhcp_new_def dhcp_discover_def dhcp_renew_def Let_def split: option.splits)

lemma dhcp_mac_handle: "dhcp_handle c msg = Some (r, c') \<Longrightarrow> dc_mac c' = dc_mac c"
  by (cases rule: dhcp_handle_cases) auto

text \<open>A client that waits for an answer always has something to send again.\<close>

lemma dhcp_retransmit_None:
  assumes "dhcp_inv c"
  shows "dhcp_retransmit c = None \<longleftrightarrow> dc_state c = Init \<or> dc_state c = Bound"
  using assms by (cases "dc_state c") (auto simp: dhcp_retransmit_def dhcp_inv_def)

text \<open>
  C19: In every client an execution can reach, being bound or renewing means having a lease, a lease has
  an address, requesting means having an offer, and a client that waits for an answer always has a
  message to send again: the ones without are exactly those in Init and Bound. The hardware
  address never changes.
\<close>

theorem dhcp_reachable_inv:
  assumes "dhcp_reach mac c"
  shows "dc_mac c = mac \<and> dhcp_inv c
    \<and> (dhcp_retransmit c = None \<longleftrightarrow> dc_state c = Init \<or> dc_state c = Bound)"
proof -
  from assms have "dc_mac c = mac \<and> dhcp_inv c"
    by induction (auto simp: dhcp_mac_handle intro: dhcp_inv_handle)
  then show ?thesis by (simp add: dhcp_retransmit_None)
qed

theorem dhcp_reachable_inv_witness:
  "dhcp_reach MAC_ZERO (snd (dhcp_discover (dhcp_new MAC_ZERO 7)))
   \<and> dhcp_inv (snd (dhcp_discover (dhcp_new MAC_ZERO 7)))
   \<and> dhcp_retransmit (snd (dhcp_discover (dhcp_new MAC_ZERO 7))) \<noteq> None"
proof -
  have r: "dhcp_reach MAC_ZERO (snd (dhcp_discover (dhcp_new MAC_ZERO 7)))"
    by (intro dhcp_reach.intros)
  show ?thesis
    using r dhcp_reachable_inv [OF r] by (simp add: dhcp_discover_def Let_def)
qed

subsection \<open>The exchange with a server\<close>

lemma dhcp_handle_reply:
  assumes "\<forall>opt\<in>set opts. option_ok opt" "53 \<notin> fst ` set opts" "t \<noteq> 0"
  shows "dhcp_handle c (dhcp_reply mac xid yiaddr siaddr ((53, [t]) # opts) @ pad) =
    Some (dhcp_handle_parsed c (fold set_option opts (set_option (53, [t]) (reply_fields mac xid yiaddr siaddr))))"
  using dhcp_parse_reply_raw [of "(53, [t]) # opts" mac xid yiaddr siaddr pad] assms
  by (simp add: dhcp_handle_def option_ok_def fold_set_option_message_type set_option_def)

lemma reply_parsed:
  fixes opts t mac xid yiaddr siaddr
  defines "p \<equiv> fold set_option opts (set_option (53, [t]) (reply_fields mac xid yiaddr siaddr))"
  assumes "53 \<notin> fst ` set opts"
  shows "pd_xid p = xid" "pd_chaddr p = mac" "pd_yiaddr p = yiaddr" "pd_siaddr p = siaddr" "pd_message_type p = t"
  using assms(2) by (simp_all add: p_def reply_fields_def fold_set_option_message_type set_option_def)

text \<open>The options of a tether server's OFFER and ACK.\<close>

definition server_options ::
  "ipv4_addr \<Rightarrow> u32 \<Rightarrow> ipv4_addr \<Rightarrow> ipv4_addr \<Rightarrow> ipv4_addr list \<Rightarrow> (u8 \<times> bytes) list" where
  "server_options srv secs netmask router dns =
     [(54, octets srv), (51, to_be32 secs), (1, octets netmask), (3, octets router), (6, concat (map octets dns))]"

lemma chunks_octets:
  "map (\<lambda>(a, b, c, d). Ipv4Addr a b c d) (chunks_exact4 (concat (map octets dns))) = dns"
proof (induction dns)
  case (Cons ip dns)
  then show ?case by (cases ip) simp
qed simp

lemma length_concat_octets: "length (concat (map octets dns)) = 4 * length dns"
  by (induction dns) simp_all

lemma server_options_ok:
  "length dns < 64 \<Longrightarrow> (\<forall>opt\<in>set (server_options srv secs netmask router dns). option_ok opt)
    \<and> 53 \<notin> fst ` set (server_options srv secs netmask router dns)"
  unfolding server_options_def option_ok_def by (simp add: length_concat_octets)

lemma ip_at_to_be32: "u32_of_ip (ip_at (to_be32 w) 0) = w"
  by (simp add: ip_at_def to_be32_def byte_simps)

lemma ip_at_octets_exact [simp]: "ip_at (octets ip) 0 = ip"
  using ip_at_octets [of ip "[]"] by simp

lemma fold_server_options:
  "fold set_option (server_options srv secs netmask router dns) p =
     p\<lparr>pd_server_id := Some srv, pd_lease_time := Some (from_secs (unat secs)), pd_netmask := Some netmask,
       pd_router := Some router, pd_dns := dns\<rparr>"
  by (simp add: server_options_def set_option_def ip_at_to_be32 chunks_octets Let_def del: u32_of_ip.simps)

definition server_reply :: "dhcp_client \<Rightarrow> u8 \<Rightarrow> ipv4_addr \<Rightarrow> (u8 \<times> bytes) list \<Rightarrow> bytes" where
  "server_reply c t ip opts = dhcp_reply (dc_mac c) (dc_xid c) ip IP_UNSPECIFIED ((53, [t]) # opts)"

lemma dhcp_handle_server_reply:
  assumes "length dns < 64" "t \<noteq> 0"
  shows "dhcp_handle c (server_reply c t ip (server_options srv secs netmask router dns) @ pad) =
    Some (dhcp_handle_parsed c (parsed_default\<lparr>pd_xid := dc_xid c, pd_yiaddr := ip, pd_chaddr := dc_mac c,
      pd_message_type := t, pd_server_id := Some srv, pd_lease_time := Some (from_secs (unat secs)),
      pd_netmask := Some netmask, pd_router := Some router, pd_dns := dns\<rparr>))"
  unfolding server_reply_def
  using dhcp_handle_reply [of "server_options srv secs netmask router dns" t] server_options_ok [OF assms(1)] assms(2)
  by (simp add: fold_server_options set_option_def [of "(53, [t])"] reply_fields_def Let_def parsed_default_def)

text \<open>The lease those options stand for.\<close>

definition server_lease :: "ipv4_addr \<Rightarrow> ipv4_addr \<Rightarrow> u32 \<Rightarrow> ipv4_addr \<Rightarrow> ipv4_addr \<Rightarrow> ipv4_addr list \<Rightarrow> lease" where
  "server_lease ip srv secs netmask router dns =
     \<lparr>le_ip = ip, le_netmask = netmask, le_router = Some router, le_dns = dns, le_domain = None, le_mtu = None,
      le_server_id = srv, le_lease_time = from_secs (unat secs), le_renewal_time = from_secs (unat secs) div 2\<rparr>"

lemma dhcp_offer_handled:
  assumes "dc_state c = Selecting" and "length dns < 64"
  shows "dhcp_handle c (server_reply c OFFER ip (server_options srv secs netmask router dns) @ pad) =
    (let c' = c\<lparr>dc_offered := Some ip, dc_server_id := Some srv, dc_state := Requesting\<rparr>
     in Some (Inr (EvSend (dhcp_build c' REQUEST IP_UNSPECIFIED (Some ip) (Some srv))), c'))"
  using assms by (subst dhcp_handle_server_reply) (simp_all add: dhcp_handle_parsed_def const_simps Let_def)

lemma dhcp_ack_handled:
  assumes "dc_state c = Requesting \<or> dc_state c = Renewing" and "ip \<noteq> IP_UNSPECIFIED" and "length dns < 64"
  shows "dhcp_handle c (server_reply c ACK ip (server_options srv secs netmask router dns) @ pad) =
    Some (Inr (EvBound (server_lease ip srv secs netmask router dns)),
          c\<lparr>dc_state := Bound, dc_lease := Some (server_lease ip srv secs netmask router dns)\<rparr>)"
  using assms by (subst dhcp_handle_server_reply)
    (auto simp: dhcp_handle_parsed_def lease_from_def server_lease_def const_simps is_unspecified_def
      parsed_default_def Let_def)

lemma dhcp_nak_handled:
  assumes "dc_state c = Requesting \<or> dc_state c = Renewing" and "length dns < 64"
  shows "dhcp_handle c (server_reply c NAK ip (server_options srv secs netmask router dns) @ pad) =
    Some (Inr EvNak, c\<lparr>dc_state := Init, dc_lease := None, dc_offered := None\<rparr>)"
  using assms by (subst dhcp_handle_server_reply) (auto simp: dhcp_handle_parsed_def const_simps)

lemma length_server_reply:
  "length dns < 64 \<Longrightarrow> length (server_reply c t ip (server_options srv secs netmask router dns)) \<le> 1000"
  by (simp add: server_reply_def dhcp_reply_def server_options_def enc_option_def length_concat_octets MAGIC_COOKIE_def)

text \<open>
  The four-way exchange ends in a lease. Whatever the client did before, after a DISCOVER the
  server's OFFER makes it send a REQUEST that names the offered address and that server, without a
  client address; the server's ACK then binds exactly the lease the ACK describes (address, mask,
  router, name servers, lease time, and half of it as the renewal time), whatever pads the two
  messages.
\<close>

theorem dhcp_four_way_exchange:
  assumes "ip \<noteq> IP_UNSPECIFIED" and "length dns < 64"
  shows "\<exists>req c2. dhcp_handle (snd (dhcp_discover c))
        (server_reply (snd (dhcp_discover c)) OFFER ip (server_options srv secs netmask router dns) @ pad)
        = Some (Inr (EvSend req), c2)
    \<and> dc_state c2 = Requesting
    \<and> dhcp_option req OPT_MESSAGE_TYPE = Some [REQUEST] \<and> dhcp_option req OPT_REQUESTED_IP = Some (octets ip)
    \<and> dhcp_option req OPT_SERVER_ID = Some (octets srv) \<and> ip_at req 12 = IP_UNSPECIFIED
    \<and> dhcp_handle c2 (server_reply c2 ACK ip (server_options srv secs netmask router dns) @ pad')
      = Some (Inr (EvBound (server_lease ip srv secs netmask router dns)),
          c2\<lparr>dc_state := Bound, dc_lease := Some (server_lease ip srv secs netmask router dns)\<rparr>)"
proof -
  define c1 where "c1 = snd (dhcp_discover c)"
  define c2 where "c2 = c1\<lparr>dc_offered := Some ip, dc_server_id := Some srv, dc_state := Requesting\<rparr>"
  have s1: "dc_state c1 = Selecting"
    by (simp add: c1_def dhcp_discover_def Let_def)
  have offer: "dhcp_handle c1 (server_reply c1 OFFER ip (server_options srv secs netmask router dns) @ pad)
      = Some (Inr (EvSend (dhcp_build c2 REQUEST IP_UNSPECIFIED (Some ip) (Some srv))), c2)"
    using dhcp_offer_handled [OF s1 assms(2)] by (simp add: c2_def Let_def)
  have ack: "dhcp_handle c2 (server_reply c2 ACK ip (server_options srv secs netmask router dns) @ pad')
      = Some (Inr (EvBound (server_lease ip srv secs netmask router dns)),
          c2\<lparr>dc_state := Bound, dc_lease := Some (server_lease ip srv secs netmask router dns)\<rparr>)"
    by (rule dhcp_ack_handled) (use assms in \<open>simp_all add: c2_def\<close>)
  show ?thesis
    unfolding c1_def [symmetric]
    by (intro exI conjI, rule offer, rule_tac [6] ack)
      (simp_all add: dhcp_build_fixed dhcp_option_build build_options_def const_simps c2_def)
qed

theorem dhcp_four_way_exchange_witness:
  "Ipv4Addr 192 168 42 130 \<noteq> IP_UNSPECIFIED \<and> length [Ipv4Addr 192 168 42 129] < 64
   \<and> (\<exists>req c2. dhcp_handle (snd (dhcp_discover (dhcp_new MAC_ZERO 7)))
        (server_reply (snd (dhcp_discover (dhcp_new MAC_ZERO 7))) OFFER (Ipv4Addr 192 168 42 130)
           (server_options (Ipv4Addr 192 168 42 129) 3600 (Ipv4Addr 255 255 255 0) (Ipv4Addr 192 168 42 129)
              [Ipv4Addr 192 168 42 129]) @ [0, 0]) = Some (Inr (EvSend req), c2) \<and> dc_state c2 = Requesting)"
  using dhcp_four_way_exchange [of "Ipv4Addr 192 168 42 130" "[Ipv4Addr 192 168 42 129]" "dhcp_new MAC_ZERO 7"
      "Ipv4Addr 192 168 42 129" 3600 "Ipv4Addr 255 255 255 0" "Ipv4Addr 192 168 42 129" "[0, 0]" "[]"]
  by (auto simp: IP_UNSPECIFIED_def)

text \<open>
  The step of the transaction id: the multiplier is odd and the increment is odd, so the new id has
  the other parity.
\<close>

lemma discover_xid_parity: "even (dc_xid (snd (dhcp_discover c))) \<longleftrightarrow> odd (dc_xid c)"
proof -
  have "even (w * 1664525 + 1013904223) \<longleftrightarrow> odd w" for w :: u32
    by simp
  then show ?thesis by (simp add: dhcp_discover_def Let_def)
qed

text \<open>
  A DISCOVER opens a new transaction: the new transaction id differs from the previous one, so a
  reply to the previous transaction, of any type and with any options, is ignored and changes
  nothing.
\<close>

lemma dhcp_discover_fresh:
  assumes "dhcp_parse msg = Some (Inr p)" and "pd_xid p = dc_xid c"
  shows "dhcp_handle (snd (dhcp_discover c)) msg = Some (Inr EvIgnored, snd (dhcp_discover c))"
proof -
  have "dc_xid (snd (dhcp_discover c)) \<noteq> dc_xid c"
    using discover_xid_parity [of c] by auto
  with assms show ?thesis by (simp add: dhcp_handle_def dhcp_handle_parsed_def)
qed

lemma dhcp_discover_fresh_witness:
  "dhcp_parse (dhcp_reply MAC_ZERO 7 (Ipv4Addr 10 0 0 2) IP_UNSPECIFIED [(53, [2])])
     = Some (Inr (set_option (53, [2]) (reply_fields MAC_ZERO 7 (Ipv4Addr 10 0 0 2) IP_UNSPECIFIED)))
   \<and> dhcp_handle (snd (dhcp_discover (dhcp_new MAC_ZERO 7)))
       (dhcp_reply MAC_ZERO 7 (Ipv4Addr 10 0 0 2) IP_UNSPECIFIED [(53, [2])])
     = Some (Inr EvIgnored, snd (dhcp_discover (dhcp_new MAC_ZERO 7)))"
proof -
  have p: "dhcp_parse (dhcp_reply MAC_ZERO 7 (Ipv4Addr 10 0 0 2) IP_UNSPECIFIED [(53, [2])])
     = Some (Inr (set_option (53, [2]) (reply_fields MAC_ZERO 7 (Ipv4Addr 10 0 0 2) IP_UNSPECIFIED)))"
    using dhcp_parse_reply_raw [of "[(53, [2])]" MAC_ZERO 7 "Ipv4Addr 10 0 0 2" IP_UNSPECIFIED "[]"]
    by (simp add: option_ok_def set_option_def)
  show ?thesis
    using p dhcp_discover_fresh [OF p, of "dhcp_new MAC_ZERO 7"] by (simp add: dhcp_new_def reply_fields_def)
qed

text \<open>
  C21: Renewing. A bound client that renews sends a REQUEST with its address as the client address and,
  as RFC 2131 asks of this state, neither a requested address nor a server identifier; the server's
  ACK binds the lease it describes, and its NAK sends the client back to Init without a lease, from
  where only a DISCOVER goes on.
\<close>

theorem dhcp_renewal:
  assumes "dc_lease c = Some l" and "ip \<noteq> IP_UNSPECIFIED" and "length dns < 64"
  shows "\<exists>req c2. dhcp_renew c = (Some req, c2) \<and> dc_state c2 = Renewing \<and> dc_xid c2 = dc_xid c
    \<and> dhcp_option req OPT_MESSAGE_TYPE = Some [REQUEST] \<and> ip_at req 12 = le_ip l
    \<and> dhcp_option req OPT_REQUESTED_IP = None \<and> dhcp_option req OPT_SERVER_ID = None
    \<and> dhcp_retransmit c2 = Some req
    \<and> dhcp_handle c2 (server_reply c2 ACK ip (server_options srv secs netmask router dns) @ pad)
      = Some (Inr (EvBound (server_lease ip srv secs netmask router dns)),
          c2\<lparr>dc_state := Bound, dc_lease := Some (server_lease ip srv secs netmask router dns)\<rparr>)
    \<and> (\<exists>c3. dhcp_handle c2 (server_reply c2 NAK ip (server_options srv secs netmask router dns) @ pad)
        = Some (Inr EvNak, c3) \<and> dc_state c3 = Init \<and> dc_lease c3 = None \<and> dhcp_retransmit c3 = None)"
proof -
  define c2 where "c2 = c\<lparr>dc_state := Renewing\<rparr>"
  have renew: "dhcp_renew c = (Some (dhcp_build c2 REQUEST (le_ip l) None None), c2)"
    by (simp add: dhcp_renew_def assms(1) c2_def Let_def)
  have ack: "dhcp_handle c2 (server_reply c2 ACK ip (server_options srv secs netmask router dns) @ pad)
      = Some (Inr (EvBound (server_lease ip srv secs netmask router dns)),
          c2\<lparr>dc_state := Bound, dc_lease := Some (server_lease ip srv secs netmask router dns)\<rparr>)"
    by (rule dhcp_ack_handled) (use assms in \<open>simp_all add: c2_def\<close>)
  have nak: "dhcp_handle c2 (server_reply c2 NAK ip (server_options srv secs netmask router dns) @ pad)
      = Some (Inr EvNak, c2\<lparr>dc_state := Init, dc_lease := None, dc_offered := None\<rparr>)"
    by (rule dhcp_nak_handled) (use assms in \<open>simp_all add: c2_def\<close>)
  show ?thesis
    unfolding renew using ack nak assms(1)
    by (intro exI [of _ "dhcp_build c2 REQUEST (le_ip l) None None"] exI [of _ c2])
      (simp add: dhcp_build_fixed dhcp_option_build build_options_def const_simps c2_def dhcp_retransmit_def)
qed

theorem dhcp_renewal_witness:
  "(\<exists>req c2. dhcp_renew (dhcp_new MAC_ZERO 7\<lparr>dc_state := Bound, dc_lease := Some (server_lease (Ipv4Addr 10 0 0 2)
       (Ipv4Addr 10 0 0 1) 60 (Ipv4Addr 255 255 255 0) (Ipv4Addr 10 0 0 1) [])\<rparr>) = (Some req, c2)
     \<and> dc_state c2 = Renewing \<and> ip_at req 12 = Ipv4Addr 10 0 0 2)"
proof -
  let ?l = "server_lease (Ipv4Addr 10 0 0 2) (Ipv4Addr 10 0 0 1) 60 (Ipv4Addr 255 255 255 0) (Ipv4Addr 10 0 0 1) []"
  let ?c = "dhcp_new MAC_ZERO 7\<lparr>dc_state := Bound, dc_lease := Some ?l\<rparr>"
  have "le_ip ?l = Ipv4Addr 10 0 0 2" "dc_lease ?c = Some ?l" "Ipv4Addr 10 0 0 2 \<noteq> IP_UNSPECIFIED"
    by (simp_all add: server_lease_def IP_UNSPECIFIED_def)
  with dhcp_renewal [of ?c ?l "Ipv4Addr 10 0 0 2" "[]"] show ?thesis
    by fastforce
qed

end
