(* ===== verification/Link_Rx.thy ===== *)
theory Link_Rx
  imports Arp Ipv4 Dhcp Rndis_Packet Bulk_Io
begin

text \<open>
  The receive thread of \<^verbatim>\<open>src/src/link.rs\<close>: the sink, the DHCP timer, \<open>send_dhcp\<close>,
  \<open>handle_transfer\<close>, \<open>handle_ipv4\<close> and \<open>rx_loop\<close>. The state of the thread is one
  record: what the locks and channels of \<open>RxContext\<close> hold (the ARP cache, the queue of frames to
  send, the events for the daemon, the sink), the DHCP client and its timer. The clock is a function
  \<open>clk\<close>, and \<open>rx_reads\<close> counts the readings taken. Shown here: no bytes from the device make
  the thread panic; exactly the IP packets for this host that are not DHCP replies reach the sink, in
  order; every frame the thread queues has this host's address as its source; the client, the
  timer and the ARP state fit together in every reachable state, so that a client that waits is never
  silent for longer than sixteen seconds; the read queue stays full.
\<close>

subsection \<open>The sink\<close>

record 'k switchable_sink =
  sk_inner :: "'k option"
  sk_delivered :: u64
  sk_bytes_in :: u64
  sk_dropped :: u64

definition sink_new :: "'k switchable_sink" where
  "sink_new = \<lparr>sk_inner = None, sk_delivered = 0, sk_bytes_in = 0, sk_dropped = 0\<rparr>"

definition sink_attach :: "'k \<Rightarrow> 'k switchable_sink \<Rightarrow> 'k switchable_sink" where
  "sink_attach k s = s\<lparr>sk_inner := Some k\<rparr>"

definition sink_detach :: "'k switchable_sink \<Rightarrow> 'k switchable_sink" where
  "sink_detach s = s\<lparr>sk_inner := None\<rparr>"

text \<open>\<open>deliver\<close> of the switchable sink over \<open>deliver\<close> of the sink attached to it.\<close>

definition sink_deliver :: "(bytes \<Rightarrow> 'k \<Rightarrow> 'k) \<Rightarrow> bytes \<Rightarrow> 'k switchable_sink \<Rightarrow> 'k switchable_sink" where
  "sink_deliver deliver packet s =
     (case sk_inner s of
        Some k \<Rightarrow> s\<lparr>sk_delivered := sk_delivered s + 1,
                    sk_bytes_in := sk_bytes_in s + of_nat (length packet),
                    sk_inner := Some (deliver packet k)\<rparr>
      | None \<Rightarrow> s\<lparr>sk_dropped := sk_dropped s + 1\<rparr>)"

subsection \<open>The DHCP timer\<close>

definition DHCP_RETRY_MIN :: duration where "DHCP_RETRY_MIN = from_secs 1"
definition DHCP_RETRY_MAX :: duration where "DHCP_RETRY_MAX = from_secs 16"

record dhcp_timer =
  dt_next :: instant
  dt_backoff :: duration
  dt_renew_at :: "instant option"

definition timer_new :: "instant \<Rightarrow> dhcp_timer" where
  "timer_new now = \<lparr>dt_next = now + DHCP_RETRY_MIN, dt_backoff = DHCP_RETRY_MIN, dt_renew_at = None\<rparr>"

definition timer_bound :: "instant \<Rightarrow> lease \<Rightarrow> dhcp_timer \<Rightarrow> dhcp_timer" where
  "timer_bound now l t =
     t\<lparr>dt_backoff := DHCP_RETRY_MIN, dt_renew_at := Some (now + le_renewal_time l),
       dt_next := now + le_renewal_time l\<rparr>"

definition timer_restart :: "instant \<Rightarrow> dhcp_timer \<Rightarrow> dhcp_timer" where
  "timer_restart now t = t\<lparr>dt_backoff := DHCP_RETRY_MIN, dt_next := now, dt_renew_at := None\<rparr>"

text \<open>\<open>due\<close> reads the clock twice: \<open>now1\<close> for the check, \<open>now2\<close> to rearm.\<close>

definition timer_due ::
  "instant \<Rightarrow> instant \<Rightarrow> dhcp_timer \<Rightarrow> dhcp_client \<Rightarrow> bytes option \<times> dhcp_timer \<times> dhcp_client" where
  "timer_due now1 now2 t c =
     (if now1 < dt_next t then (None, t, c)
      else if dt_renew_at t \<noteq> None then
        (let t = t\<lparr>dt_renew_at := None, dt_next := now2 + DHCP_RETRY_MIN, dt_backoff := DHCP_RETRY_MIN\<rparr>;
             (m, c) = dhcp_renew c
         in (m, t, c))
      else
        (let b = min (dt_backoff t * 2) DHCP_RETRY_MAX;
             t = t\<lparr>dt_backoff := b, dt_next := now2 + b\<rparr>
         in case dhcp_retransmit c of
              Some m \<Rightarrow> (Some m, t, c)
            | None \<Rightarrow> (case dhcp_discover c of (m, c) \<Rightarrow> (Some m, t, c))))"

subsection \<open>Frames in\<close>

datatype link_event = LinkBound lease | LinkFailed string

record 's rx =
  rx_arp :: arp
  rx_tx :: "bytes list"
  rx_sink :: 's
  rx_events :: "link_event list"
  rx_dhcp :: dhcp_client
  rx_timer :: dhcp_timer
  rx_reads :: nat

text \<open>What stays the same while the thread runs: the host address, the sink's \<open>deliver\<close>, the clock.\<close>

record 's rx_context =
  rc_host_mac :: mac_addr
  rc_deliver :: "bytes \<Rightarrow> 's \<Rightarrow> 's"
  rc_clock :: "nat \<Rightarrow> instant"

definition rx_now :: "'s rx_context \<Rightarrow> 's rx \<Rightarrow> instant \<times> 's rx" where
  "rx_now X st = (rc_clock X (rx_reads st), st\<lparr>rx_reads := Suc (rx_reads st)\<rparr>)"

definition dhcp_frame :: "mac_addr \<Rightarrow> bytes \<Rightarrow> bytes" where
  "dhcp_frame host_mac msg =
     (let datagram = \<lparr>ud_src_ip = IP_UNSPECIFIED, ud_dst_ip = IP_BROADCAST, ud_src_port = CLIENT_PORT,
                      ud_dst_port = SERVER_PORT, ud_payload = msg\<rparr>;
          ip = build_udp datagram 0
      in ethernet_build MAC_BROADCAST host_mac ETHERTYPE_IPV4 ip)"

definition send_dhcp :: "'s rx_context \<Rightarrow> bytes \<Rightarrow> 's rx \<Rightarrow> 's rx" where
  "send_dhcp X msg st = st\<lparr>rx_tx := rx_tx st @ [dhcp_frame (rc_host_mac X) msg]\<rparr>"

text \<open>The arms of \<open>match dhcp.handle(d.payload)\<close>.\<close>

definition handle_dhcp_event ::
  "'s rx_context \<Rightarrow> mac_addr \<Rightarrow> ipv4_addr \<Rightarrow> net_error + dhcp_event \<Rightarrow> 's rx \<Rightarrow> 's rx" where
  "handle_dhcp_event X src_mac src_ip r st =
     (case r of
        Inr (EvSend msg) \<Rightarrow> send_dhcp X msg st
      | Inr (EvBound l) \<Rightarrow>
          (let (now, st) = rx_now X st;
               st = st\<lparr>rx_timer := timer_bound now l (rx_timer st)\<rparr>;
               st = st\<lparr>rx_arp := arp_set_host_ip (le_ip l) (rx_arp st)\<rparr>;
               (now, st) = rx_now X st;
               st = st\<lparr>rx_arp := arp_insert now src_ip src_mac (rx_arp st)\<rparr>
           in st\<lparr>rx_events := rx_events st @ [LinkBound l]\<rparr>)
      | Inr EvNak \<Rightarrow>
          (let (now, st) = rx_now X st in st\<lparr>rx_timer := timer_restart now (rx_timer st)\<rparr>)
      | Inr EvIgnored \<Rightarrow> st
      | Inl e \<Rightarrow> st)"

definition is_dhcp_reply :: "udp_datagram \<Rightarrow> bool" where
  "is_dhcp_reply d \<longleftrightarrow> ud_dst_port d = CLIENT_PORT \<and> ud_src_port d = SERVER_PORT"

definition handle_ipv4 :: "'s rx_context \<Rightarrow> mac_addr \<Rightarrow> bytes \<Rightarrow> 's rx \<Rightarrow> 's rx option" where
  "handle_ipv4 X src_mac payload st = do {
     r \<leftarrow> parse_udp payload;
     let deliver = Some (st\<lparr>rx_sink := rc_deliver X payload (rx_sink st)\<rparr>);
     (case r of
        Inr d \<Rightarrow>
          if is_dhcp_reply d then do {
            (res, c) \<leftarrow> dhcp_handle (rx_dhcp st) (ud_payload d);
            Some (handle_dhcp_event X src_mac (ud_src_ip d) res (st\<lparr>rx_dhcp := c\<rparr>))
          }
          else deliver
      | Inl e \<Rightarrow> deliver)
   }"

text \<open>The body of the loop of \<open>handle_transfer\<close> for one frame.\<close>

definition handle_frame :: "'s rx_context \<Rightarrow> bytes \<Rightarrow> 's rx \<Rightarrow> 's rx option" where
  "handle_frame X frame_bytes st = do {
     p \<leftarrow> ethernet_parse frame_bytes;
     (case p of
        Inl e \<Rightarrow> Some st
      | Inr frame \<Rightarrow>
          if fr_dst frame \<noteq> rc_host_mac X \<and> \<not> is_multicast (fr_dst frame) then Some st
          else if fr_ethertype frame = ETHERTYPE_ARP then
            (let (now, st) = rx_now X st in do {
               (r, a) \<leftarrow> arp_handle now (fr_payload frame) (rx_arp st);
               let st = st\<lparr>rx_arp := a\<rparr>;
               Some (case r of
                       Inr (Some reply) \<Rightarrow> st\<lparr>rx_tx := rx_tx st @ [reply]\<rparr>
                     | Inr None \<Rightarrow> st
                     | Inl e \<Rightarrow> st)
             })
          else if fr_ethertype frame = ETHERTYPE_IPV4 then
            handle_ipv4 X (fr_src frame) (fr_payload frame) st
          else Some st)
   }"

fun handle_items :: "'s rx_context \<Rightarrow> (rndis_error + bytes) list \<Rightarrow> 's rx \<Rightarrow> 's rx option" where
  "handle_items X [] st = Some st"
| "handle_items X (Inl e # items) st = Some st"
| "handle_items X (Inr f # items) st = do { st \<leftarrow> handle_frame X f st; handle_items X items st }"

definition handle_transfer :: "'s rx_context \<Rightarrow> bytes \<Rightarrow> 's rx \<Rightarrow> 's rx option" where
  "handle_transfer X data st = do { items \<leftarrow> packet_decode data; handle_items X items st }"

subsection \<open>The thread\<close>

text \<open>\<open>if let Some(msg) = dhcp_state.due(&mut dhcp) { send_dhcp(&ctx, &msg); }\<close>\<close>

definition rx_due :: "'s rx_context \<Rightarrow> 's rx \<Rightarrow> 's rx" where
  "rx_due X st =
     (let (now1, st) = rx_now X st;
          (now2, st) = rx_now X st;
          (m, t, c) = timer_due now1 now2 (rx_timer st) (rx_dhcp st);
          st = st\<lparr>rx_timer := t, rx_dhcp := c\<rparr>
      in case m of Some msg \<Rightarrow> send_dhcp X msg st | None \<Rightarrow> st)"

fun mac_xid :: "mac_addr \<Rightarrow> u32" where
  "mac_xid (MacAddr a b c d e f) = from_be32 c d e f"

record ('s, 'e) rx_thread =
  th_rx :: "'s rx"
  th_in :: 'e
  th_stalls :: u32

text \<open>Up to the loop: the reads are queued, the client is created and sends its first DISCOVER.\<close>

definition rx_start :: "'s rx_context \<Rightarrow> 'e in_endpoint \<Rightarrow> usize \<Rightarrow> 'e \<Rightarrow> 's \<Rightarrow> ('s, 'e) rx_thread" where
  "rx_start X E transfer_size ep sink =
     (let ep = submit_reads E transfer_size ep;
          dhcp = dhcp_new (rc_host_mac X) (mac_xid (rc_host_mac X));
          (msg, dhcp) = dhcp_discover dhcp;
          st = \<lparr>rx_arp = arp_new (rc_host_mac X) IP_UNSPECIFIED, rx_tx = [], rx_sink = sink, rx_events = [],
                rx_dhcp = dhcp, rx_timer = timer_new (rc_clock X 0), rx_reads = 1\<rparr>
      in \<lparr>th_rx = send_dhcp X msg st, th_in = ep, th_stalls = 0\<rparr>)"

definition rx_fail :: "string \<Rightarrow> ('s, 'e) rx_thread \<Rightarrow> ('s, 'e) rx_thread" where
  "rx_fail msg th =
     th\<lparr>th_rx := (th_rx th)\<lparr>rx_events := rx_events (th_rx th) @ [LinkFailed msg]\<rparr>\<rparr>"

text \<open>One turn of the loop; \<open>False\<close> is the \<open>return\<close> of the thread. The count in the message is always six.\<close>

definition rx_turn ::
  "'s rx_context \<Rightarrow> 'e in_endpoint \<Rightarrow> usize \<Rightarrow> ('s, 'e) rx_thread \<Rightarrow> (('s, 'e) rx_thread \<times> bool) option" where
  "rx_turn X E transfer_size th =
     (let due = (\<lambda>th. (th\<lparr>th_rx := rx_due X (th_rx th)\<rparr>, True));
          (r, ep) = ie_wait E TICK (th_in th);
          th = th\<lparr>th_in := ep\<rparr>
      in case r of
           Some (Inr data) \<Rightarrow>
             (let th = th\<lparr>th_stalls := 0, th_in := ie_submit E transfer_size (th_in th)\<rparr>
              in map_option (\<lambda>st. due (th\<lparr>th_rx := st\<rparr>)) (handle_transfer X data (th_rx th)))
         | Some (Inl e) \<Rightarrow>
             if is_fatal e then Some (rx_fail (usb_error_string e) th, False)
             else if e = UsbStall then
               (let th = th\<lparr>th_stalls := th_stalls th + 1\<rparr>
                in if th_stalls th > MAX_CONSECUTIVE_STALLS
                   then Some (rx_fail (''bulk IN endpoint stalled '' @ nat_string (unat (th_stalls th))
                                       @ '' times in a row'') th, False)
                   else (case recover_bulk_in E transfer_size (th_in th) of
                           (Inr _, ep) \<Rightarrow> Some (due (th\<lparr>th_in := ep\<rparr>))
                         | (Inl e, ep) \<Rightarrow> Some (rx_fail (usb_error_string e) (th\<lparr>th_in := ep\<rparr>), False)))
             else Some (due (th\<lparr>th_in := ie_submit E transfer_size (th_in th)\<rparr>))
         | None \<Rightarrow> Some (due th))"

text \<open>Where the receive thread is: waiting, with the rest of a transfer, before the timer, or gone.\<close>

datatype rx_pc = RxWait | RxItems "(rndis_error + bytes) list" | RxTimer | RxEnded

text \<open>The match of \<open>rx_loop\<close> on what the endpoint returned; \<open>None\<close> is a panic.\<close>

definition rx_wait_step ::
  "'e in_endpoint \<Rightarrow> usize \<Rightarrow> ('s, 'e) rx_thread \<Rightarrow> (('s, 'e) rx_thread \<times> rx_pc) option" where
  "rx_wait_step E transfer_size th =
     (let (r, ep) = ie_wait E TICK (th_in th);
          th = th\<lparr>th_in := ep\<rparr>
      in case r of
           Some (Inr data) \<Rightarrow>
             map_option (\<lambda>items. (th\<lparr>th_stalls := 0, th_in := ie_submit E transfer_size (th_in th)\<rparr>, RxItems items))
               (packet_decode data)
         | Some (Inl e) \<Rightarrow>
             if is_fatal e then Some (rx_fail (usb_error_string e) th, RxEnded)
             else if e = UsbStall then
               (let th = th\<lparr>th_stalls := th_stalls th + 1\<rparr>
                in if th_stalls th > MAX_CONSECUTIVE_STALLS
                   then Some (rx_fail (''bulk IN endpoint stalled '' @ nat_string (unat (th_stalls th))
                                       @ '' times in a row'') th, RxEnded)
                   else (case recover_bulk_in E transfer_size (th_in th) of
                           (Inr _, ep) \<Rightarrow> Some (th\<lparr>th_in := ep\<rparr>, RxTimer)
                         | (Inl e, ep) \<Rightarrow> Some (rx_fail (usb_error_string e) (th\<lparr>th_in := ep\<rparr>), RxEnded)))
             else Some (th\<lparr>th_in := ie_submit E transfer_size (th_in th)\<rparr>, RxTimer)
         | None \<Rightarrow> Some (th, RxTimer))"

subsection \<open>Any bytes, no panic\<close>

text \<open>
  What of a frame belongs to the tunnel, read off the frame alone: the payload of an IPv4 frame for
  this host (or for many) that is not a DHCP reply.
\<close>

definition to_tunnel :: "mac_addr \<Rightarrow> bytes \<Rightarrow> bytes option" where
  "to_tunnel host_mac f =
     (case ethernet_parse f of
        Some (Inr fr) \<Rightarrow>
          if (fr_dst fr = host_mac \<or> is_multicast (fr_dst fr)) \<and> fr_ethertype fr = 0x0800 then
            (case parse_udp (fr_payload fr) of
               Some (Inr d) \<Rightarrow> if ud_src_port d = 67 \<and> ud_dst_port d = 68 then None else Some (fr_payload fr)
             | _ \<Rightarrow> Some (fr_payload fr))
          else None
      | _ \<Rightarrow> None)"

lemma handle_frame_cases:
  obtains (skip) "handle_frame X f st = Some st" "to_tunnel (rc_host_mac X) f = None"
  | (arp) now payload r a where "arp_handle now payload (rx_arp st) = Some (r, a)"
      "handle_frame X f st = Some (st\<lparr>rx_reads := Suc (rx_reads st), rx_arp := a,
         rx_tx := rx_tx st @ (case r of Inr (Some reply) \<Rightarrow> [reply] | _ \<Rightarrow> [])\<rparr>)"
      "to_tunnel (rc_host_mac X) f = None"
  | (deliver) packet where "handle_frame X f st = Some (st\<lparr>rx_sink := rc_deliver X packet (rx_sink st)\<rparr>)"
      "to_tunnel (rc_host_mac X) f = Some packet"
  | (dhcp) src_mac and d :: udp_datagram and r c where "dhcp_handle (rx_dhcp st) (ud_payload d) = Some (r, c)"
      "handle_frame X f st = Some (handle_dhcp_event X src_mac (ud_src_ip d) r (st\<lparr>rx_dhcp := c\<rparr>))"
      "to_tunnel (rc_host_mac X) f = None"
proof -
  obtain p where p: "ethernet_parse f = Some p"
    using ethernet_parse_no_panic by blast
  show thesis
  proof (cases p)
    case (Inl e)
    then show thesis using p by (intro skip) (simp_all add: handle_frame_def to_tunnel_def)
  next
    case (Inr fr)
    let ?mine = "fr_dst fr = rc_host_mac X \<or> is_multicast (fr_dst fr)"
    consider "\<not> ?mine \<or> fr_ethertype fr \<noteq> ETHERTYPE_ARP \<and> fr_ethertype fr \<noteq> ETHERTYPE_IPV4"
      | (a) ?mine "fr_ethertype fr = ETHERTYPE_ARP"
      | (i) ?mine "fr_ethertype fr = ETHERTYPE_IPV4" "fr_ethertype fr \<noteq> ETHERTYPE_ARP"
      by (auto simp: ETHERTYPE_ARP_def ETHERTYPE_IPV4_def)
    then show thesis
    proof cases
      case 1
      then show thesis
        using p Inr by (intro skip) (auto simp: handle_frame_def to_tunnel_def const_simps)
    next
      case a
      obtain r x where h: "arp_handle (rc_clock X (rx_reads st)) (fr_payload fr) (rx_arp st) = Some (r, x)"
        using arp_handle_no_panic by fastforce
      show thesis
      proof (rule arp [OF h])
        show "to_tunnel (rc_host_mac X) f = None"
          using p Inr a by (simp add: to_tunnel_def ETHERTYPE_ARP_def)
        show "handle_frame X f st = Some (st\<lparr>rx_reads := Suc (rx_reads st), rx_arp := x,
            rx_tx := rx_tx st @ (case r of Inr (Some reply) \<Rightarrow> [reply] | _ \<Rightarrow> [])\<rparr>)"
          using p Inr a h by (auto simp: handle_frame_def rx_now_def split: sum.split option.split)
      qed
    next
      case i
      have hf: "handle_frame X f st = handle_ipv4 X (fr_src fr) (fr_payload fr) st"
        using p Inr i by (auto simp: handle_frame_def)
      obtain u where u: "parse_udp (fr_payload fr) = Some u"
        using parse_udp_no_panic by blast
      show thesis
      proof (cases "\<exists>d. u = Inr d \<and> is_dhcp_reply d")
        case True
        then obtain d where d: "u = Inr d" "is_dhcp_reply d" by blast
        obtain r c where "dhcp_handle (rx_dhcp st) (ud_payload d) = Some (r, c)"
          using dhcp_handle_no_panic [of "rx_dhcp st" "ud_payload d"] by fastforce
        then show thesis
          using p Inr i u d by (intro dhcp [of d r c "fr_src fr"])
            (auto simp: hf handle_ipv4_def to_tunnel_def is_dhcp_reply_def const_simps)
      next
        case False
        then show thesis
          using p Inr i u by (intro deliver [of "fr_payload fr"])
            (cases u; auto simp: hf handle_ipv4_def to_tunnel_def is_dhcp_reply_def const_simps Let_def)+
      qed
    qed
  qed
qed

lemma handle_frame_no_panic: "handle_frame X f st \<noteq> None"
  by (cases rule: handle_frame_cases [of X f st]) auto

lemma handle_items_no_panic: "handle_items X items st \<noteq> None"
proof (induction X items st rule: handle_items.induct)
  case (3 X f items st)
  then show ?case using handle_frame_no_panic [of X f st] by auto
qed simp_all

text \<open>The invariants of the thread are shown frame by frame.\<close>

lemma handle_items_induct:
  assumes "handle_items X items st = Some st'" and "P st"
    and "\<And>f st st'. P st \<Longrightarrow> handle_frame X f st = Some st' \<Longrightarrow> P st'"
  shows "P st'"
  using assms(1,2)
proof (induction items arbitrary: st)
  case (Cons i items)
  then show ?case
    by (cases i) (auto simp: bind_eq_Some_conv intro: assms(3))
qed simp

lemma handle_dhcp_event_sink [simp]: "rx_sink (handle_dhcp_event X m i r st) = rx_sink st"
  by (auto simp: handle_dhcp_event_def rx_now_def send_dhcp_def Let_def split: sum.splits dhcp_event.splits)

lemma handle_frame_sink:
  "handle_frame X f st = Some st' \<Longrightarrow>
   rx_sink st' = (case to_tunnel (rc_host_mac X) f of None \<Rightarrow> rx_sink st | Some p \<Rightarrow> rc_deliver X p (rx_sink st))"
  by (cases rule: handle_frame_cases [of X f st]) auto

lemma handle_items_sink:
  "handle_items X (map Inr fs @ tail) st = Some st' \<Longrightarrow> tail = [] \<or> (\<exists>e. tail = [Inl e]) \<Longrightarrow>
   rx_sink st' = fold (rc_deliver X) (List.map_filter (to_tunnel (rc_host_mac X)) fs) (rx_sink st)"
proof (induction fs arbitrary: st)
  case Nil
  then show ?case by (auto simp: map_filter_def)
next
  case (Cons f fs)
  then obtain st1 where "handle_frame X f st = Some st1" "handle_items X (map Inr fs @ tail) st1 = Some st'"
    by (auto simp: bind_eq_Some_conv)
  with Cons.IH [of st1] Cons.prems(2) handle_frame_sink [of X f st st1] show ?case
    by (cases "to_tunnel (rc_host_mac X) f") (auto simp: map_filter_simps)
qed

text \<open>
  C15: The receive path is total and exact. Whatever bytes a bulk transfer holds and whatever state the
  thread is in, handling the transfer returns without a panic. The frames of the transfer, up to
  the first malformed message, are handled in order, and the sink is given exactly the payloads of
  the IPv4 frames that are addressed to this host or to many and are not DHCP replies, in the order
  of the frames and each once.
\<close>

theorem handle_transfer_exact:
  "\<exists>fs tail st'. packet_decode data = Some (map Inr fs @ tail) \<and> (tail = [] \<or> (\<exists>e. tail = [Inl e]))
    \<and> handle_transfer X data st = Some st'
    \<and> rx_sink st' = fold (rc_deliver X) (List.map_filter (to_tunnel (rc_host_mac X)) fs) (rx_sink st)"
proof -
  obtain fs tail where d: "packet_decode data = Some (map Inr fs @ tail)" "tail = [] \<or> (\<exists>e. tail = [Inl e])"
    using packet_decode_carves_any [of data] by blast
  obtain st' where h: "handle_items X (map Inr fs @ tail) st = Some st'"
    using handle_items_no_panic by blast
  have "handle_transfer X data st = Some st'"
    by (simp add: handle_transfer_def d h)
  with d handle_items_sink [OF h d(2)] show ?thesis by blast
qed

subsection \<open>The client, the timer and the ARP state fit together\<close>

definition rx_inv :: "mac_addr \<Rightarrow> 's rx \<Rightarrow> bool" where
  "rx_inv host_mac st \<longleftrightarrow>
     dhcp_inv (rx_dhcp st) \<and> dc_mac (rx_dhcp st) = host_mac \<and> arp_host_mac (rx_arp st) = host_mac
     \<and> DHCP_RETRY_MIN \<le> dt_backoff (rx_timer st) \<and> dt_backoff (rx_timer st) \<le> DHCP_RETRY_MAX
     \<and> (dt_renew_at (rx_timer st) \<noteq> None \<longleftrightarrow> dc_state (rx_dhcp st) = Bound)
     \<and> (\<forall>l. dc_lease (rx_dhcp st) = Some l \<longrightarrow> arp_host_ip (rx_arp st) = le_ip l)"

lemma retry_min_max: "DHCP_RETRY_MIN \<le> DHCP_RETRY_MAX" "0 < DHCP_RETRY_MIN"
  by (simp_all add: DHCP_RETRY_MIN_def DHCP_RETRY_MAX_def from_secs_def)

lemma rx_inv_dhcp:
  assumes "rx_inv h st" and "dhcp_handle (rx_dhcp st) msg = Some (r, c)"
  shows "rx_inv h (handle_dhcp_event X m i r (st\<lparr>rx_dhcp := c\<rparr>))"
proof -
  have c: "dhcp_inv c" "dc_mac c = dc_mac (rx_dhcp st)"
    using dhcp_inv_handle [OF _ assms(2)] dhcp_mac_handle [OF assms(2)] assms(1) by (simp_all add: rx_inv_def)
  from assms(2) show ?thesis
  proof (cases rule: dhcp_handle_cases)
    case quiet
    then show ?thesis using assms(1) by (auto simp: handle_dhcp_event_def)
  next
    case (offer p)
    then show ?thesis using assms(1) c
      by (auto simp: handle_dhcp_event_def rx_inv_def send_dhcp_def)
  next
    case (ack p l)
    then show ?thesis using assms(1) c retry_min_max
      by (auto simp: handle_dhcp_event_def rx_inv_def rx_now_def timer_bound_def arp_set_host_ip_def arp_insert_def Let_def)
  next
    case (nak p)
    then show ?thesis using assms(1) c retry_min_max
      by (auto simp: handle_dhcp_event_def rx_inv_def rx_now_def timer_restart_def Let_def)
  qed
qed

lemma rx_inv_frame:
  assumes "rx_inv h st" and "handle_frame X f st = Some st'"
  shows "rx_inv h st'"
proof (cases rule: handle_frame_cases [of X f st])
  case (arp now payload r a)
  then show ?thesis
    using assms arp_handle_host [OF arp(1)] by (auto simp: rx_inv_def)
next
  case (dhcp src_mac d r c)
  then show ?thesis using assms rx_inv_dhcp by auto
qed (use assms in \<open>auto simp: rx_inv_def\<close>)

lemma rx_inv_transfer:
  assumes "rx_inv h st" and "handle_transfer X data st = Some st'"
  shows "rx_inv h st'"
proof -
  obtain items where "handle_items X items st = Some st'"
    using assms(2) by (auto simp: handle_transfer_def bind_eq_Some_conv)
  then show ?thesis using assms(1) rx_inv_frame by (rule handle_items_induct)
qed

subsection \<open>Frames out\<close>

text \<open>The two kinds of frame the thread queues: a DHCP message to everyone, an ARP reply to its asker.\<close>

definition dhcp_out :: "mac_addr \<Rightarrow> bytes \<Rightarrow> bool" where
  "dhcp_out h f \<longleftrightarrow> (\<exists>fr d. ethernet_parse f = Some (Inr fr) \<and> fr_src fr = h \<and> fr_dst fr = MAC_BROADCAST
     \<and> fr_ethertype fr = 0x0800 \<and> parse_udp (fr_payload fr) = Some (Inr d)
     \<and> ud_src_ip d = IP_UNSPECIFIED \<and> ud_dst_ip d = IP_BROADCAST \<and> ud_src_port d = 68 \<and> ud_dst_port d = 67
     \<and> length (ud_payload d) = 300 \<and> mac_at (ud_payload d) 28 = h
     \<and> dhcp_option (ud_payload d) OPT_MESSAGE_TYPE \<in> {Some [DISCOVER], Some [REQUEST]})"

definition arp_out :: "mac_addr \<Rightarrow> bytes \<Rightarrow> bool" where
  "arp_out h f \<longleftrightarrow> (\<exists>fr p. ethernet_parse f = Some (Inr fr) \<and> fr_src fr = h \<and> fr_ethertype fr = 0x0806
     \<and> arp_parse (fr_payload fr) = Some (Inr p) \<and> ap_op p = ARP_OP_REPLY \<and> ap_sender_mac p = h
     \<and> ap_target_mac p = fr_dst fr)"

definition client_message :: "mac_addr \<Rightarrow> bytes \<Rightarrow> bool" where
  "client_message h msg \<longleftrightarrow> length msg = 300 \<and> mac_at msg 28 = h
     \<and> dhcp_option msg OPT_MESSAGE_TYPE \<in> {Some [DISCOVER], Some [REQUEST]}"

lemma client_message_build:
  "t = DISCOVER \<or> t = REQUEST \<Longrightarrow> client_message (dc_mac c) (dhcp_build c t ciaddr req srv)"
  by (auto simp: client_message_def length_dhcp_build dhcp_build_fixed dhcp_option_build build_options_def OPT_MESSAGE_TYPE_def)

lemma dhcp_out_frame:
  assumes "client_message h msg"
  shows "dhcp_out h (dhcp_frame h msg)"
proof -
  let ?d = "\<lparr>ud_src_ip = IP_UNSPECIFIED, ud_dst_ip = IP_BROADCAST, ud_src_port = CLIENT_PORT,
             ud_dst_port = SERVER_PORT, ud_payload = msg\<rparr>"
  have "length (ud_payload ?d) \<le> 65507"
    using assms by (simp add: client_message_def)
  from udp_wire.dec_through_ethernet [OF this, of MAC_BROADCAST h ETHERTYPE_IPV4] assms show ?thesis
    unfolding dhcp_out_def dhcp_frame_def Let_def client_message_def by (fastforce simp: const_simps)
qed

lemma arp_reply_out:
  assumes "arp_handle now payload a = Some (Inr (Some reply), a')"
  shows "arp_out (arp_host_mac a) reply"
proof -
  obtain p where "reply = ethernet_build (ap_sender_mac p) (arp_host_mac a) ETHERTYPE_ARP (arp_build (arp_reply_to a p))"
    using assms by (auto simp: arp_handle_eq split: if_splits sum.splits)
  with arp_wire.dec_through_ethernet [where a = "arp_reply_to a p" and dst = "ap_sender_mac p"
      and src = "arp_host_mac a" and ty = ETHERTYPE_ARP]
  show ?thesis unfolding arp_out_def by (fastforce simp: arp_reply_to_def ETHERTYPE_ARP_def)
qed

lemma handle_frame_tx:
  assumes "rx_inv (rc_host_mac X) st" and "handle_frame X f st = Some st'"
  shows "\<exists>new. rx_tx st' = rx_tx st @ new \<and> (\<forall>g\<in>set new. dhcp_out (rc_host_mac X) g \<or> arp_out (rc_host_mac X) g)"
proof (cases rule: handle_frame_cases [of X f st])
  case (arp now payload r a)
  then show ?thesis
    using assms arp_reply_out [of now payload "rx_arp st"]
    by (auto simp: rx_inv_def split: sum.splits option.splits)
next
  case (dhcp src_mac d r c)
  from dhcp(1) show ?thesis
  proof (cases rule: dhcp_handle_cases)
    case (offer p)
    then have "client_message (dc_mac c) (dhcp_build c REQUEST IP_UNSPECIFIED (Some (pd_yiaddr p)) (pd_server_id p))"
      by (intro client_message_build) simp
    moreover have "dc_mac c = rc_host_mac X"
      using assms(1) dhcp_mac_handle [OF dhcp(1)] by (simp add: rx_inv_def)
    ultimately show ?thesis
      using dhcp assms offer dhcp_out_frame by (auto simp: handle_dhcp_event_def send_dhcp_def)
  qed (use dhcp assms in \<open>auto simp: handle_dhcp_event_def rx_now_def Let_def\<close>)
qed (use assms in auto)

subsection \<open>The timer\<close>

lemma timer_due_expired:
  assumes "rx_inv h st" and "dt_next (rx_timer st) \<le> now1"
  shows "\<exists>m t c. timer_due now1 now2 (rx_timer st) (rx_dhcp st) = (Some m, t, c)
    \<and> client_message h m \<and> dc_mac c = h \<and> dhcp_inv c \<and> dc_lease c = dc_lease (rx_dhcp st)
    \<and> dc_state c \<in> {Selecting, Requesting, Renewing}
    \<and> dt_renew_at t = None \<and> dt_next t = now2 + dt_backoff t
    \<and> dt_backoff t = (if dc_state (rx_dhcp st) = Bound then DHCP_RETRY_MIN
                      else min (dt_backoff (rx_timer st) * 2) DHCP_RETRY_MAX)"
proof -
  note inv = assms(1) [unfolded rx_inv_def]
  let ?c = "rx_dhcp st"
  show ?thesis
  proof (cases "dc_state ?c = Bound")
    case True
    then obtain l where l: "dc_lease ?c = Some l" using inv by (auto simp: dhcp_inv_def)
    have "client_message (dc_mac (?c\<lparr>dc_state := Renewing\<rparr>)) (dhcp_build (?c\<lparr>dc_state := Renewing\<rparr>) REQUEST (le_ip l) None None)"
      by (rule client_message_build) simp
    with True l inv assms(2) dhcp_inv_renew [of ?c] show ?thesis
      by (auto simp: timer_due_def dhcp_renew_def Let_def)
  next
    case False
    then have none: "dt_renew_at (rx_timer st) = None" using inv by auto
    show ?thesis
    proof (cases "dc_state ?c = Init")
      case True
      then have "dhcp_retransmit ?c = None" by (simp add: dhcp_retransmit_def)
      moreover have "client_message (dc_mac (snd (dhcp_discover ?c))) (fst (dhcp_discover ?c))"
        unfolding dhcp_discover_def Let_def fst_conv snd_conv by (rule client_message_build) simp
      ultimately show ?thesis
        using True none inv assms(2) dhcp_inv_discover [of ?c]
        by (auto simp: timer_due_def Let_def dhcp_discover_def)
    next
      case waiting: False
      then obtain m where m: "dhcp_retransmit ?c = Some m"
        using False inv dhcp_retransmit_None [of ?c] by auto
      then have "client_message (dc_mac ?c) m"
        using client_message_build [of DISCOVER ?c] client_message_build [of REQUEST ?c]
        by (auto simp: dhcp_retransmit_def split: dhcp_state.splits option.splits)
      with m none inv assms(2) False waiting show ?thesis
        by (cases "dc_state ?c") (auto simp: timer_due_def Let_def)
    qed
  qed
qed

lemma timer_due_early: "now1 < dt_next t \<Longrightarrow> timer_due now1 now2 t c = (None, t, c)"
  by (simp add: timer_due_def)

lemma backoff_step:
  "DHCP_RETRY_MIN \<le> b \<Longrightarrow> DHCP_RETRY_MIN \<le> min (b * 2) DHCP_RETRY_MAX \<and> min (b * 2) DHCP_RETRY_MAX \<le> DHCP_RETRY_MAX"
  using retry_min_max by auto

lemma rx_due_inv:
  assumes "rx_inv (rc_host_mac X) st"
  shows "rx_inv (rc_host_mac X) (rx_due X st)"
proof -
  define st2 where "st2 = st\<lparr>rx_reads := Suc (Suc (rx_reads st))\<rparr>"
  have inv: "rx_inv (rc_host_mac X) st2"
    using assms by (simp add: st2_def rx_inv_def)
  let ?now1 = "rc_clock X (rx_reads st)" and ?now2 = "rc_clock X (Suc (rx_reads st))"
  have due: "rx_due X st = (case timer_due ?now1 ?now2 (rx_timer st2) (rx_dhcp st2) of (m, t, c) \<Rightarrow>
      (case m of Some msg \<Rightarrow> send_dhcp X msg (st2\<lparr>rx_timer := t, rx_dhcp := c\<rparr>)
       | None \<Rightarrow> st2\<lparr>rx_timer := t, rx_dhcp := c\<rparr>))"
    by (simp add: rx_due_def rx_now_def st2_def Let_def split: prod.split option.split)
  show ?thesis
  proof (cases "?now1 < dt_next (rx_timer st2)")
    case True
    then show ?thesis using inv by (simp add: due timer_due_early)
  next
    case False
    then obtain m t c where "timer_due ?now1 ?now2 (rx_timer st2) (rx_dhcp st2) = (Some m, t, c)"
      "dc_mac c = rc_host_mac X" "dhcp_inv c" "dc_lease c = dc_lease (rx_dhcp st2)"
      "dc_state c \<in> {Selecting, Requesting, Renewing}" "dt_renew_at t = None"
      "dt_backoff t = (if dc_state (rx_dhcp st2) = Bound then DHCP_RETRY_MIN
                      else min (dt_backoff (rx_timer st2) * 2) DHCP_RETRY_MAX)"
      using timer_due_expired [OF inv, of ?now1 ?now2] by auto
    with inv backoff_step [of "dt_backoff (rx_timer st2)"] retry_min_max show ?thesis
      by (auto simp: due rx_inv_def send_dhcp_def)
  qed
qed


subsection \<open>The thread\<close>

text \<open>
  The executions of the thread among the others. Between two turns the transmit thread may take
  frames from the queue, the daemon may take events and exchange the sink, and the tunnel's reader may
  ask the ARP cache for a request.
\<close>

inductive rx_reach ::
  "'s rx_context \<Rightarrow> 'e in_endpoint \<Rightarrow> usize \<Rightarrow> ('s, 'e) rx_thread \<Rightarrow> bool" for X E n where
  starts: "ie_pending E ep = 0 \<Longrightarrow> rx_reach X E n (rx_start X E n ep sink)"
| turns: "rx_reach X E n th \<Longrightarrow> rx_turn X E n th = Some (th', True) \<Longrightarrow> rx_reach X E n th'"
| frames_taken: "rx_reach X E n th \<Longrightarrow> rx_reach X E n (th\<lparr>th_rx := (th_rx th)\<lparr>rx_tx := drop k (rx_tx (th_rx th))\<rparr>\<rparr>)"
| events_taken: "rx_reach X E n th \<Longrightarrow>
    rx_reach X E n (th\<lparr>th_rx := (th_rx th)\<lparr>rx_events := drop k (rx_events (th_rx th))\<rparr>\<rparr>)"
| sink_changed: "rx_reach X E n th \<Longrightarrow> rx_reach X E n (th\<lparr>th_rx := (th_rx th)\<lparr>rx_sink := sink\<rparr>\<rparr>)"
| arp_asked: "rx_reach X E n th \<Longrightarrow>
    rx_reach X E n (th\<lparr>th_rx := (th_rx th)\<lparr>rx_arp := snd (arp_request now ip (rx_arp (th_rx th)))\<rparr>\<rparr>)"

definition thread_inv :: "'s rx_context \<Rightarrow> 'e in_endpoint \<Rightarrow> ('s, 'e) rx_thread \<Rightarrow> bool" where
  "thread_inv X E th \<longleftrightarrow> rx_inv (rc_host_mac X) (th_rx th) \<and> ie_pending E (th_in th) = RX_DEPTH
     \<and> unat (th_stalls th) \<le> 5"

lemma handle_transfer_no_panic: "handle_transfer X data st \<noteq> None"
  using packet_decode_carves_any [of data] handle_items_no_panic [of X]
  by (auto simp: handle_transfer_def)

lemma rx_start_inv:
  assumes "in_endpoint_ok E" and "ie_pending E ep = 0"
  shows "thread_inv X E (rx_start X E n ep sink)"
  using assms retry_min_max dhcp_inv_discover [OF dhcp_inv_new, of "rc_host_mac X" "mac_xid (rc_host_mac X)"]
  by (simp add: thread_inv_def rx_start_def rx_inv_def send_dhcp_def timer_new_def arp_new_def pending_submit_reads
      dhcp_discover_def dhcp_new_def Let_def)

lemma stalls_step: "unat (s :: u32) \<le> 5 \<Longrightarrow> \<not> MAX_CONSECUTIVE_STALLS < s + 1 \<Longrightarrow> unat (s + 1) \<le> 5"
  by (simp add: word_less_nat_alt MAX_CONSECUTIVE_STALLS_def)

text \<open>The steps of a turn, one after the other, are the turn.\<close>

lemma rx_turn_steps:
  "rx_turn X E n th =
     (case rx_wait_step E n th of
        None \<Rightarrow> None
      | Some (th, RxItems items) \<Rightarrow>
          map_option (\<lambda>st. (th\<lparr>th_rx := rx_due X st\<rparr>, True)) (handle_items X items (th_rx th))
      | Some (th, RxEnded) \<Rightarrow> Some (th, False)
      | Some (th, _) \<Rightarrow> Some (th\<lparr>th_rx := rx_due X (th_rx th)\<rparr>, True))"
  by (auto simp: rx_turn_def rx_wait_step_def handle_transfer_def Let_def option.map_comp comp_def
      split: prod.splits option.splits sum.splits bind_splits)

lemma rx_wait_step_cases:
  assumes "in_endpoint_ok E" and "thread_inv X E th"
  obtains (items) items th' where "rx_wait_step E n th = Some (th', RxItems items)" "th_rx th' = th_rx th" "thread_inv X E th'"
  | (timer) th' where "rx_wait_step E n th = Some (th', RxTimer)" "th_rx th' = th_rx th" "thread_inv X E th'"
  | (fails) th' msg where "rx_wait_step E n th = Some (th', RxEnded)"
      "th_rx th' = (th_rx th)\<lparr>rx_events := rx_events (th_rx th) @ [LinkFailed msg]\<rparr>"
proof -
  note ok = in_endpoint_okD [OF assms(1)]
  note inv = assms(2) [unfolded thread_inv_def]
  obtain r ep where w: "ie_wait E TICK (th_in th) = (r, ep)" by fastforce
  show thesis
  proof (cases r)
    case None
    then have "ie_pending E ep = RX_DEPTH" using inv w ok(2) by simp
    with None w inv show thesis by (intro timer [of "th\<lparr>th_in := ep\<rparr>"]) (simp_all add: rx_wait_step_def thread_inv_def)
  next
    case (Some x)
    then have pend: "ie_pending E (ie_submit E n ep) = RX_DEPTH" using inv w ok(1) ok(3) [of TICK "th_in th" x ep] by simp
    show thesis
    proof (cases x)
      case (Inr data)
      obtain its where "packet_decode data = Some its" using packet_decode_carves_any [of data] by blast
      with Some Inr w inv pend show thesis by (intro items [of "th\<lparr>th_stalls := 0, th_in := ie_submit E n ep\<rparr>" its]) (simp_all add: rx_wait_step_def thread_inv_def)
    next
      case (Inl e)
      consider (fatal) "is_fatal e" | (stall) "e = UsbStall" | (other) "\<not> is_fatal e" "e \<noteq> UsbStall" by blast
      then show thesis
      proof cases
        case fatal
        with Some Inl w show thesis by (intro fails [of "rx_fail (usb_error_string e) (th\<lparr>th_in := ep\<rparr>)" "usb_error_string e"]) (simp_all add: rx_wait_step_def rx_fail_def)
      next
        case other
        with Some Inl w inv pend show thesis by (intro timer [of "th\<lparr>th_in := ie_submit E n ep\<rparr>"]) (simp_all add: rx_wait_step_def thread_inv_def)
      next
        case stall
        obtain y ep2 where rec: "recover_bulk_in E n ep = (y, ep2)" by fastforce
        let ?th = "th\<lparr>th_in := ep, th_stalls := th_stalls th + 1\<rparr>"
        show thesis
        proof (cases "MAX_CONSECUTIVE_STALLS < th_stalls th + 1")
          case True
          with stall Some Inl w show thesis
            by (intro fails [of "rx_fail (''bulk IN endpoint stalled '' @ nat_string (unat (th_stalls th + 1))
                  @ '' times in a row'') ?th"]) (simp_all add: rx_wait_step_def rx_fail_def)
        next
          case few: False
          show thesis
          proof (cases y)
            case bad: (Inl e2)
            with stall few Some Inl w rec show thesis
              by (intro fails [of "rx_fail (usb_error_string e2) (?th\<lparr>th_in := ep2\<rparr>)" "usb_error_string e2"]) (simp_all add: rx_wait_step_def rx_fail_def)
          next
            case good: (Inr u)
            have "ie_pending E ep2 = RX_DEPTH"
              using rec good by (intro recover_bulk_in_pending [OF assms(1)]) simp
            with stall few Some Inl w rec good inv stalls_step [OF _ few] show thesis
              by (intro timer [of "?th\<lparr>th_in := ep2\<rparr>"]) (simp_all add: rx_wait_step_def thread_inv_def)
          qed
        qed
      qed
    qed
  qed
qed

text \<open>A turn of a thread that satisfies the invariant: either it goes on, or the failure is reported.\<close>

lemma rx_turn_spec:
  assumes "in_endpoint_ok E" and "thread_inv X E th"
  obtains (goes_on) th' where "rx_turn X E n th = Some (th', True)" "thread_inv X E th'"
  | (fails) th' msg where "rx_turn X E n th = Some (th', False)"
      "rx_events (th_rx th') = rx_events (th_rx th) @ [LinkFailed msg]" "rx_tx (th_rx th') = rx_tx (th_rx th)"
  using assms
proof (cases rule: rx_wait_step_cases [where n = n])
  case (items its th')
  obtain st where h: "handle_items X its (th_rx th') = Some st"
    using handle_items_no_panic by blast
  have "rx_inv (rc_host_mac X) (rx_due X st)"
    using items(3) by (intro rx_due_inv handle_items_induct [OF h, where P = "rx_inv (rc_host_mac X)"])
      (auto simp: thread_inv_def intro: rx_inv_frame)
  with items h show thesis
    by (intro goes_on [of "th'\<lparr>th_rx := rx_due X st\<rparr>"]) (simp_all add: rx_turn_steps thread_inv_def)
next
  case (timer th')
  with rx_due_inv [of X "th_rx th'"] show thesis
    by (intro goes_on [of "th'\<lparr>th_rx := rx_due X (th_rx th')\<rparr>"]) (simp_all add: rx_turn_steps thread_inv_def)
next
  case (fails th' msg)
  then show thesis by (intro that(2) [of th' msg]) (simp_all add: rx_turn_steps)
qed

lemma thread_inv_reach:
  assumes "rx_reach X E n th" and "in_endpoint_ok E"
  shows "thread_inv X E th"
  using assms(1)
proof induction
  case (starts ep sink)
  then show ?case using assms(2) by (intro rx_start_inv)
next
  case (turns th th')
  from turns(3) show ?case
    by (cases rule: rx_turn_spec [OF assms(2), of X th n]) (use turns(2) in auto)
next
  case (arp_asked th now ip)
  then show ?case by (auto simp: thread_inv_def rx_inv_def arp_request_def)
qed (auto simp: thread_inv_def rx_inv_def)

text \<open>
  C11: The receive thread. In every reachable state, whatever the device sends and the other threads do
  meanwhile, exactly RX_DEPTH reads are queued, at most five stalls in a row have been tolerated,
  and the client, the timer and the ARP state agree: bound means that a renewal is scheduled and
  vice versa, the ARP host address is the leased one, the back-off lies between one and sixteen
  seconds. The next turn returns without a panic; the thread ends only with a failure reported to
  the daemon, once and as the last event.
\<close>

theorem rx_thread_correct:
  assumes "in_endpoint_ok E" and "rx_reach X E n th"
  shows "ie_pending E (th_in th) = RX_DEPTH \<and> unat (th_stalls th) \<le> 5
    \<and> (dc_state (rx_dhcp (th_rx th)) = Bound \<longleftrightarrow> dt_renew_at (rx_timer (th_rx th)) \<noteq> None)
    \<and> (\<forall>l. dc_lease (rx_dhcp (th_rx th)) = Some l \<longrightarrow> arp_host_ip (rx_arp (th_rx th)) = le_ip l)
    \<and> from_secs 1 \<le> dt_backoff (rx_timer (th_rx th)) \<and> dt_backoff (rx_timer (th_rx th)) \<le> from_secs 16
    \<and> (\<exists>th' running. rx_turn X E n th = Some (th', running)
        \<and> (if running then rx_reach X E n th'
           else \<exists>msg. rx_events (th_rx th') = rx_events (th_rx th) @ [LinkFailed msg]))"
proof -
  have inv: "thread_inv X E th"
    using thread_inv_reach [OF assms(2,1)] .
  have "\<exists>th' running. rx_turn X E n th = Some (th', running)
        \<and> (if running then rx_reach X E n th'
           else \<exists>msg. rx_events (th_rx th') = rx_events (th_rx th) @ [LinkFailed msg])"
    using assms(1) inv
  proof (cases rule: rx_turn_spec [where n = n])
    case (goes_on th')
    then show ?thesis using rx_reach.turns [OF assms(2)] by auto
  qed auto
  with inv show ?thesis
    by (auto simp: thread_inv_def rx_inv_def DHCP_RETRY_MIN_def DHCP_RETRY_MAX_def)
qed

text \<open>A context for the witnesses: the sink keeps the packets, the clock ticks once a second.\<close>

definition demo_context :: "bytes list rx_context" where
  "demo_context = \<lparr>rc_host_mac = MacAddr 2 2 36 143 176 205, rc_deliver = \<lambda>p ps. ps @ [p],
                   rc_clock = \<lambda>i. from_secs i\<rparr>"

lemma demo_reach: "rx_reach demo_context read_queue 16384 (rx_start demo_context read_queue 16384 [] [])"
  by (rule rx_reach.starts) (simp add: read_queue_def)

theorem rx_thread_correct_witness:
  "in_endpoint_ok read_queue
   \<and> rx_reach demo_context read_queue 16384 (rx_start demo_context read_queue 16384 [] [])
   \<and> ie_pending read_queue (th_in (rx_start demo_context read_queue 16384 [] [])) = RX_DEPTH"
  using read_queue_ok demo_reach rx_thread_correct [OF read_queue_ok demo_reach] by blast


subsection \<open>Every queued frame is ours\<close>

definition queue_ours :: "mac_addr \<Rightarrow> 's rx \<Rightarrow> bool" where
  "queue_ours h st \<longleftrightarrow> (\<forall>f\<in>set (rx_tx st). dhcp_out h f \<or> arp_out h f)"

lemma queue_ours_transfer:
  assumes "rx_inv (rc_host_mac X) st" and "queue_ours (rc_host_mac X) st" and "handle_transfer X data st = Some st'"
  shows "queue_ours (rc_host_mac X) st'"
proof -
  obtain items where items: "handle_items X items st = Some st'"
    using assms(3) by (auto simp: handle_transfer_def bind_eq_Some_conv)
  let ?P = "\<lambda>st. rx_inv (rc_host_mac X) st \<and> queue_ours (rc_host_mac X) st"
  have "?P st'"
  proof (rule handle_items_induct [where P = ?P, OF items])
    show "?P st" using assms by simp
    fix f st st'
    assume "?P st" "handle_frame X f st = Some st'"
    with handle_frame_tx [of X st f st'] rx_inv_frame [of "rc_host_mac X" st X f st'] show "?P st'"
      by (auto simp: queue_ours_def)
  qed
  then show ?thesis by simp
qed

lemma rx_due_tx:
  assumes "rx_inv (rc_host_mac X) st"
  shows "\<exists>new. rx_tx (rx_due X st) = rx_tx st @ new \<and> (\<forall>g\<in>set new. dhcp_out (rc_host_mac X) g \<or> arp_out (rc_host_mac X) g)"
proof -
  let ?now1 = "rc_clock X (rx_reads st)" and ?now2 = "rc_clock X (Suc (rx_reads st))"
  have tx: "rx_tx (rx_due X st) = rx_tx st @ (case fst (timer_due ?now1 ?now2 (rx_timer st) (rx_dhcp st)) of
      None \<Rightarrow> [] | Some m \<Rightarrow> [dhcp_frame (rc_host_mac X) m])"
    by (simp add: rx_due_def rx_now_def send_dhcp_def Let_def split: prod.split option.split)
  show ?thesis
  proof (cases "?now1 < dt_next (rx_timer st)")
    case True
    then show ?thesis by (simp add: tx timer_due_early)
  next
    case False
    then obtain m t c where "timer_due ?now1 ?now2 (rx_timer st) (rx_dhcp st) = (Some m, t, c)"
      "client_message (rc_host_mac X) m"
      using timer_due_expired [OF assms(1), of ?now1 ?now2] by auto
    with dhcp_out_frame show ?thesis by (auto simp: tx)
  qed
qed

lemma queue_ours_due:
  "rx_inv (rc_host_mac X) st \<Longrightarrow> queue_ours (rc_host_mac X) st \<Longrightarrow> queue_ours (rc_host_mac X) (rx_due X st)"
  using rx_due_tx [of X st] by (auto simp: queue_ours_def)

lemma rx_start_tx:
  "rx_tx (th_rx (rx_start X E n ep sink)) =
     [dhcp_frame (rc_host_mac X) (fst (dhcp_discover (dhcp_new (rc_host_mac X) (mac_xid (rc_host_mac X)))))]"
  by (simp add: rx_start_def send_dhcp_def Let_def case_prod_beta)

lemma queue_ours_start: "queue_ours (rc_host_mac X) (th_rx (rx_start X E n ep sink))"
proof -
  let ?c = "dhcp_new (rc_host_mac X) (mac_xid (rc_host_mac X))"
  have "client_message (dc_mac (snd (dhcp_discover ?c))) (fst (dhcp_discover ?c))"
    unfolding dhcp_discover_def Let_def fst_conv snd_conv by (rule client_message_build) simp
  then have "dhcp_out (rc_host_mac X) (dhcp_frame (rc_host_mac X) (fst (dhcp_discover ?c)))"
    by (intro dhcp_out_frame) simp
  then show ?thesis by (simp add: queue_ours_def rx_start_tx)
qed

lemma rx_turn_queue:
  assumes "rx_turn X E n th = Some (th', True)" and "rx_inv (rc_host_mac X) (th_rx th)"
    and "queue_ours (rc_host_mac X) (th_rx th)"
  shows "queue_ours (rc_host_mac X) (th_rx th')"
proof -
  consider (same) "th_rx th' = rx_due X (th_rx th)"
    | (data) data st where "handle_transfer X data (th_rx th) = Some st" "th_rx th' = rx_due X st"
    using assms(1) by (auto simp: rx_turn_def Let_def split: prod.splits option.splits sum.splits if_splits)
  then show ?thesis
  proof cases
    case same
    then show ?thesis using queue_ours_due [OF assms(2,3)] by simp
  next
    case data
    then show ?thesis
      using queue_ours_due [OF rx_inv_transfer [OF assms(2) data(1)] queue_ours_transfer [OF assms(2,3) data(1)]]
      by simp
  qed
qed

text \<open>
  What the receive thread sends. In every reachable state each frame in the transmit queue is a
  well-formed Ethernet frame with this host's address as its source, and is either a DHCP message of
  300 bytes, from 0.0.0.0 port 68 to 255.255.255.255 port 67, broadcast, with this host's hardware
  address in it and of type DISCOVER or REQUEST, or an ARP reply that names this host and is
  addressed to the one it answers. The renewal REQUEST is among the first kind: it is broadcast too.
\<close>

lemma rx_queue_ours:
  assumes "in_endpoint_ok E" and "rx_reach X E n th" and "f \<in> set (rx_tx (th_rx th))"
  shows "dhcp_out (rc_host_mac X) f \<or> arp_out (rc_host_mac X) f"
proof -
  from assms(2) have "queue_ours (rc_host_mac X) (th_rx th)"
  proof induction
    case (starts ep sink)
    show ?case by (rule queue_ours_start)
  next
    case (turns th th')
    then show ?case
      using rx_turn_queue thread_inv_reach [OF turns(1) assms(1)] by (auto simp: thread_inv_def)
  qed (auto simp: queue_ours_def dest: in_set_dropD)
  with assms(3) show ?thesis by (simp add: queue_ours_def)
qed

lemma rx_queue_ours_witness:
  "\<exists>f. f \<in> set (rx_tx (th_rx (rx_start demo_context read_queue 16384 [] [])))
     \<and> (dhcp_out (rc_host_mac demo_context) f \<or> arp_out (rc_host_mac demo_context) f)"
proof -
  obtain f where f: "f \<in> set (rx_tx (th_rx (rx_start demo_context read_queue 16384 [] [])))"
    by (simp add: rx_start_tx)
  from f rx_queue_ours [OF read_queue_ok demo_reach f] show ?thesis by blast
qed

subsection \<open>The sink's accounts\<close>

datatype 'k sink_call = SinkAttach 'k | SinkDetach | SinkDeliver bytes

fun sink_step :: "(bytes \<Rightarrow> 'k \<Rightarrow> 'k) \<Rightarrow> 'k sink_call \<Rightarrow> 'k switchable_sink \<Rightarrow> 'k switchable_sink" where
  "sink_step deliver (SinkAttach k) s = sink_attach k s"
| "sink_step deliver SinkDetach s = sink_detach s"
| "sink_step deliver (SinkDeliver p) s = sink_deliver deliver p s"

text \<open>
  The specification: the packets that reached each sink attached so far, the latest first, with
  whether the latest is still attached, and the number that met no sink.
\<close>

record 'k sink_history =
  sh_served :: "('k \<times> bytes list) list"
  sh_attached :: bool
  sh_lost :: nat

fun history_step :: "'k sink_call \<Rightarrow> 'k sink_history \<Rightarrow> 'k sink_history" where
  "history_step (SinkAttach k) h = h\<lparr>sh_served := (k, []) # sh_served h, sh_attached := True\<rparr>"
| "history_step SinkDetach h = h\<lparr>sh_attached := False\<rparr>"
| "history_step (SinkDeliver p) h =
     (if sh_attached h then
        (case sh_served h of [] \<Rightarrow> h | (k, ps) # rest \<Rightarrow> h\<lparr>sh_served := (k, ps @ [p]) # rest\<rparr>)
      else h\<lparr>sh_lost := Suc (sh_lost h)\<rparr>)"

definition history_new :: "'k sink_history" where
  "history_new = \<lparr>sh_served = [], sh_attached = False, sh_lost = 0\<rparr>"

definition sink_refines :: "(bytes \<Rightarrow> 'k \<Rightarrow> 'k) \<Rightarrow> 'k switchable_sink \<Rightarrow> 'k sink_history \<Rightarrow> bool" where
  "sink_refines deliver s h \<longleftrightarrow>
     (sh_attached h \<longrightarrow> sh_served h \<noteq> [])
     \<and> sk_inner s = (if sh_attached h then Some (fold deliver (snd (hd (sh_served h))) (fst (hd (sh_served h)))) else None)
     \<and> sk_delivered s = of_nat (length (concat (map snd (sh_served h))))
     \<and> sk_bytes_in s = of_nat (length (concat (concat (map snd (sh_served h)))))
     \<and> sk_dropped s = of_nat (sh_lost h)"

lemma sink_refines_step:
  "sink_refines deliver s h \<Longrightarrow> sink_refines deliver (sink_step deliver c s) (history_step c h)"
proof (cases c)
  case (SinkDeliver p)
  assume r: "sink_refines deliver s h"
  show ?thesis
  proof (cases "sh_attached h")
    case True
    with r obtain k ps rest where "sh_served h = (k, ps) # rest"
      by (cases "sh_served h") (auto simp: sink_refines_def)
    with r True SinkDeliver show ?thesis
      by (simp add: sink_refines_def sink_deliver_def)
  qed (use r SinkDeliver in \<open>simp add: sink_refines_def sink_deliver_def\<close>)
qed (simp_all add: sink_refines_def sink_attach_def sink_detach_def)

lemma sink_refines_fold:
  "sink_refines deliver (fold (sink_step deliver) calls sink_new) (fold history_step calls history_new)"
proof -
  have "sink_refines deliver s h \<Longrightarrow> sink_refines deliver (fold (sink_step deliver) calls s) (fold history_step calls h)"
    for s h
    by (induction calls arbitrary: s h) (simp_all add: sink_refines_step)
  moreover have "sink_refines deliver sink_new history_new"
    by (simp add: sink_refines_def sink_new_def history_new_def)
  ultimately show ?thesis by blast
qed

text \<open>
  The switchable sink keeps its accounts over any sequence of attaching, detaching and delivering:
  each sink gets exactly the packets delivered while it was attached, in order; the counters are the
  numbers of packets and bytes that reached a sink and of packets that met none, modulo their
  width.
\<close>

lemma switchable_sink_refines:
  "sink_refines deliver (fold (sink_step deliver) calls sink_new) (fold history_step calls history_new)"
  by (rule sink_refines_fold)

subsection \<open>A DHCP message through the layers\<close>

text \<open>A transfer as the phone sends it: one RNDIS message with an Ethernet, IPv4 and UDP packet.\<close>

definition phone_transfer :: "mac_addr \<Rightarrow> mac_addr \<Rightarrow> ipv4_addr \<Rightarrow> ipv4_addr \<Rightarrow> bytes \<Rightarrow> bytes" where
  "phone_transfer dst phone srv ip msg =
     packet_append [] (ethernet_build dst phone ETHERTYPE_IPV4
       (build_udp \<lparr>ud_src_ip = srv, ud_dst_ip = ip, ud_src_port = SERVER_PORT, ud_dst_port = CLIENT_PORT,
                   ud_payload = msg\<rparr> 0)) 1"

lemma length_build_udp: "length (build_udp d i) = 28 + length (ud_payload d)"
  by (simp add: build_udp_eq)

lemma handle_transfer_phone:
  assumes "length msg \<le> 65507" and "dst = rc_host_mac X \<or> is_multicast dst"
    and "dhcp_handle (rx_dhcp st) msg = Some (r, c)"
  shows "handle_transfer X (phone_transfer dst phone srv ip msg) st =
    Some (handle_dhcp_event X phone srv r (st\<lparr>rx_dhcp := c\<rparr>))"
proof -
  let ?d = "\<lparr>ud_src_ip = srv, ud_dst_ip = ip, ud_src_port = SERVER_PORT, ud_dst_port = CLIENT_PORT, ud_payload = msg\<rparr>"
  let ?f = "ethernet_build dst phone ETHERTYPE_IPV4 (build_udp ?d 0)"
  have ok: "length (ud_payload ?d) \<le> 65507" using assms(1) by simp
  obtain fr where fr: "ethernet_parse ?f = Some (Inr fr)" "fr_dst fr = dst" "fr_src fr = phone"
    "fr_ethertype fr = ETHERTYPE_IPV4" "parse_udp (fr_payload fr) = Some (Inr ?d)"
    using udp_wire.dec_through_ethernet [OF ok, of dst phone ETHERTYPE_IPV4] by blast
  have "length ?f < 70000"
    using assms(1) by (simp add: length_ethernet_build length_build_udp)
  then have "packet_len 1 ?f < 2 ^ 32"
    using packet_len_less [of 1 ?f] by simp
  then have "packet_decode (phone_transfer dst phone srv ip msg) = Some [Inr ?f]"
    using packet_decode_msgs [of "[?f]" 1 "[]"] by (simp add: phone_transfer_def packet_append_eq)
  moreover have "ETHERTYPE_IPV4 \<noteq> ETHERTYPE_ARP" "is_dhcp_reply ?d"
    by (simp_all add: const_simps is_dhcp_reply_def)
  ultimately show ?thesis
    using fr assms(2,3) by (auto simp: handle_transfer_def handle_frame_def handle_ipv4_def)
qed

end
