(* ===== verification/Tunnel.thy ===== *)
theory Tunnel
  imports Arp Dhcp "HOL-Library.Signed_Division"
begin

text \<open>
  The tunnel side: \<^verbatim>\<open>src/src/tunnel.rs\<close>, \<^verbatim>\<open>src/src/tun/utun.rs\<close>,
  \<^verbatim>\<open>src/src/tun/net.rs\<close> and \<^verbatim>\<open>src/src/tun/dns.rs\<close>. The operating system is a
  parameter: a record of functions on its state for opening a unit, running a command, and setting
  and removing keys of the dynamic store. What a value drops at the end of its scope (\<open>Routes\<close>,
  \<open>Dns\<close>, the descriptor) is written out. Shown here: packets pass the address-family header
  unchanged, the reader sends each packet to the gateway's hardware address or asks for it, the
  search for a free unit, the network address of a lease, and that bringing the tunnel up and taking
  it down leaves the system as it was, on every path, failures included.
\<close>

subsection \<open>Packets in and out of utun\<close>

definition AF_HEADER_LEN :: usize where [const_simps]: "AF_HEADER_LEN = 4"
definition AF_INET :: u32 where [const_simps]: "AF_INET = 2"
definition AF_INET6 :: u32 where [const_simps]: "AF_INET6 = 30"

text \<open>
  \<open>Utun::read\<close>: \<open>raw\<close> is what the system call put at the front of the buffer, or
  \<open>None\<close> for its failure. The result is the length and the buffer.
\<close>

definition utun_read :: "bytes option \<Rightarrow> bytes \<Rightarrow> (unit + usize) \<times> bytes" where
  "utun_read raw buf =
     (case raw of
        None \<Rightarrow> (Inl (), buf)
      | Some data \<Rightarrow>
          (let buf = overwrite 0 data buf; n = length data in
           if n < AF_HEADER_LEN then (Inr 0, buf)
           else (Inr (n - AF_HEADER_LEN), overwrite 0 (take (n - AF_HEADER_LEN) (drop AF_HEADER_LEN buf)) buf)))"

text \<open>\<open>Utun::write\<close>: what goes to \<open>writev\<close>; \<open>None\<close> when nothing is written.\<close>

definition utun_write :: "bytes \<Rightarrow> bytes option" where
  "utun_write packet =
     (case packet of
        [] \<Rightarrow> None
      | b # _ \<Rightarrow>
          (if drop_bit 4 b = 4 then Some (to_be32 AF_INET @ packet)
           else if drop_bit 4 b = 6 then Some (to_be32 AF_INET6 @ packet)
           else None))"

text \<open>
  \<open>UtunSink::deliver\<close>, the consumer that the daemon attaches to the sink, with what was written to the
  descriptor. A packet that is not written is dropped.
\<close>

definition utun_sink_deliver :: "bytes \<Rightarrow> bytes list \<Rightarrow> bytes list" where
  "utun_sink_deliver packet written = (case utun_write packet of None \<Rightarrow> written | Some raw \<Rightarrow> written @ [raw])"

subsection \<open>The reader\<close>

definition DEFAULT_MTU :: u16 where [const_simps]: "DEFAULT_MTU = 1500"

text \<open>
  One turn of the reader: what it queues for transmission, and the ARP state. The clock is read
  once for the lookup and once more for the request.
\<close>

definition reader_turn ::
  "mac_addr \<Rightarrow> ipv4_addr \<Rightarrow> instant \<Rightarrow> instant \<Rightarrow> bytes option \<Rightarrow> bytes \<Rightarrow> arp
   \<Rightarrow> (bytes list \<times> bytes \<times> arp) option" where
  "reader_turn host_mac gateway now1 now2 raw buf arp =
     (case utun_read raw buf of
        (Inl e, buf) \<Rightarrow> Some ([], buf, arp)
      | (Inr len, buf) \<Rightarrow>
          if len = 0 then Some ([], buf, arp)
          else
            (case arp_lookup now1 arp gateway of
               None \<Rightarrow>
                 (case arp_request now2 gateway arp of
                    (Some request, arp) \<Rightarrow> Some ([request], buf, arp)
                  | (None, arp) \<Rightarrow> Some ([], buf, arp))
             | Some gateway_mac \<Rightarrow> do {
                 packet \<leftarrow> slice 0 len buf;
                 Some ([ethernet_build gateway_mac host_mac ETHERTYPE_IPV4 packet], buf, arp)
               }))"

subsection \<open>Addresses\<close>

definition subnet_of :: "ipv4_addr \<Rightarrow> ipv4_addr \<Rightarrow> ipv4_addr" where
  "subnet_of ip netmask = ip_of_u32 (u32_of_ip ip AND u32_of_ip netmask)"

fun ip_string :: "ipv4_addr \<Rightarrow> string" where
  "ip_string (Ipv4Addr a b c d) =
     nat_string (unat a) @ ''.'' @ nat_string (unat b) @ ''.'' @ nat_string (unat c) @ ''.'' @ nat_string (unat d)"

subsection \<open>The system\<close>

datatype errno = EBUSY | EADDRINUSE | Errno int

text \<open>
  \<open>anyhow::Error\<close>: a system error under the context that describes it, or a message.
  \<open>downcast_ref\<close> finds the system error under its context.
\<close>

datatype sys_error = IoError errno string | SysError string

text \<open>The values published in the dynamic store: strings and arrays of strings.\<close>

datatype cf_value = CfString string | CfArray "string list"

text \<open>
  The calls into the system, each on its state: \<open>socket\<close>, \<open>ioctl(CTLIOCGINFO)\<close>,
  \<open>connect\<close> to a control unit, \<open>getsockopt(UTUN_OPT_IFNAME)\<close>,
  \<open>setsockopt(SO_RCVTIMEO)\<close>, \<open>close\<close>, a command (its success, its output and its error
  output), and the dynamic store.
\<close>

record 'y system =
  sy_socket :: "'y \<Rightarrow> (errno + nat) \<times> 'y"
  sy_ctl_id :: "nat \<Rightarrow> string \<Rightarrow> 'y \<Rightarrow> (errno + u32) \<times> 'y"
  sy_connect :: "nat \<Rightarrow> u32 \<Rightarrow> u32 \<Rightarrow> 'y \<Rightarrow> (errno + unit) \<times> 'y"
  sy_ifname :: "nat \<Rightarrow> 'y \<Rightarrow> (errno + bytes) \<times> 'y"
  sy_rcvtimeo :: "nat \<Rightarrow> int \<Rightarrow> int \<Rightarrow> 'y \<Rightarrow> (errno + unit) \<times> 'y"
  sy_close :: "nat \<Rightarrow> 'y \<Rightarrow> 'y"
  sy_command :: "string \<Rightarrow> string list \<Rightarrow> 'y \<Rightarrow> (string + bool \<times> string \<times> string) \<times> 'y"
  sy_store_open :: "'y \<Rightarrow> bool \<times> 'y"
  sy_store_set :: "string \<Rightarrow> (string \<times> cf_value) list \<Rightarrow> 'y \<Rightarrow> bool \<times> 'y"
  sy_store_remove :: "string \<Rightarrow> 'y \<Rightarrow> bool \<times> 'y"

text \<open>Text from the lease and from the system is kept as its bytes; here it becomes a string.\<close>

definition string_of_bytes :: "bytes \<Rightarrow> string" where
  "string_of_bytes bs = map (\<lambda>b. char_of (unat b)) bs"

definition MAX_UNIT :: nat where [const_simps]: "MAX_UNIT = 255"
definition UTUN_CONTROL_NAME :: string where "UTUN_CONTROL_NAME = ''com.apple.net.utun_control''"

fun sys_error_string :: "sys_error \<Rightarrow> string" where
  "sys_error_string (IoError _ context) = context"
| "sys_error_string (SysError s) = s"

fun is_unit_busy :: "sys_error \<Rightarrow> bool" where
  "is_unit_busy (IoError e _) \<longleftrightarrow> e = EBUSY \<or> e = EADDRINUSE"
| "is_unit_busy (SysError _) \<longleftrightarrow> False"

record utun =
  ut_fd :: nat
  ut_name :: string

definition interface_name :: "'y system \<Rightarrow> nat \<Rightarrow> 'y \<Rightarrow> (sys_error + string) \<times> 'y" where
  "interface_name S fd y =
     (case sy_ifname S fd y of
        (Inl e, y) \<Rightarrow> (Inl (IoError e ''reading the utun interface name''), y)
      | (Inr buf, y) \<Rightarrow> (Inr (string_of_bytes (takeWhile (\<lambda>b. b \<noteq> 0) buf)), y))"

text \<open>Every return between the socket and the end of the function drops the descriptor.\<close>

definition utun_open_unit :: "'y system \<Rightarrow> u32 \<Rightarrow> 'y \<Rightarrow> (sys_error + utun) \<times> 'y" where
  "utun_open_unit S unit_no y =
     (case sy_socket S y of
        (Inl e, y) \<Rightarrow> (Inl (IoError e ''creating a PF_SYSTEM socket''), y)
      | (Inr fd, y) \<Rightarrow>
          (case sy_ctl_id S fd UTUN_CONTROL_NAME y of
             (Inl e, y) \<Rightarrow> (Inl (IoError e ''looking up the utun control id''), sy_close S fd y)
           | (Inr ctl_id, y) \<Rightarrow>
               (case sy_connect S fd ctl_id (unit_no + 1) y of
                  (Inl e, y) \<Rightarrow> (Inl (IoError e (''connecting to utun'' @ nat_string (unat unit_no))), sy_close S fd y)
                | (Inr _, y) \<Rightarrow>
                    (case interface_name S fd y of
                       (Inl e, y) \<Rightarrow> (Inl e, sy_close S fd y)
                     | (Inr name, y) \<Rightarrow> (Inr \<lparr>ut_fd = fd, ut_name = name\<rparr>, y)))))"

text \<open>The loop of \<open>Utun::open\<close> over the units that are left.\<close>

fun utun_open_units :: "'y system \<Rightarrow> nat list \<Rightarrow> sys_error option \<Rightarrow> 'y \<Rightarrow> (sys_error + utun) \<times> 'y" where
  "utun_open_units S [] last_error y =
     (Inl (SysError (''no free utun device: ''
        @ (case last_error of None \<Rightarrow> ''unknown'' | Some e \<Rightarrow> sys_error_string e))), y)"
| "utun_open_units S (u # us) last_error y =
     (case utun_open_unit S (of_nat u) y of
        (Inr ut, y) \<Rightarrow> (Inr ut, y)
      | (Inl e, y) \<Rightarrow> if \<not> is_unit_busy e then (Inl e, y) else utun_open_units S us (Some e) y)"

definition utun_open :: "'y system \<Rightarrow> 'y \<Rightarrow> (sys_error + utun) \<times> 'y" where
  "utun_open S y = utun_open_units S [0..<MAX_UNIT] None y"

definition set_read_timeout :: "'y system \<Rightarrow> utun \<Rightarrow> int \<Rightarrow> 'y \<Rightarrow> (sys_error + unit) \<times> 'y" where
  "set_read_timeout S ut millis y =
     (case sy_rcvtimeo S (ut_fd ut) (millis sdiv 1000) ((millis smod 1000) * 1000) y of
        (Inl e, y) \<Rightarrow> (Inl (IoError e ''setting the utun read timeout''), y)
      | (Inr _, y) \<Rightarrow> (Inr (), y))"

definition IFCONFIG :: string where "IFCONFIG = ''/sbin/ifconfig''"
definition ROUTE :: string where "ROUTE = ''/sbin/route''"

fun join :: "string \<Rightarrow> string list \<Rightarrow> string" where
  "join sep [] = []"
| "join sep [x] = x"
| "join sep (x # xs) = x @ sep @ join sep xs"

definition is_space :: "char \<Rightarrow> bool" where
  "is_space c \<longleftrightarrow> c \<in> {CHR 0x09, CHR 0x0A, CHR 0x0B, CHR 0x0C, CHR 0x0D, CHR '' ''}"

definition trim_end :: "string \<Rightarrow> string" where
  "trim_end s = rev (dropWhile is_space (rev s))"

definition trim :: "string \<Rightarrow> string" where
  "trim s = trim_end (dropWhile is_space s)"

definition run :: "'y system \<Rightarrow> string \<Rightarrow> string list \<Rightarrow> 'y \<Rightarrow> (sys_error + string) \<times> 'y" where
  "run S program args y =
     (case sy_command S program args y of
        (Inl e, y) \<Rightarrow> (Inl (SysError (''running '' @ program)), y)
      | (Inr (success, out, err), y) \<Rightarrow>
          if \<not> success then (Inl (SysError (program @ '' '' @ join '' '' args @ '' failed: '' @ trim err)), y)
          else (Inr out, y))"

definition configure_interface ::
  "'y system \<Rightarrow> string \<Rightarrow> ipv4_addr \<Rightarrow> ipv4_addr \<Rightarrow> u16 \<Rightarrow> 'y \<Rightarrow> (sys_error + unit) \<times> 'y" where
  "configure_interface S interface ip peer mtu y =
     trys (run S IFCONFIG [interface, ''inet'', ip_string ip, ip_string peer, ''netmask'',
               ''255.255.255.255'', ''mtu'', nat_string (unat mtu), ''up''] y)
       (\<lambda>_ y. (Inr (), y))"

text \<open>\<open>Routes\<close> is the list of its destinations.\<close>

definition routes_add :: "'y system \<Rightarrow> string list \<Rightarrow> string \<Rightarrow> string list \<Rightarrow> 'y \<Rightarrow> (sys_error + string list) \<times> 'y" where
  "routes_add S destinations destination via y =
     (case run S ROUTE [''-n'', ''delete'', ''-net'', destination] y of
        (_, y) \<Rightarrow>
          trys (run S ROUTE ([''-n'', ''add'', ''-net'', destination] @ via) y)
            (\<lambda>_ y. (Inr (destinations @ [destination]), y)))"

fun routes_remove :: "'y system \<Rightarrow> string list \<Rightarrow> 'y \<Rightarrow> 'y" where
  "routes_remove S [] y = y"
| "routes_remove S (d # ds) y = routes_remove S ds (snd (run S ROUTE [''-n'', ''delete'', ''-net'', d] y))"

text \<open>On failure the value under construction is dropped, and with it what it holds is removed.\<close>

definition routes_install :: "'y system \<Rightarrow> string \<Rightarrow> ipv4_addr \<Rightarrow> u8 \<Rightarrow> 'y \<Rightarrow> (sys_error + string list) \<times> 'y" where
  "routes_install S interface subnet prefix y =
     (let destination = ip_string subnet @ ''/'' @ nat_string (unat prefix) in
      case routes_add S [] destination [''-interface'', interface] y of
        (Inl e, y) \<Rightarrow> (Inl e, routes_remove S [] y)
      | (Inr routes, y) \<Rightarrow> (Inr routes, y))"

fun dns_remove :: "'y system \<Rightarrow> string list \<Rightarrow> 'y \<Rightarrow> 'y" where
  "dns_remove S [] y = y"
| "dns_remove S (k # ks) y = dns_remove S ks (snd (sy_store_remove S k y))"

definition dns_set ::
  "'y system \<Rightarrow> string list \<Rightarrow> string \<Rightarrow> (string \<times> cf_value) list \<Rightarrow> 'y \<Rightarrow> (sys_error + string list) \<times> 'y" where
  "dns_set S keys key value y =
     (case sy_store_set S key value y of
        (True, y) \<Rightarrow> (Inr (keys @ [key]), y)
      | (False, y) \<Rightarrow> (Inl (SysError (''SCDynamicStore rejected '' @ key)), y))"

definition IPV4_KEY :: string where "IPV4_KEY = ''State:/Network/Service/muta/IPv4''"
definition DNS_KEY :: string where "DNS_KEY = ''State:/Network/Service/muta/DNS''"

definition dns_install ::
  "'y system \<Rightarrow> string \<Rightarrow> ipv4_addr \<Rightarrow> ipv4_addr \<Rightarrow> ipv4_addr list \<Rightarrow> bytes option \<Rightarrow> 'y \<Rightarrow> (sys_error + string list) \<times> 'y" where
  "dns_install S interface address router servers domain y =
     (case sy_store_open S y of
        (False, y) \<Rightarrow> (Inl (SysError ''could not open SCDynamicStore (is the daemon running as root?)''), y)
      | (True, y) \<Rightarrow>
          (let ipv4 = [(''Addresses'', CfArray [ip_string address]),
                       (''SubnetMasks'', CfArray [''255.255.255.255'']),
                       (''Router'', CfString (ip_string router)),
                       (''InterfaceName'', CfString interface)] in
           case dns_set S [] IPV4_KEY ipv4 y of
             (Inl e, y) \<Rightarrow> (Inl e, dns_remove S [] y)
           | (Inr keys, y) \<Rightarrow>
               if servers = [] then (Inr keys, y)
               else
                 (let entries = [(''ServerAddresses'', CfArray (map ip_string servers))]
                        @ (case domain of
                             None \<Rightarrow> []
                           | Some d \<Rightarrow> [(''DomainName'', CfString (string_of_bytes d)),
                                        (''SearchDomains'', CfArray [string_of_bytes d])]) in
                  case dns_set S keys DNS_KEY entries y of
                    (Inl e, y) \<Rightarrow> (Inl e, dns_remove S keys y)
                  | (Inr keys, y) \<Rightarrow> (Inr keys, y))))"

record tunnel =
  tn_utun :: utun
  tn_lease :: lease
  tn_routes :: "string list"
  tn_dns :: "string list"

definition READ_TIMEOUT_MS :: int where [const_simps]: "READ_TIMEOUT_MS = 250"

text \<open>
  \<open>Tunnel::up\<close>, up to the start of the reader. A failure drops the locals in the reverse order
  of their declaration: the routes, then the descriptor.
\<close>

definition tunnel_up :: "'y system \<Rightarrow> lease \<Rightarrow> 'y \<Rightarrow> (sys_error + tunnel) \<times> 'y" where
  "tunnel_up S l y =
     (case le_router l of
        None \<Rightarrow> (Inl (SysError ''lease has no gateway; cannot route through the phone''), y)
      | Some gateway \<Rightarrow>
          trys (utun_open S y) (\<lambda>ut y.
          case set_read_timeout S ut READ_TIMEOUT_MS y of
            (Inl e, y) \<Rightarrow> (Inl e, sy_close S (ut_fd ut) y)
          | (Inr _, y) \<Rightarrow>
              (let name = ut_name ut; mtu = (case le_mtu l of Some m \<Rightarrow> m | None \<Rightarrow> DEFAULT_MTU) in
               case configure_interface S name (le_ip l) gateway mtu y of
                 (Inl e, y) \<Rightarrow> (Inl e, sy_close S (ut_fd ut) y)
               | (Inr _, y) \<Rightarrow>
                   (case routes_install S name (subnet_of (le_ip l) (le_netmask l)) (lease_prefix_len l) y of
                      (Inl e, y) \<Rightarrow> (Inl e, sy_close S (ut_fd ut) y)
                    | (Inr routes, y) \<Rightarrow>
                        (case dns_install S name (le_ip l) gateway (le_dns l) (le_domain l) y of
                           (Inl e, y) \<Rightarrow>
                             (Inl (SysError ''publishing the tunnel as a network service''),
                              sy_close S (ut_fd ut) (routes_remove S routes y))
                         | (Inr dns, y) \<Rightarrow>
                             (Inr \<lparr>tn_utun = ut, tn_lease = l, tn_routes = routes, tn_dns = dns\<rparr>, y))))))"

text \<open>
  \<open>drop(tunnel)\<close>: the reader is joined, then the fields are dropped in their order. The last
  reference to the descriptor goes with the sink or with the reader, both gone by then.
\<close>

definition tunnel_drop :: "'y system \<Rightarrow> tunnel \<Rightarrow> 'y \<Rightarrow> 'y" where
  "tunnel_drop S t y = dns_remove S (tn_dns t) (routes_remove S (tn_routes t) (sy_close S (ut_fd (tn_utun t)) y))"

subsection \<open>Packets keep their bytes\<close>

lemma utun_read_data:
  assumes "4 \<le> length data" and "length data \<le> length buf"
  obtains buf' where "utun_read (Some data) buf = (Inr (length data - 4), buf')" "length buf' = length buf"
    "take (length data - 4) buf' = drop 4 data"
  using assms by (simp add: utun_read_def AF_HEADER_LEN_def overwrite_def Let_def drop_take min_def)

text \<open>
  The tunnel device carries packets unchanged. An IPv4 packet written to it goes out behind the
  four bytes of its address family, and reading those bytes back into a buffer that can hold them
  yields the packet, with its length; an IPv6 packet likewise. Bytes that are neither are not
  written.
\<close>

lemma utun_roundtrip:
  assumes "packet \<noteq> []" and "length packet + 4 \<le> length buf"
  shows "if drop_bit 4 (hd packet) = 4 \<or> drop_bit 4 (hd packet) = 6
    then \<exists>raw buf'. utun_write packet = Some raw
      \<and> utun_read (Some raw) buf = (Inr (length packet), buf') \<and> take (length packet) buf' = packet
    else utun_write packet = None"
proof -
  have "\<exists>buf'. utun_read (Some (to_be32 fam @ packet)) buf = (Inr (length packet), buf')
      \<and> take (length packet) buf' = packet" for fam
    using utun_read_data [of "to_be32 fam @ packet" buf] assms(2) by fastforce
  with assms(1) show ?thesis
    by (cases packet) (auto simp: utun_write_def)
qed

text \<open>What a sequence of packets delivered to a tunnel leaves on its descriptor, in order and with nothing else.\<close>

lemma utun_sink_written: "fold utun_sink_deliver ps written = written @ List.map_filter utun_write ps"
  by (induction ps arbitrary: written) (simp_all add: utun_sink_deliver_def List.map_filter_simps split: option.split)

lemma utun_roundtrip_witness:
  "\<exists>raw buf'. utun_write [0x45, 1, 2] = Some raw
     \<and> utun_read (Some raw) (replicate 64 0) = (Inr 3, buf') \<and> take 3 buf' = [0x45, 1, 2]"
  using utun_roundtrip [of "[0x45, 1, 2]" "replicate 64 0"] by (simp add: numeral_3_eq_3)

subsection \<open>The reader\<close>

text \<open>
  The reader forwards or asks. It never panics on what the device reads into its buffer. A packet
  (more than the four bytes of the header) goes out in exactly one Ethernet frame, from this host to
  the gateway's hardware address, with the packet as its payload, when the ARP cache has a fresh entry
  for the gateway, and the ARP state stays; otherwise the packet is dropped and what goes out is the
  request for the gateway, unless one went out less than the retry interval ago. In particular, for
  as long as an entry lives, packets go to the address last learned for the gateway.
\<close>

lemma reader_forwards:
  assumes "4 < length data" and "length data \<le> length buf"
  shows "\<exists>buf'. reader_turn host_mac gateway now1 now2 (Some data) buf arp =
      (case arp_lookup now1 arp gateway of
         Some mac \<Rightarrow> Some ([ethernet_build mac host_mac 0x0800 (drop 4 data)], buf', arp)
       | None \<Rightarrow> Some ((case arp_last_request arp gateway of
             Some sent \<Rightarrow> if now2 - sent < RETRY_INTERVAL then [] else [the (fst (arp_request now2 gateway arp))]
           | None \<Rightarrow> [the (fst (arp_request now2 gateway arp))]), buf', snd (arp_request now2 gateway arp)))
    \<and> (\<forall>learned mac. now1 - learned < ENTRY_TTL \<longrightarrow>
        map_option fst (reader_turn host_mac gateway now1 now2 (Some data) buf (arp_insert learned gateway mac arp))
        = Some [ethernet_build mac host_mac 0x0800 (drop 4 data)])"
proof -
  obtain buf' where r: "utun_read (Some data) buf = (Inr (length data - 4), buf')" "length buf' = length buf"
    "take (length data - 4) buf' = drop 4 data"
    using assms by (auto intro: utun_read_data [of data buf])
  have sl: "slice 0 (length data - 4) buf' = Some (drop 4 data)"
    using r assms by simp
  have turn: "reader_turn host_mac gateway now1 now2 (Some data) buf a =
      (case arp_lookup now1 a gateway of
         None \<Rightarrow> (case arp_request now2 gateway a of
             (Some request, a) \<Rightarrow> Some ([request], buf', a) | (None, a) \<Rightarrow> Some ([], buf', a))
       | Some mac \<Rightarrow> Some ([ethernet_build mac host_mac 0x0800 (drop 4 data)], buf', a))" for a
    using assms(1) by (simp add: reader_turn_def r(1) sl ETHERTYPE_IPV4_def split: option.split)
  have "\<forall>learned mac. now1 - learned < ENTRY_TTL \<longrightarrow>
        map_option fst (reader_turn host_mac gateway now1 now2 (Some data) buf (arp_insert learned gateway mac arp))
        = Some [ethernet_build mac host_mac 0x0800 (drop 4 data)]"
    by (simp add: turn arp_neighbours.lookup_store_fresh)
  then show ?thesis
    by (intro exI [of _ buf'] conjI) (simp_all add: turn arp_request_def split: option.split)
qed

lemma reader_forwards_witness:
  "map_option fst (reader_turn MAC_ZERO (Ipv4Addr 10 0 0 1) 5 5 (Some [0, 0, 0, 2, 0x45, 7]) (replicate 64 0)
      (arp_insert 0 (Ipv4Addr 10 0 0 1) (MacAddr 2 0 0 0 0 1) (arp_new MAC_ZERO (Ipv4Addr 10 0 0 2))))
   = Some [ethernet_build (MacAddr 2 0 0 0 0 1) MAC_ZERO 0x0800 [0x45, 7]]"
  using reader_forwards [of "[0, 0, 0, 2, 0x45, 7]" "replicate 64 0" MAC_ZERO "Ipv4Addr 10 0 0 1" 5 5
      "arp_new MAC_ZERO (Ipv4Addr 10 0 0 2)"]
  by (simp add: ENTRY_TTL_def from_secs_def)

subsection \<open>The network of a lease\<close>

lemma bit_netmask: "i < 32 \<Longrightarrow> bit (NOT (mask k) :: u32) i \<longleftrightarrow> k \<le> i"
  by (simp add: bit_simps not_less)

lemma prefix_len_netmask:
  assumes "n \<le> 32" and "u32_of_ip (le_netmask l) = NOT (mask (32 - n))"
  shows "unat (lease_prefix_len l) = n"
proof -
  have "filter (bit (u32_of_ip (le_netmask l))) [0..<32] = filter (\<lambda>i. 32 - n \<le> i) [0..<32]"
    by (rule filter_cong) (auto simp: assms(2) bit_netmask)
  also have "\<dots> = [32 - n..<32]"
  proof -
    have "[0..<32] = [0..<32 - n] @ [32 - n..<32]"
      using upt_add_eq_append [of 0 "32 - n" n] assms(1) by simp
    then show ?thesis by (simp add: filter_id_conv filter_empty_conv)
  qed
  finally show ?thesis
    using assms(1) by (simp add: lease_prefix_len_def unat_of_nat)
qed

text \<open>
  The route of a lease. For a netmask of n leading ones, the prefix length is n and the network
  address keeps the first n bits of the address and clears the others; so two addresses have the same
  network exactly when they agree on those bits.
\<close>

lemma lease_network:
  assumes "n \<le> 32" and "u32_of_ip (le_netmask l) = NOT (mask (32 - n))"
  shows "unat (lease_prefix_len l) = n
    \<and> (\<forall>i<32. bit (u32_of_ip (subnet_of ip (le_netmask l))) i \<longleftrightarrow> 32 - n \<le> i \<and> bit (u32_of_ip ip) i)
    \<and> (subnet_of ip (le_netmask l) = subnet_of ip' (le_netmask l)
        \<longleftrightarrow> (\<forall>i. 32 - n \<le> i \<and> i < 32 \<longrightarrow> bit (u32_of_ip ip) i = bit (u32_of_ip ip') i))"
proof (intro conjI)
  show "unat (lease_prefix_len l) = n" by (rule prefix_len_netmask [OF assms])
  have sub: "bit (u32_of_ip (subnet_of ip (le_netmask l))) i \<longleftrightarrow> 32 - n \<le> i \<and> bit (u32_of_ip ip) i" if "i < 32" for ip i
    using that by (auto simp: subnet_of_def assms(2) bit_and_iff bit_netmask)
  then show "\<forall>i<32. bit (u32_of_ip (subnet_of ip (le_netmask l))) i \<longleftrightarrow> 32 - n \<le> i \<and> bit (u32_of_ip ip) i"
    by blast
  have "subnet_of ip (le_netmask l) = subnet_of ip' (le_netmask l)
      \<longleftrightarrow> (\<forall>i<32. bit (u32_of_ip (subnet_of ip (le_netmask l))) i = bit (u32_of_ip (subnet_of ip' (le_netmask l))) i)"
    using bit_word_eqI [of "u32_of_ip (subnet_of ip (le_netmask l))" "u32_of_ip (subnet_of ip' (le_netmask l))"]
      u32_of_ip_inj [THEN injD] by auto
  with sub show "subnet_of ip (le_netmask l) = subnet_of ip' (le_netmask l)
        \<longleftrightarrow> (\<forall>i. 32 - n \<le> i \<and> i < 32 \<longrightarrow> bit (u32_of_ip ip) i = bit (u32_of_ip ip') i)"
    by auto
qed

lemma lease_network_witness:
  "unat (lease_prefix_len (server_lease (Ipv4Addr 192 168 42 130) (Ipv4Addr 192 168 42 129) 3600
      (ip_of_u32 (NOT (mask 6))) (Ipv4Addr 192 168 42 129) [])) = 26"
  using lease_network [of 26 "server_lease (Ipv4Addr 192 168 42 130) (Ipv4Addr 192 168 42 129) 3600
      (ip_of_u32 (NOT (mask 6))) (Ipv4Addr 192 168 42 129) []"]
  by (simp add: server_lease_def)

subsection \<open>The system is left as it was\<close>

text \<open>
  What of the system the tunnel touches: open descriptors with the interface they are connected to,
  routes as pairs of destination and interface, and published keys. The default route that the system
  derives from the published keys by itself is not part of it.
\<close>

record sys_view =
  sv_open :: "nat \<rightharpoonup> string option"
  sv_routes :: "(string \<times> string) set"
  sv_keys :: "string set"

text \<open>
  What the tunnel relies on, call by call. A socket is a descriptor that was not open; connecting it
  creates an interface, over which there is no route yet, and whose name the system reports; closing
  it takes the interface and the routes over it away. \<open>ifconfig\<close> may add routes over the
  interface it configures. \<open>route delete\<close> may fail, and touches no other destination;
  \<open>route add\<close> adds the route or fails and changes nothing. A key is published when
  \<open>set\<close> says so, and \<open>remove\<close> leaves no such key.
\<close>

definition socket_ok :: "'y system \<Rightarrow> ('y \<Rightarrow> sys_view) \<Rightarrow> bool" where
  "socket_ok S v \<longleftrightarrow>
     (\<forall>y. case sy_socket S y of (Inl _, y') \<Rightarrow> v y' = v y
        | (Inr fd, y') \<Rightarrow> sv_open (v y) fd = None \<and> v y' = (v y)\<lparr>sv_open := (sv_open (v y))(fd \<mapsto> None)\<rparr>)
     \<and> (\<forall>fd name y. v (snd (sy_ctl_id S fd name y)) = v y)
     \<and> (\<forall>fd i u y. case sy_connect S fd i u y of (Inl _, y') \<Rightarrow> v y' = v y
        | (Inr _, y') \<Rightarrow> \<exists>name. name \<notin> snd ` sv_routes (v y) \<and> v y' = (v y)\<lparr>sv_open := (sv_open (v y))(fd \<mapsto> Some name)\<rparr>)
     \<and> (\<forall>fd y. case sy_ifname S fd y of (Inl _, y') \<Rightarrow> v y' = v y
        | (Inr buf, y') \<Rightarrow> v y' = v y \<and> (\<forall>name. sv_open (v y) fd = Some (Some name) \<longrightarrow>
             string_of_bytes (takeWhile (\<lambda>b. b \<noteq> 0) buf) = name))
     \<and> (\<forall>fd s us y. v (snd (sy_rcvtimeo S fd s us y)) = v y)
     \<and> (\<forall>fd y. v (sy_close S fd y) = (v y)\<lparr>sv_open := (sv_open (v y))(fd := None),
          sv_routes := {r \<in> sv_routes (v y). sv_open (v y) fd \<noteq> Some (Some (snd r))}\<rparr>)"

definition command_ok :: "'y system \<Rightarrow> ('y \<Rightarrow> sys_view) \<Rightarrow> bool" where
  "command_ok S v \<longleftrightarrow>
     (\<forall>name args y. \<exists>R. R \<subseteq> UNIV \<times> {name} \<and>
        v (snd (run S IFCONFIG (name # args) y)) = (v y)\<lparr>sv_routes := sv_routes (v y) \<union> R\<rparr>)
     \<and> (\<forall>d y. \<exists>R. R \<subseteq> {d} \<times> UNIV \<and>
        v (snd (run S ROUTE [''-n'', ''delete'', ''-net'', d] y)) = (v y)\<lparr>sv_routes := sv_routes (v y) - R\<rparr>)
     \<and> (\<forall>d name y. case run S ROUTE [''-n'', ''add'', ''-net'', d, ''-interface'', name] y of
          (Inl _, y') \<Rightarrow> v y' = v y
        | (Inr _, y') \<Rightarrow> v y' = (v y)\<lparr>sv_routes := insert (d, name) (sv_routes (v y))\<rparr>)"

definition store_ok :: "'y system \<Rightarrow> ('y \<Rightarrow> sys_view) \<Rightarrow> bool" where
  "store_ok S v \<longleftrightarrow>
     (\<forall>y. v (snd (sy_store_open S y)) = v y)
     \<and> (\<forall>k x y. v (snd (sy_store_set S k x y)) =
          (if fst (sy_store_set S k x y) then (v y)\<lparr>sv_keys := insert k (sv_keys (v y))\<rparr> else v y))
     \<and> (\<forall>k y. v (snd (sy_store_remove S k y)) = (v y)\<lparr>sv_keys := sv_keys (v y) - {k}\<rparr>)"

definition system_ok :: "'y system \<Rightarrow> ('y \<Rightarrow> sys_view) \<Rightarrow> bool" where
  "system_ok S v \<longleftrightarrow> socket_ok S v \<and> command_ok S v \<and> store_ok S v"

text \<open>
  The states between the opening of an interface and its closing: beside what was there, an open
  descriptor and routes over its interface only.
\<close>

definition tunnel_adds :: "sys_view \<Rightarrow> utun \<Rightarrow> sys_view \<Rightarrow> bool" where
  "tunnel_adds w0 ut w \<longleftrightarrow> sv_open w0 (ut_fd ut) = None \<and> ut_name ut \<notin> snd ` sv_routes w0
     \<and> (\<exists>R \<subseteq> UNIV \<times> {ut_name ut}. w = w0\<lparr>sv_open := (sv_open w0)(ut_fd ut \<mapsto> Some (ut_name ut)),
          sv_routes := sv_routes w0 \<union> R\<rparr>)"

lemma socket_close:
  assumes "system_ok S v"
  shows "v (sy_close S fd y) = (v y)\<lparr>sv_open := (sv_open (v y))(fd := None),
          sv_routes := {r \<in> sv_routes (v y). sv_open (v y) fd \<noteq> Some (Some (snd r))}\<rparr>"
  using assms by (simp add: system_ok_def socket_ok_def)

lemma tunnel_adds_close:
  assumes "system_ok S v" and "tunnel_adds (w0) ut (v y)"
  shows "v (sy_close S (ut_fd ut) y) = w0"
proof -
  obtain R where "R \<subseteq> UNIV \<times> {ut_name ut}" and y: "v y = w0\<lparr>sv_open := (sv_open w0)(ut_fd ut \<mapsto> Some (ut_name ut)),
      sv_routes := sv_routes w0 \<union> R\<rparr>"
    and old: "sv_open w0 (ut_fd ut) = None" "ut_name ut \<notin> snd ` sv_routes w0"
    using assms(2) by (auto simp: tunnel_adds_def)
  then have "{r \<in> sv_routes w0 \<union> R. ut_name ut \<noteq> snd r} = sv_routes w0" by force
  moreover have "(sv_open w0)(ut_fd ut := None) = sv_open w0" using old by (simp add: fun_upd_idem)
  ultimately show ?thesis by (simp add: socket_close [OF assms(1)] y)
qed

lemma unconnected_close:
  assumes "system_ok S v" and "sv_open (v y0) fd = None" and "v y = (v y0)\<lparr>sv_open := (sv_open (v y0))(fd \<mapsto> None)\<rparr>"
  shows "v (sy_close S fd y) = v y0"
proof -
  have "(sv_open (v y0))(fd := None) = sv_open (v y0)" using assms(2) by (simp add: fun_upd_idem)
  with assms show ?thesis by (simp add: socket_close [OF assms(1)])
qed

text \<open>A unit is opened with its own name, or no descriptor is left behind.\<close>

lemma view_open_unit:
  assumes ok: "system_ok S v" and "utun_open_unit S u y = (r, y')"
  shows "case r of Inl _ \<Rightarrow> v y' = v y | Inr ut \<Rightarrow> tunnel_adds (v y) ut (v y')"
proof -
  have so: "socket_ok S v" using ok by (simp add: system_ok_def)
  obtain s y1 where s: "sy_socket S y = (s, y1)" by fastforce
  show ?thesis
  proof (cases s)
    case (Inl e)
    with s so assms(2) show ?thesis by (auto simp: socket_ok_def utun_open_unit_def split: prod.splits dest!: spec [of _ y])
  next
    case (Inr fd)
    have fd: "sv_open (v y) fd = None" and y1: "v y1 = (v y)\<lparr>sv_open := (sv_open (v y))(fd \<mapsto> None)\<rparr>"
      using so s Inr by (auto simp: socket_ok_def dest!: spec [of _ y])
    note undo = unconnected_close [OF ok fd]
    obtain c y2 where c: "sy_ctl_id S fd UTUN_CONTROL_NAME y1 = (c, y2)" by fastforce
    have y2: "v y2 = v y1" using so c unfolding socket_ok_def by (metis snd_conv)
    show ?thesis
    proof (cases c)
      case (Inl e)
      with assms(2) s c \<open>s = Inr fd\<close> undo [of y2] y1 y2 show ?thesis by (auto simp: utun_open_unit_def)
    next
      case ctl: (Inr k)
      obtain d y3 where d: "sy_connect S fd k (u + 1) y2 = (d, y3)" by fastforce
      have dlaw: "case d of Inl _ \<Rightarrow> v y3 = v y2 | Inr _ \<Rightarrow> \<exists>name. name \<notin> snd ` sv_routes (v y2) \<and>
          v y3 = (v y2)\<lparr>sv_open := (sv_open (v y2))(fd \<mapsto> Some name)\<rparr>"
        using so d by (fastforce simp: socket_ok_def split: prod.splits sum.splits)
      show ?thesis
      proof (cases d)
        case (Inl e)
        with assms(2) s c d ctl dlaw \<open>s = Inr fd\<close> undo [of y3] y1 y2 show ?thesis by (auto simp: utun_open_unit_def)
      next
        case con: (Inr uu)
        then obtain name where name: "name \<notin> snd ` sv_routes (v y)"
            and y3: "v y3 = (v y)\<lparr>sv_open := (sv_open (v y))(fd \<mapsto> Some name)\<rparr>"
          using dlaw y1 y2 by auto
        obtain b y4 where b: "sy_ifname S fd y3 = (b, y4)" by fastforce
        have "case sy_ifname S fd y3 of (Inl _, y') \<Rightarrow> v y' = v y3
            | (Inr buf, y') \<Rightarrow> v y' = v y3 \<and> (\<forall>name. sv_open (v y3) fd = Some (Some name) \<longrightarrow>
                string_of_bytes (takeWhile (\<lambda>b. b \<noteq> 0) buf) = name)"
          using so by (simp add: socket_ok_def)
        with b y3 have blaw: "v y4 = v y3" "\<And>buf. b = Inr buf \<Longrightarrow> string_of_bytes (takeWhile (\<lambda>b. b \<noteq> 0) buf) = name"
          by (auto split: sum.splits)
        have adds: "tunnel_adds (v y) \<lparr>ut_fd = fd, ut_name = name\<rparr> (v y4)"
          using fd name y3 blaw(1) by (auto simp: tunnel_adds_def intro: exI [of _ "{}"])
        from assms(2) s c d ctl con \<open>s = Inr fd\<close> b blaw adds tunnel_adds_close [OF ok adds]
        show ?thesis by (cases b) (auto simp: utun_open_unit_def interface_name_def)
      qed
    qed
  qed
qed

lemma view_set_read_timeout:
  assumes "system_ok S v"
  shows "v (snd (set_read_timeout S ut ms y)) = v y"
proof -
  have "v (snd (sy_rcvtimeo S fd a b y)) = v y" for fd a b using assms by (simp add: system_ok_def socket_ok_def)
  then show ?thesis by (simp add: set_read_timeout_def split: prod.splits sum.splits) (metis snd_conv)
qed

lemma view_utun_open:
  assumes "system_ok S v" and "utun_open S y = (r, y')"
  shows "case r of Inl _ \<Rightarrow> v y' = v y | Inr ut \<Rightarrow> tunnel_adds (v y) ut (v y')"
proof -
  have "utun_open_units S us le y = (r, y') \<Longrightarrow> case r of Inl _ \<Rightarrow> v y' = v y | Inr ut \<Rightarrow> tunnel_adds (v y) ut (v y')" for us le
  proof (induction us arbitrary: le y)
    case (Cons u us)
    obtain x y1 where x: "utun_open_unit S (of_nat u) y = (x, y1)" by fastforce
    show ?case
    proof (cases x)
      case (Inl e)
      with x view_open_unit [OF assms(1) x] have "v y1 = v y" by simp
      with Inl x Cons.prems Cons.IH [of "Some e" y1] show ?thesis by (cases r) (auto split: if_splits)
    next
      case (Inr ut)
      with x Cons.prems view_open_unit [OF assms(1) x] show ?thesis by auto
    qed
  qed auto
  with assms(2) show ?thesis by (simp add: utun_open_def)
qed

lemma tunnel_adds_more:
  assumes "tunnel_adds w0 ut w" and "R \<subseteq> UNIV \<times> {ut_name ut}"
  shows "tunnel_adds w0 ut (w\<lparr>sv_routes := sv_routes w \<union> R\<rparr>)"
proof -
  obtain Q where "Q \<subseteq> UNIV \<times> {ut_name ut}" and "w = w0\<lparr>sv_open := (sv_open w0)(ut_fd ut \<mapsto> Some (ut_name ut)), sv_routes := sv_routes w0 \<union> Q\<rparr>"
    using assms(1) by (auto simp: tunnel_adds_def)
  with assms show ?thesis by (auto simp: tunnel_adds_def Un_assoc intro!: exI [of _ "Q \<union> R"])
qed

lemma tunnel_adds_less:
  assumes "tunnel_adds w0 ut w" and "R \<subseteq> {d} \<times> UNIV" and "d \<notin> fst ` sv_routes w0"
  shows "tunnel_adds w0 ut (w\<lparr>sv_routes := sv_routes w - R\<rparr>)"
proof -
  obtain Q where Q: "Q \<subseteq> UNIV \<times> {ut_name ut}" "w = w0\<lparr>sv_open := (sv_open w0)(ut_fd ut \<mapsto> Some (ut_name ut)), sv_routes := sv_routes w0 \<union> Q\<rparr>"
    using assms(1) by (auto simp: tunnel_adds_def)
  have "sv_routes w0 \<union> Q - R = sv_routes w0 \<union> (Q - R)" using assms(2,3) by force
  with Q assms(1) show ?thesis by (auto simp: tunnel_adds_def intro!: exI [of _ "Q - R"])
qed

lemma tunnel_adds_keys:
  "tunnel_adds (w0\<lparr>sv_keys := ks\<rparr>) ut (w\<lparr>sv_keys := ks\<rparr>)" if "tunnel_adds w0 ut w"
  using that by (auto simp: tunnel_adds_def)

lemma view_delete:
  assumes "system_ok S v"
  obtains R where "R \<subseteq> {d} \<times> UNIV"
    "v (snd (run S ROUTE [''-n'', ''delete'', ''-net'', d] y)) = (v y)\<lparr>sv_routes := sv_routes (v y) - R\<rparr>"
  using assms unfolding system_ok_def command_ok_def by blast

lemma view_delete_absent:
  assumes "system_ok S v" and "d \<notin> fst ` sv_routes (v y)"
  shows "v (snd (run S ROUTE [''-n'', ''delete'', ''-net'', d] y)) = v y"
proof -
  obtain R where "R \<subseteq> {d} \<times> UNIV"
      and R: "v (snd (run S ROUTE [''-n'', ''delete'', ''-net'', d] y)) = (v y)\<lparr>sv_routes := sv_routes (v y) - R\<rparr>"
    using view_delete [OF assms(1)] by blast
  then have "sv_routes (v y) - R = sv_routes (v y)" using assms(2) by force
  with R show ?thesis by simp
qed

lemma view_add:
  assumes "system_ok S v"
  shows "case run S ROUTE [''-n'', ''add'', ''-net'', d, ''-interface'', name] y of
      (Inl _, y') \<Rightarrow> v y' = v y | (Inr _, y') \<Rightarrow> v y' = (v y)\<lparr>sv_routes := insert (d, name) (sv_routes (v y))\<rparr>"
  using assms by (simp add: system_ok_def command_ok_def)

lemma view_configure:
  assumes ok: "system_ok S v" and "tunnel_adds w0 ut (v y)" and "configure_interface S (ut_name ut) ip peer mtu y = (r, y')"
  shows "tunnel_adds w0 ut (v y')"
proof -
  let ?args = "[''inet'', ip_string ip, ip_string peer, ''netmask'', ''255.255.255.255'', ''mtu'', nat_string (unat mtu), ''up'']"
  obtain R where "R \<subseteq> UNIV \<times> {ut_name ut}"
    and "v (snd (run S IFCONFIG (ut_name ut # ?args) y)) = (v y)\<lparr>sv_routes := sv_routes (v y) \<union> R\<rparr>"
    using ok unfolding system_ok_def command_ok_def by blast
  with tunnel_adds_more [OF assms(2), of R] have "tunnel_adds w0 ut (v (snd (run S IFCONFIG (ut_name ut # ?args) y)))"
    by simp
  with assms(3) show ?thesis
    by (auto simp: configure_interface_def trys_def split: prod.splits sum.splits)
qed

lemma view_routes_install:
  assumes ok: "system_ok S v" and "tunnel_adds w0 ut (v y)" and "routes_install S (ut_name ut) subnet prefix y = (r, y')"
    and "ip_string subnet @ ''/'' @ nat_string (unat prefix) \<notin> fst ` sv_routes w0"
  shows "tunnel_adds w0 ut (v y') \<and> (\<forall>ds. r = Inr ds \<longrightarrow> ds = [ip_string subnet @ ''/'' @ nat_string (unat prefix)]
    \<and> (ip_string subnet @ ''/'' @ nat_string (unat prefix), ut_name ut) \<in> sv_routes (v y'))"
proof -
  let ?d = "ip_string subnet @ ''/'' @ nat_string (unat prefix)"
  obtain x y1 where del: "run S ROUTE [''-n'', ''delete'', ''-net'', ?d] y = (x, y1)" by fastforce
  obtain z y2 where add: "run S ROUTE [''-n'', ''add'', ''-net'', ?d, ''-interface'', ut_name ut] y1 = (z, y2)"
    by fastforce
  obtain R where "R \<subseteq> {?d} \<times> UNIV" and "v y1 = (v y)\<lparr>sv_routes := sv_routes (v y) - R\<rparr>"
    using view_delete [OF ok, of ?d y] del by auto
  with tunnel_adds_less [OF assms(2) _ assms(4)] have y1: "tunnel_adds w0 ut (v y1)" by simp
  from view_add [OF ok, where d = ?d and name = "ut_name ut" and y = y1, unfolded add] have "case z of Inl _ \<Rightarrow> v y2 = v y1 | Inr _ \<Rightarrow> v y2 = (v y1)\<lparr>sv_routes := insert (?d, ut_name ut) (sv_routes (v y1))\<rparr>"
    by (simp split: sum.splits)
  with y1 assms(3) del add tunnel_adds_more [OF y1, of "{(?d, ut_name ut)}"] show ?thesis
    by (cases z) (auto simp: routes_install_def routes_add_def Let_def trys_def)
qed

lemma view_routes_remove:
  assumes "system_ok S v" and "set ds \<inter> fst ` sv_routes (v y) = {}"
  shows "v (routes_remove S ds y) = v y"
  using assms(2) by (induction ds arbitrary: y) (simp_all add: view_delete_absent [OF assms(1)])

lemma adds_routes_remove:
  assumes "system_ok S v" and "tunnel_adds w0 ut (v y)" and "set ds \<inter> fst ` sv_routes w0 = {}"
  shows "tunnel_adds w0 ut (v (routes_remove S ds y))"
  using assms(2,3)
proof (induction ds arbitrary: y)
  case (Cons d ds)
  obtain R where "R \<subseteq> {d} \<times> UNIV"
    "v (snd (run S ROUTE [''-n'', ''delete'', ''-net'', d] y)) = (v y)\<lparr>sv_routes := sv_routes (v y) - R\<rparr>"
    using view_delete [OF assms(1)] by blast
  with Cons tunnel_adds_less [of w0 ut "v y" R d] show ?case by simp
qed simp

lemma view_dns_remove:
  assumes "system_ok S v"
  shows "v (dns_remove S ks y) = (v y)\<lparr>sv_keys := sv_keys (v y) - set ks\<rparr>"
  using assms by (induction ks arbitrary: y) (auto simp: system_ok_def store_ok_def Diff_insert2 [symmetric])

lemma view_dns_set:
  assumes "system_ok S v" and "dns_set S ks k x y = (r, y')"
  shows "case r of Inl _ \<Rightarrow> v y' = v y | Inr ks' \<Rightarrow> ks' = ks @ [k] \<and> v y' = (v y)\<lparr>sv_keys := insert k (sv_keys (v y))\<rparr>"
proof -
  have "v (snd (sy_store_set S k x y)) =
      (if fst (sy_store_set S k x y) then (v y)\<lparr>sv_keys := insert k (sv_keys (v y))\<rparr> else v y)"
    using assms(1) by (simp add: system_ok_def store_ok_def)
  with assms(2) show ?thesis by (auto simp: dns_set_def split: prod.splits bool.splits)
qed

lemma DNS_KEY_not_IPV4 [simp]: "DNS_KEY \<noteq> IPV4_KEY"
  by (simp add: DNS_KEY_def IPV4_KEY_def)

lemma view_dns_install:
  assumes ok: "system_ok S v" and inst: "dns_install S name ip router servers domain y = (r, y')"
    and "IPV4_KEY \<notin> sv_keys (v y)"
  shows "case r of Inl _ \<Rightarrow> v y' = v y
    | Inr ks \<Rightarrow> ks = IPV4_KEY # (if servers = [] then [] else [DNS_KEY])
        \<and> v y' = (v y)\<lparr>sv_keys := sv_keys (v y) \<union> set ks\<rparr>"
proof -
  obtain opened y1 where o: "sy_store_open S y = (opened, y1)" by fastforce
  have y1: "v y1 = v y" using ok o unfolding system_ok_def store_ok_def by (metis snd_conv)
  define ipv4 where "ipv4 = [(''Addresses'', CfArray [ip_string ip]), (''SubnetMasks'', CfArray [''255.255.255.255'']),
      (''Router'', CfString (ip_string router)), (''InterfaceName'', CfString name)]"
  define entries where "entries = [(''ServerAddresses'', CfArray (map ip_string servers))]
      @ (case domain of None \<Rightarrow> [] | Some d \<Rightarrow> [(''DomainName'', CfString (string_of_bytes d)),
           (''SearchDomains'', CfArray [string_of_bytes d])])"
  obtain r2 y2 where s2: "dns_set S [] IPV4_KEY ipv4 y1 = (r2, y2)" by fastforce
  obtain r3 y3 where s3: "dns_set S [IPV4_KEY] DNS_KEY entries y2 = (r3, y3)" by fastforce
  note law = view_dns_set [OF ok s2] view_dns_set [OF ok s3]
  have eq: "dns_install S name ip router servers domain y =
      (if \<not> opened then (Inl (SysError ''could not open SCDynamicStore (is the daemon running as root?)''), y1)
       else case r2 of Inl e \<Rightarrow> (Inl e, y2)
       | Inr ks \<Rightarrow> if servers = [] then (Inr ks, y2)
           else (case dns_set S ks DNS_KEY entries y2 of (Inl e, y) \<Rightarrow> (Inl e, dns_remove S ks y) | (Inr ks, y) \<Rightarrow> (Inr ks, y)))"
    unfolding dns_install_def Let_def o ipv4_def [symmetric] entries_def [symmetric] s2
    by (cases opened; cases r2) (simp_all add: s2)
  have undone: "v (dns_remove S [IPV4_KEY] y3) = v y" if "v y3 = (v y)\<lparr>sv_keys := insert IPV4_KEY (sv_keys (v y))\<rparr>"
    using that assms(3) by (simp add: view_dns_remove [OF ok] del: dns_remove.simps)
  show ?thesis
  proof (cases r2)
    case (Inl e)
    with inst law(1) y1 show ?thesis unfolding eq by (auto split: if_splits)
  next
    case (Inr ks)
    with law(1) y1 have y2: "ks = [IPV4_KEY]" "v y2 = (v y)\<lparr>sv_keys := insert IPV4_KEY (sv_keys (v y))\<rparr>" by simp_all
    show ?thesis
      using inst unfolding eq using Inr law(2) y1 y2 s3 undone by (cases r3) (auto simp: insert_commute split: if_splits)
  qed
qed

text \<open>Taking down what a bring-up added.\<close>

lemma view_tunnel_drop:
  assumes ok: "system_ok S v" and adds: "tunnel_adds w0 (tn_utun t) (v y1)"
    and y2: "v y2 = (v y1)\<lparr>sv_keys := sv_keys w0 \<union> set (tn_dns t)\<rparr>"
    and new: "set (tn_routes t) \<inter> fst ` sv_routes w0 = {}" "set (tn_dns t) \<inter> sv_keys w0 = {}" and w0: "w0 = v y"
  shows "v (tunnel_drop S t y2) = v y"
proof -
  let ?w = "w0\<lparr>sv_keys := sv_keys w0 \<union> set (tn_dns t)\<rparr>"
  have "tunnel_adds ?w (tn_utun t) (v y2)"
    unfolding y2 by (rule tunnel_adds_keys [OF adds])
  then have c: "v (sy_close S (ut_fd (tn_utun t)) y2) = ?w"
    by (rule tunnel_adds_close [OF ok])
  then have "v (routes_remove S (tn_routes t) (sy_close S (ut_fd (tn_utun t)) y2)) = ?w"
    using view_routes_remove [OF ok, of "tn_routes t" "sy_close S (ut_fd (tn_utun t)) y2"] new(1) by simp
  moreover have "sv_keys w0 \<union> set (tn_dns t) - set (tn_dns t) = sv_keys w0" using new(2) by blast
  ultimately show ?thesis by (simp add: tunnel_drop_def view_dns_remove [OF ok] w0)
qed

text \<open>The destination of the route of a lease.\<close>

abbreviation lease_destination :: "lease \<Rightarrow> string" where
  "lease_destination l \<equiv> ip_string (subnet_of (le_ip l) (le_netmask l)) @ ''/'' @ nat_string (unat (lease_prefix_len l))"

lemma tunnel_up_view:
  assumes "system_ok S v"
    and "lease_destination l \<notin> fst ` sv_routes (v y)"
    and "IPV4_KEY \<notin> sv_keys (v y)" and "DNS_KEY \<notin> sv_keys (v y)"
  shows "case tunnel_up S l y of
      (Inl e, y') \<Rightarrow> v y' = v y
    | (Inr t, y') \<Rightarrow> tn_lease t = l
        \<and> sv_open (v y') (ut_fd (tn_utun t)) = Some (Some (ut_name (tn_utun t)))
        \<and> (lease_destination l,
            ut_name (tn_utun t)) \<in> sv_routes (v y')
        \<and> IPV4_KEY \<in> sv_keys (v y') \<and> (DNS_KEY \<in> sv_keys (v y') \<longleftrightarrow> le_dns l \<noteq> [])
        \<and> v (tunnel_drop S t y') = v y"
proof (cases "le_router l")
  case None
  then show ?thesis by (simp add: tunnel_up_def)
next
  case (Some gateway)
  note ok = assms(1) and up = tunnel_up_def [of S l y, unfolded Some, simplified]
  let ?mtu = "case le_mtu l of Some m \<Rightarrow> m | None \<Rightarrow> DEFAULT_MTU"
  obtain x y1 where o: "utun_open S y = (x, y1)" by fastforce
  show ?thesis
  proof (cases x)
    case (Inl e)
    with o view_utun_open [OF ok o] show ?thesis by (simp add: up trys_def)
  next
    case (Inr ut)
    obtain r2 y2 where t: "set_read_timeout S ut READ_TIMEOUT_MS y1 = (r2, y2)" by fastforce
    obtain r3 y3 where c: "configure_interface S (ut_name ut) (le_ip l) gateway ?mtu y2 = (r3, y3)" by fastforce
    obtain r4 y4 where r: "routes_install S (ut_name ut) (subnet_of (le_ip l) (le_netmask l)) (lease_prefix_len l) y3 = (r4, y4)"
      by fastforce
    obtain r5 y5 where d: "dns_install S (ut_name ut) (le_ip l) gateway (le_dns l) (le_domain l) y4 = (r5, y5)" by fastforce
    have a1: "tunnel_adds (v y) ut (v y1)" using view_utun_open [OF ok o] Inr by simp
    have "v y2 = v y1" using view_set_read_timeout [OF ok] t by (metis snd_conv)
    then have a2: "tunnel_adds (v y) ut (v y2)" using a1 by simp
    note a3 = view_configure [OF ok a2 c] and a4 = view_routes_install [OF ok view_configure [OF ok a2 c] r assms(2)]
    have keys: "sv_keys (v y4) = sv_keys (v y)" using a4 by (auto simp: tunnel_adds_def)
    note a5 = view_dns_install [OF ok d, unfolded keys, OF assms(3)]
    let ?d = "ip_string (subnet_of (le_ip l) (le_netmask l)) @ ''/'' @ nat_string (unat (lease_prefix_len l))"
    note eqs = up trys_def Let_def o Inr t c r d and undo = tunnel_adds_close [OF ok]
    consider e where "r2 = Inl e" | u e where "r2 = Inr u" "r3 = Inl e"
      | u u' e where "r2 = Inr u" "r3 = Inr u'" "r4 = Inl e"
      | u u' e where "r2 = Inr u" "r3 = Inr u'" "r4 = Inr [?d]" "r5 = Inl e"
      | u u' dns where "r2 = Inr u" "r3 = Inr u'" "r4 = Inr [?d]" "r5 = Inr dns"
      using a4 by (metis sum.exhaust)
    then show ?thesis
    proof cases
      case 1
      with undo [OF a2] show ?thesis by (simp add: eqs)
    next
      case 2
      with undo [OF a3] show ?thesis by (simp add: eqs)
    next
      case 3
      with undo a4 show ?thesis by (simp add: eqs)
    next
      case 4
      with a4 a5 have "tunnel_adds (v y) ut (v y5)" by simp
      then have "tunnel_adds (v y) ut (v (routes_remove S [?d] y5))"
        using assms(2) by (intro adds_routes_remove [OF ok]) auto
      with 4 undo show ?thesis by (simp add: eqs del: routes_remove.simps)
    next
      case 5
      let ?t = "\<lparr>tn_utun = ut, tn_lease = l, tn_routes = [?d], tn_dns = dns\<rparr>"
      have dns: "dns = IPV4_KEY # (if le_dns l = [] then [] else [DNS_KEY])"
        and y5: "v y5 = (v y4)\<lparr>sv_keys := sv_keys (v y) \<union> set dns\<rparr>"
        using 5 a5 by (auto simp: keys)
      have "v (tunnel_drop S ?t y5) = v y"
        using a4 y5 dns assms(2-4) by (intro view_tunnel_drop [OF ok, of "v y" _ y4]) auto
      moreover have "sv_open (v y4) (ut_fd ut) = Some (Some (ut_name ut))" "(?d, ut_name ut) \<in> sv_routes (v y4)"
        using a4 5(3) by (auto simp: tunnel_adds_def)
      ultimately show ?thesis using 5 dns y5 assms(4) by (simp add: eqs)
    qed
  qed
qed

text \<open>
  The descriptor, the published service and the tunnel as a whole are values that are dropped: each
  keeps the contract of a scoped resource, whatever the system, as long as it is lawful.
\<close>

interpretation utun_resource: scoped_resource system_ok "\<lambda>S (_ :: unit). utun_open S" "\<lambda>S ut. sy_close S (ut_fd ut)" "\<lambda>_ _. True"
proof
  fix S :: "'a system" and v y e y'
  assume "system_ok S v" and "utun_open S y = (Inl e, y')"
  with view_utun_open [of S v y "Inl e" y'] show "v y' = v y" by simp
next
  fix S :: "'a system" and v y ut y'
  assume "system_ok S v" and "utun_open S y = (Inr ut, y')"
  with view_utun_open [of S v y "Inr ut" y'] show "v (sy_close S (ut_fd ut) y') = v y" by (simp add: tunnel_adds_close)
qed

definition keys_free :: "sys_view \<Rightarrow> bool" where
  "keys_free w \<longleftrightarrow> IPV4_KEY \<notin> sv_keys w \<and> DNS_KEY \<notin> sv_keys w"

interpretation dns_resource: scoped_resource system_ok
  "\<lambda>S (interface, address, router, servers, domain). dns_install S interface address router servers domain" dns_remove
  "\<lambda>_. keys_free"
  by unfold_locales (auto simp: keys_free_def view_dns_remove split: if_splits dest!: view_dns_install)

definition lease_free :: "lease \<Rightarrow> sys_view \<Rightarrow> bool" where
  "lease_free l w \<longleftrightarrow> lease_destination l \<notin> fst ` sv_routes w \<and> keys_free w"

interpretation tunnel_resource: scoped_resource system_ok tunnel_up tunnel_drop lease_free
proof
  fix S :: "'a system" and v l y e y'
  assume "system_ok S v" and "lease_free l (v y)" and "tunnel_up S l y = (Inl e, y')"
  with tunnel_up_view [of S v l y] show "v y' = v y" by (simp add: lease_free_def keys_free_def)
next
  fix S :: "'a system" and v l y t y'
  assume "system_ok S v" and "lease_free l (v y)" and "tunnel_up S l y = (Inr t, y')"
  with tunnel_up_view [of S v l y] show "v (tunnel_drop S t y') = v y" by (simp add: lease_free_def keys_free_def)
qed


text \<open>A system with one descriptor, which keeps just what the view shows.\<close>

definition demo_connect :: "nat \<Rightarrow> u32 \<Rightarrow> u32 \<Rightarrow> sys_view \<Rightarrow> (errno + unit) \<times> sys_view" where
  "demo_connect fd ctl u w =
     (let name = ''utun'' @ nat_string (unat (u - 1)) in
      if name \<in> snd ` sv_routes w then (Inl EBUSY, w) else (Inr (), w\<lparr>sv_open := (sv_open w)(fd \<mapsto> Some name)\<rparr>))"

definition demo_ifname :: "nat \<Rightarrow> sys_view \<Rightarrow> (errno + bytes) \<times> sys_view" where
  "demo_ifname fd w =
     (case sv_open w fd of
        Some (Some name) \<Rightarrow>
          (let buf = map (of_char :: char \<Rightarrow> u8) name @ [0] in
           if string_of_bytes (takeWhile (\<lambda>b. b \<noteq> 0) buf) = name then (Inr buf, w) else (Inl (Errno 22), w))
      | _ \<Rightarrow> (Inl (Errno 22), w))"

definition demo_command :: "string \<Rightarrow> string list \<Rightarrow> sys_view \<Rightarrow> (string + bool \<times> string \<times> string) \<times> sys_view" where
  "demo_command program args w =
     (if program = ROUTE then
        (case args of
           [_, _, _, d] \<Rightarrow> (Inr (True, [], []), w\<lparr>sv_routes := {r \<in> sv_routes w. fst r \<noteq> d}\<rparr>)
         | [_, _, _, d, _, name] \<Rightarrow> (Inr (True, [], []), w\<lparr>sv_routes := insert (d, name) (sv_routes w)\<rparr>)
         | _ \<Rightarrow> (Inr (False, [], ''usage''), w))
      else (Inr (True, [], []), w))"

definition demo_system :: "sys_view system" where
  "demo_system =
     \<lparr>sy_socket = (\<lambda>w. if sv_open w 3 = None then (Inr 3, w\<lparr>sv_open := (sv_open w)(3 \<mapsto> None)\<rparr>) else (Inl (Errno 24), w)),
      sy_ctl_id = (\<lambda>fd name w. (Inr 5, w)),
      sy_connect = demo_connect,
      sy_ifname = demo_ifname,
      sy_rcvtimeo = (\<lambda>fd s us w. (Inr (), w)),
      sy_close = (\<lambda>fd w. w\<lparr>sv_open := (sv_open w)(fd := None),
          sv_routes := {r \<in> sv_routes w. sv_open w fd \<noteq> Some (Some (snd r))}\<rparr>),
      sy_command = demo_command,
      sy_store_open = (\<lambda>w. (True, w)),
      sy_store_set = (\<lambda>k x w. (True, w\<lparr>sv_keys := insert k (sv_keys w)\<rparr>)),
      sy_store_remove = (\<lambda>k w. (True, w\<lparr>sv_keys := sv_keys w - {k}\<rparr>))\<rparr>"

definition demo_view :: sys_view where
  "demo_view = \<lparr>sv_open = Map.empty, sv_routes = {(''default'', ''en0'')}, sv_keys = {}\<rparr>"

lemma demo_commands:
  "run demo_system IFCONFIG args w = (Inr [], w)"
  "run demo_system ROUTE [a, b, c, d] w = (Inr [], w\<lparr>sv_routes := {r \<in> sv_routes w. fst r \<noteq> d}\<rparr>)"
  "run demo_system ROUTE [a, b, c, d, e, name] w = (Inr [], w\<lparr>sv_routes := insert (d, name) (sv_routes w)\<rparr>)"
  by (simp_all add: run_def demo_system_def demo_command_def ROUTE_def IFCONFIG_def)

lemma demo_system_ok: "system_ok demo_system (\<lambda>w. w)"
proof -
  have "socket_ok demo_system (\<lambda>w. w)"
    by (auto simp: socket_ok_def demo_system_def demo_connect_def demo_ifname_def Let_def split: option.splits)
  moreover have "command_ok demo_system (\<lambda>w. w)"
    unfolding command_ok_def demo_commands prod.case sum.case snd_conv
  proof (intro conjI allI)
    fix name :: string and w :: sys_view
    show "\<exists>R \<subseteq> UNIV \<times> {name}. w = w\<lparr>sv_routes := sv_routes w \<union> R\<rparr>" by (intro exI [of _ "{}"]) simp
  next
    fix d :: string and w :: sys_view
    have "{r \<in> sv_routes w. fst r \<noteq> d} = sv_routes w - {d} \<times> UNIV" by auto
    then show "\<exists>R \<subseteq> {d} \<times> UNIV. w\<lparr>sv_routes := {r \<in> sv_routes w. fst r \<noteq> d}\<rparr> = w\<lparr>sv_routes := sv_routes w - R\<rparr>"
      by (intro exI [of _ "{d} \<times> UNIV"]) simp
  qed simp
  moreover have "store_ok demo_system (\<lambda>w. w)"
    by (simp add: store_ok_def demo_system_def)
  ultimately show ?thesis by (simp add: system_ok_def)
qed

abbreviation demo_lease :: lease where
  "demo_lease \<equiv> server_lease (Ipv4Addr 192 168 42 130) (Ipv4Addr 192 168 42 129) 3600
      (Ipv4Addr 255 255 255 0) (Ipv4Addr 192 168 42 129) []"

lemma demo_destination:
  "ip_string (subnet_of (le_ip demo_lease) (le_netmask demo_lease)) @ ''/'' @ nat_string (unat (lease_prefix_len demo_lease))
   = ''192.168.42.0/24''"
proof -
  have "u32_of_ip (le_netmask demo_lease) = NOT (mask (32 - 24))" by (simp add: server_lease_def) code_simp
  then have "unat (lease_prefix_len demo_lease) = 24" by (intro prefix_len_netmask) simp_all
  moreover have "subnet_of (le_ip demo_lease) (le_netmask demo_lease) = Ipv4Addr 192 168 42 0"
    by (simp add: server_lease_def) code_simp
  ultimately show ?thesis by (simp add: nat_string.simps)
qed

lemma demo_open: "utun_open demo_system demo_view =
    (Inr \<lparr>ut_fd = 3, ut_name = ''utun0''\<rparr>, demo_view\<lparr>sv_open := [3 \<mapsto> Some ''utun0'']\<rparr>)"
proof -
  have "char_of (110::nat) = CHR ''n''" "char_of (117::nat) = CHR ''u''" "char_of (116::nat) = CHR ''t''"
    "char_of (48::nat) = CHR ''0''" by code_simp+
  then show ?thesis
    by (simp add: utun_open_def MAX_UNIT_def upt_rec [of 0] utun_open_unit_def demo_system_def demo_view_def
        demo_connect_def interface_name_def demo_ifname_def string_of_bytes_def nat_string.simps)
qed

lemma demo_up: "tunnel_up demo_system demo_lease demo_view =
    (Inr \<lparr>tn_utun = \<lparr>ut_fd = 3, ut_name = ''utun0''\<rparr>, tn_lease = demo_lease, tn_routes = [''192.168.42.0/24''], tn_dns = [IPV4_KEY]\<rparr>,
     \<lparr>sv_open = [3 \<mapsto> Some ''utun0''], sv_routes = {(''default'', ''en0''), (''192.168.42.0/24'', ''utun0'')}, sv_keys = {IPV4_KEY}\<rparr>)"
proof -
  have lease: "le_router demo_lease = Some (Ipv4Addr 192 168 42 129)" "le_dns demo_lease = []"
    by (simp_all add: server_lease_def)
  have calls: "sy_rcvtimeo demo_system fd a b w = (Inr (), w)" "sy_store_open demo_system w = (True, w)"
     "sy_store_set demo_system k x w = (True, w\<lparr>sv_keys := insert k (sv_keys w)\<rparr>)" for fd a b w k x
    by (simp_all add: demo_system_def)
  have "{r. r = (''default'', ''en0'') \<and> fst r \<noteq> ''192.168.42.0/24''} = {(''default'', ''en0'')}" by auto
  then show ?thesis
    unfolding tunnel_up_def lease option.case
    by (simp add: demo_open trys_def set_read_timeout_def calls configure_interface_def routes_install_def
        routes_add_def demo_commands dns_install_def dns_set_def lease Let_def demo_destination [simplified])
      (auto simp: demo_view_def)
qed


end
