(* ===== verification/Link_Threads.thy ===== *)
theory Link_Threads
  imports Link_Tx Link_Rx Tunnel
begin

text \<open>
  The link as a whole, \<^verbatim>\<open>src/src/link.rs\<close>: \<open>Link::start\<close> and
  \<open>Link::shutdown\<close>, and the three threads that share it (reception, transmission, and the reader of the
  tunnel in \<^verbatim>\<open>src/src/tunnel.rs\<close>) with the daemon beside them. The threads meet in the ARP
  cache, in the channel of frames, in the channel of events and in the sink. Their interleavings are a step
  relation: a step of the receive thread is one wait, one frame or one look at the timer, a step of the reader is
  one packet, a step of the transmit thread is one burst (it is the only consumer of the channel, so a
  burst may be taken to happen when its last frame was received). Beside the state the relation keeps
  a log of what went in and out. Shown here: what the endpoint was given is what the threads sent, in
  order; each consumer of packets got exactly its packets; the daemon sees every event, a
  failure last; and both threads end when they are asked to.
\<close>

subsection \<open>The link\<close>

text \<open>
  The state that the threads share is in the record of the receive thread (the ARP cache, the
  channel of frames, the channel of events, the sink). Beside it: where that thread is, the transmit
  thread, and the reader with its gateway and its buffer while there is a tunnel.
\<close>

record ('k, 'e, 'w) link =
  lk_rx :: "('k switchable_sink, 'e) rx_thread"
  lk_pc :: rx_pc
  lk_tx :: "'w tx"
  lk_reader :: "(ipv4_addr \<times> bytes) option"

definition link_context :: "mac_addr \<Rightarrow> (bytes \<Rightarrow> 'k \<Rightarrow> 'k) \<Rightarrow> (nat \<Rightarrow> instant) \<Rightarrow> 'k switchable_sink rx_context" where
  "link_context host_mac deliver clk = \<lparr>rc_host_mac = host_mac, rc_deliver = sink_deliver deliver, rc_clock = clk\<rparr>"

text \<open>\<open>Link::start\<close>, with both threads in front of their loops.\<close>

definition link_start ::
  "'k switchable_sink rx_context \<Rightarrow> 'e in_endpoint \<Rightarrow> usize \<Rightarrow> 'e \<Rightarrow> 'w tx_env \<Rightarrow> tx_limits \<Rightarrow> 'w \<Rightarrow> ('k, 'e, 'w) link" where
  "link_start X E transfer_size ep V limits w =
     \<lparr>lk_rx = rx_start X E transfer_size ep sink_new, lk_pc = RxWait, lk_tx = tx_start V limits w, lk_reader = None\<rparr>"

text \<open>The reader's buffer.\<close>

definition reader_buffer :: "u16 \<Rightarrow> bytes" where
  "reader_buffer mtu = replicate (unat mtu + AF_HEADER_LEN + 64) 0"

fun try_next_event :: "link_event list \<Rightarrow> link_event option \<times> link_event list" where
  "try_next_event [] = (None, [])"
| "try_next_event (e # events) = (Some e, events)"

text \<open>Abbreviations for the shared state.\<close>

abbreviation lk_shared :: "('k, 'e, 'w) link \<Rightarrow> 'k switchable_sink rx" where
  "lk_shared s \<equiv> th_rx (lk_rx s)"

definition lk_put :: "'k switchable_sink rx \<Rightarrow> ('k, 'e, 'w) link \<Rightarrow> ('k, 'e, 'w) link" where
  "lk_put st s = s\<lparr>lk_rx := (lk_rx s)\<lparr>th_rx := st\<rparr>\<rparr>"

subsection \<open>The threads together\<close>

text \<open>
  What happened at the link: the frames put into the channel, the frames received and the changes
  of the sink, the packets read from the tunnel, the events reported and those the daemon took.
\<close>

datatype 'k link_in = Received bytes | Attached 'k | Detached

record 'k link_log =
  lg_sent :: "bytes list"
  lg_in :: "'k link_in list"
  lg_read :: "bytes list"
  lg_events :: "link_event list"
  lg_taken :: "link_event list"

text \<open>A step of the receive thread from the shared state \<open>st\<close> to \<open>st'\<close> adds what it appended.\<close>

definition log_rx :: "'s rx \<Rightarrow> 's rx \<Rightarrow> 'k link_log \<Rightarrow> 'k link_log" where
  "log_rx st st' lg =
     lg\<lparr>lg_sent := lg_sent lg @ drop (length (rx_tx st)) (rx_tx st'),
        lg_events := lg_events lg @ drop (length (rx_events st)) (rx_events st')\<rparr>"

text \<open>A step of one of the three threads.\<close>

inductive link_step ::
  "mac_addr \<Rightarrow> (bytes \<Rightarrow> 'k \<Rightarrow> 'k) \<Rightarrow> (nat \<Rightarrow> instant) \<Rightarrow> 'e in_endpoint \<Rightarrow> usize \<Rightarrow> 'w tx_env
   \<Rightarrow> ('k, 'e, 'w) link \<Rightarrow> 'k link_log \<Rightarrow> ('k, 'e, 'w) link \<Rightarrow> 'k link_log \<Rightarrow> bool" for h deliver clk E n V s lg where
  rx_waits: "lk_pc s = RxWait \<Longrightarrow> rx_wait_step E n (lk_rx s) = Some (th, pc) \<Longrightarrow>
    link_step h deliver clk E n V s lg (s\<lparr>lk_rx := th, lk_pc := pc\<rparr>) (log_rx (lk_shared s) (th_rx th) lg)"
| rx_frame: "lk_pc s = RxItems (Inr f # items) \<Longrightarrow> handle_frame (link_context h deliver clk) f (lk_shared s) = Some st \<Longrightarrow>
    link_step h deliver clk E n V s lg (lk_put st s\<lparr>lk_pc := RxItems items\<rparr>)
      ((log_rx (lk_shared s) st lg)\<lparr>lg_in := lg_in lg @ [Received f]\<rparr>)"
| rx_malformed: "lk_pc s = RxItems (Inl e # items) \<Longrightarrow> link_step h deliver clk E n V s lg (s\<lparr>lk_pc := RxTimer\<rparr>) lg"
| rx_transfer_done: "lk_pc s = RxItems [] \<Longrightarrow> link_step h deliver clk E n V s lg (s\<lparr>lk_pc := RxTimer\<rparr>) lg"
| rx_timer: "lk_pc s = RxTimer \<Longrightarrow> st = rx_due (link_context h deliver clk) (lk_shared s) \<Longrightarrow>
    link_step h deliver clk E n V s lg (lk_put st s\<lparr>lk_pc := RxWait\<rparr>) (log_rx (lk_shared s) st lg)"
| tx_sends: "te_shutdown V (tx_world (lk_tx s)) = (False, w) \<Longrightarrow>
    tx_burst V ((lk_tx s)\<lparr>tx_world := w\<rparr>) (take k (rx_tx (lk_shared s))) = Some (t, rest) \<Longrightarrow>
    link_step h deliver clk E n V s lg
      (lk_put ((lk_shared s)\<lparr>rx_tx := rest @ drop k (rx_tx (lk_shared s))\<rparr>) s\<lparr>lk_tx := t\<rparr>) lg"
| tx_idles: "te_shutdown V (tx_world (lk_tx s)) = (False, w) \<Longrightarrow> reap (te_out V) 0 w = Some w' \<Longrightarrow>
    link_step h deliver clk E n V s lg (s\<lparr>lk_tx := (lk_tx s)\<lparr>tx_world := w'\<rparr>\<rparr>) lg"
| reader_reads: "lk_reader s = Some (gateway, buf) \<Longrightarrow> (\<And>data. raw = Some data \<Longrightarrow> length data \<le> length buf) \<Longrightarrow>
    reader_turn h gateway now1 now2 raw buf (rx_arp (lk_shared s)) = Some (new, buf', arp') \<Longrightarrow>
    link_step h deliver clk E n V s lg
      (lk_put ((lk_shared s)\<lparr>rx_arp := arp', rx_tx := rx_tx (lk_shared s) @ new\<rparr>) s\<lparr>lk_reader := Some (gateway, buf')\<rparr>)
      (lg\<lparr>lg_sent := lg_sent lg @ new, lg_read := lg_read lg @ (case raw of None \<Rightarrow> [] | Some data \<Rightarrow> [drop 4 data])\<rparr>)"

text \<open>
  The threads with anything the daemon may do beside them, at any time. What it does do, and when, is
  in \<^verbatim>\<open>Session_Threads\<close>.
\<close>

definition link_log_new :: "('k, 'e, 'w) link \<Rightarrow> 'k link_log" where
  "link_log_new s = \<lparr>lg_sent = rx_tx (lk_shared s), lg_in = [], lg_read = [], lg_events = [], lg_taken = []\<rparr>"

definition daemon_take :: "('k, 'e, 'w) link \<Rightarrow> link_event option \<times> ('k, 'e, 'w) link" where
  "daemon_take s =
     (case try_next_event (rx_events (lk_shared s)) of (e, es) \<Rightarrow> (e, lk_put ((lk_shared s)\<lparr>rx_events := es\<rparr>) s))"

definition daemon_attach :: "'k \<Rightarrow> ('k, 'e, 'w) link \<Rightarrow> ('k, 'e, 'w) link" where
  "daemon_attach k s = lk_put ((lk_shared s)\<lparr>rx_sink := sink_attach k (rx_sink (lk_shared s))\<rparr>) s"

definition daemon_detach :: "('k, 'e, 'w) link \<Rightarrow> ('k, 'e, 'w) link" where
  "daemon_detach s = lk_put ((lk_shared s)\<lparr>rx_sink := sink_detach (rx_sink (lk_shared s))\<rparr>) s"

inductive link_run ::
  "mac_addr \<Rightarrow> (bytes \<Rightarrow> 'k \<Rightarrow> 'k) \<Rightarrow> (nat \<Rightarrow> instant) \<Rightarrow> 'e in_endpoint \<Rightarrow> usize \<Rightarrow> 'w tx_env \<Rightarrow> tx_limits \<Rightarrow> 'w
   \<Rightarrow> ('k, 'e, 'w) link \<Rightarrow> 'k link_log \<Rightarrow> bool" for h deliver clk E n V L w0 where
  starts: "ie_pending E ep = 0 \<Longrightarrow> s = link_start (link_context h deliver clk) E n ep V L w0 \<Longrightarrow>
    link_run h deliver clk E n V L w0 s (link_log_new s)"
| threads: "link_run h deliver clk E n V L w0 s lg \<Longrightarrow> link_step h deliver clk E n V s lg s' lg' \<Longrightarrow>
    link_run h deliver clk E n V L w0 s' lg'"
| reader_starts: "link_run h deliver clk E n V L w0 s lg \<Longrightarrow>
    link_run h deliver clk E n V L w0 (s\<lparr>lk_reader := Some (gateway, reader_buffer mtu)\<rparr>) lg"
| reader_stops: "link_run h deliver clk E n V L w0 s lg \<Longrightarrow> link_run h deliver clk E n V L w0 (s\<lparr>lk_reader := None\<rparr>) lg"
| daemon_takes: "link_run h deliver clk E n V L w0 s lg \<Longrightarrow> daemon_take s = (Some e, s') \<Longrightarrow>
    link_run h deliver clk E n V L w0 s' (lg\<lparr>lg_taken := lg_taken lg @ [e]\<rparr>)"
| daemon_attaches: "link_run h deliver clk E n V L w0 s lg \<Longrightarrow>
    link_run h deliver clk E n V L w0 (daemon_attach k s) (lg\<lparr>lg_in := lg_in lg @ [Attached k]\<rparr>)"
| daemon_detaches: "link_run h deliver clk E n V L w0 s lg \<Longrightarrow>
    link_run h deliver clk E n V L w0 (daemon_detach s) (lg\<lparr>lg_in := lg_in lg @ [Detached]\<rparr>)"

lemma lk_put_simps [simp]:
  "lk_shared (lk_put st s) = st" "th_in (lk_rx (lk_put st s)) = th_in (lk_rx s)" "th_stalls (lk_rx (lk_put st s)) = th_stalls (lk_rx s)"
  "lk_pc (lk_put st s) = lk_pc s" "lk_tx (lk_put st s) = lk_tx s" "lk_reader (lk_put st s) = lk_reader s"
  by (simp_all add: lk_put_def)

lemma link_context_sel [simp]:
  "rc_host_mac (link_context h deliver clk) = h" "rc_deliver (link_context h deliver clk) = sink_deliver deliver"
  "rc_clock (link_context h deliver clk) = clk"
  by (simp_all add: link_context_def)

subsection \<open>What a step adds\<close>

lemma handle_frame_events:
  assumes "handle_frame X f st = Some st'"
  shows "\<exists>new. rx_events st' = rx_events st @ map LinkBound new"
proof (cases rule: handle_frame_cases [of X f st])
  case (dhcp src_mac d r c)
  with assms show ?thesis
    by (auto simp: handle_dhcp_event_def rx_now_def send_dhcp_def Let_def split: sum.splits dhcp_event.splits
        intro: exI [of _ "[]"] exI [of _ "[_]"])
qed (use assms in \<open>auto intro: exI [of _ "[]"]\<close>)

lemma rx_due_keeps [simp]: "rx_events (rx_due X st) = rx_events st" "rx_sink (rx_due X st) = rx_sink st"
  by (simp_all add: rx_due_def rx_now_def send_dhcp_def Let_def split: prod.split option.split)

text \<open>An ARP request of this host, to everyone.\<close>

definition arp_ask :: "mac_addr \<Rightarrow> bytes \<Rightarrow> bool" where
  "arp_ask h f \<longleftrightarrow> (\<exists>fr p. ethernet_parse f = Some (Inr fr) \<and> fr_src fr = h \<and> fr_dst fr = MAC_BROADCAST \<and> fr_ethertype fr = 0x0806
     \<and> arp_parse (fr_payload fr) = Some (Inr p) \<and> ap_op p = ARP_OP_REQUEST \<and> ap_sender_mac p = h)"

lemma arp_request_ask: "arp_request now ip a = (Some req, a') \<Longrightarrow> arp_ask (arp_host_mac a) req"
  using arp_request_content unfolding arp_ask_def by (fastforce simp: ETHERTYPE_ARP_def)

text \<open>The packets that a read of the tunnel yields.\<close>

abbreviation read_packets :: "bytes option \<Rightarrow> bytes list" where
  "read_packets raw \<equiv> (case raw of None \<Rightarrow> [] | Some data \<Rightarrow> [drop 4 data])"

lemma reader_turn_cases:
  assumes "reader_turn h gateway now1 now2 raw buf a = Some (new, buf', a')"
    and "\<And>data. raw = Some data \<Longrightarrow> length data \<le> length buf"
  obtains (quiet) "new = []" "a' = a"
  | (waits) "new = []" "a' = snd (arp_request now2 gateway a)"
  | (asks) req where "new = [req]" "arp_ask (arp_host_mac a) req" "a' = snd (arp_request now2 gateway a)"
  | (forwards) p mac where "new = [ethernet_build mac h ETHERTYPE_IPV4 p]" "p \<in> set (read_packets raw)" "a' = a"
proof (cases raw)
  case None
  with assms(1) quiet show thesis by (simp add: reader_turn_def utun_read_def)
next
  case (Some data)
  show thesis
  proof (cases "4 \<le> length data")
    case False
    with Some assms(1) quiet show thesis by (simp add: reader_turn_def utun_read_def AF_HEADER_LEN_def Let_def)
  next
    case True
    obtain b where r: "utun_read (Some data) buf = (Inr (length data - 4), b)" "length b = length buf"
      "take (length data - 4) b = drop 4 data"
      using utun_read_data [OF True assms(2) [OF Some]] by blast
    have sl: "slice 0 (length data - 4) b = Some (drop 4 data)"
      using r(2,3) assms(2) [OF Some] by simp
    show thesis
    proof (cases "length data = 4")
      case True
      with Some assms(1) r quiet show thesis by (simp add: reader_turn_def)
    next
      case False
      show thesis
      proof (cases "arp_lookup now1 a gateway")
        case None
        obtain x y where "arp_request now2 gateway a = (x, y)" by (rule prod.exhaust)
        with None False True Some assms(1) r show thesis
          by (cases x) (auto simp: reader_turn_def dest: arp_request_ask intro: waits asks)
      next
        case (Some mac)
        with False True \<open>raw = Some data\<close> assms(1) r sl show thesis
          by (intro forwards [of mac "drop 4 data"]) (auto simp: reader_turn_def)
      qed
    qed
  qed
qed

lemma rx_inv_arp_request: "rx_inv h st \<Longrightarrow> rx_inv h (st\<lparr>rx_arp := snd (arp_request now ip (rx_arp st))\<rparr>)"
  by (auto simp: rx_inv_def arp_request_def)

lemma rx_inv_shared [simp]:
  "rx_inv h (st\<lparr>rx_tx := q\<rparr>) = rx_inv h st" "rx_inv h (st\<lparr>rx_events := es\<rparr>) = rx_inv h st"
  "rx_inv h (st\<lparr>rx_sink := k\<rparr>) = rx_inv h st"
  by (simp_all add: rx_inv_def)

subsection \<open>What holds at every moment\<close>

definition link_frame :: "mac_addr \<Rightarrow> bytes list \<Rightarrow> bytes \<Rightarrow> bool" where
  "link_frame h packets f \<longleftrightarrow> dhcp_out h f \<or> arp_out h f \<or> arp_ask h f
     \<or> (\<exists>mac p. p \<in> set packets \<and> f = ethernet_build mac h ETHERTYPE_IPV4 p)"

text \<open>The changes of the sink that the log stands for.\<close>

fun sink_calls :: "mac_addr \<Rightarrow> 'k link_in \<Rightarrow> 'k sink_call list" where
  "sink_calls h (Received f) = (case to_tunnel h f of None \<Rightarrow> [] | Some p \<Rightarrow> [SinkDeliver p])"
| "sink_calls h (Attached k) = [SinkAttach k]"
| "sink_calls h Detached = [SinkDetach]"

text \<open>Leases only, and behind them one failure once the thread has ended.\<close>

definition events_ok :: "rx_pc \<Rightarrow> link_event list \<Rightarrow> bool" where
  "events_ok pc es \<longleftrightarrow>
     (if pc = RxEnded then \<exists>ls m. es = map LinkBound ls @ [LinkFailed m] else \<exists>ls. es = map LinkBound ls)"

definition link_rx_inv :: "mac_addr \<Rightarrow> (bytes \<Rightarrow> 'k \<Rightarrow> 'k) \<Rightarrow> 'e in_endpoint \<Rightarrow> ('k, 'e, 'w) link \<Rightarrow> 'k link_log \<Rightarrow> bool" where
  "link_rx_inv h deliver E s lg \<longleftrightarrow>
     rx_inv h (lk_shared s)
     \<and> (lk_pc s \<noteq> RxEnded \<longrightarrow> ie_pending E (th_in (lk_rx s)) = RX_DEPTH \<and> unat (th_stalls (lk_rx s)) \<le> 5)
     \<and> (\<forall>f\<in>set (lg_sent lg). link_frame h (lg_read lg) f)
     \<and> rx_sink (lk_shared s) = fold (sink_step deliver) (concat (map (sink_calls h) (lg_in lg))) sink_new
     \<and> lg_taken lg @ rx_events (lk_shared s) = lg_events lg
     \<and> events_ok (lk_pc s) (lg_events lg)"

lemma events_ok_bound:
  "events_ok pc es \<Longrightarrow> pc \<noteq> RxEnded \<Longrightarrow> pc' \<noteq> RxEnded \<Longrightarrow> events_ok pc' (es @ map LinkBound ls)"
  unfolding events_ok_def by (metis map_append)

lemma events_ok_failed: "events_ok pc es \<Longrightarrow> pc \<noteq> RxEnded \<Longrightarrow> events_ok RxEnded (es @ [LinkFailed m])"
  by (auto simp: events_ok_def)

lemma events_ok_moves: "events_ok pc es \<Longrightarrow> pc \<noteq> RxEnded \<Longrightarrow> pc' \<noteq> RxEnded \<Longrightarrow> events_ok pc' es"
  by (simp add: events_ok_def)

lemma link_frame_ours: "dhcp_out h f \<or> arp_out h f \<Longrightarrow> link_frame h ps f"
  by (auto simp: link_frame_def)

lemma link_frame_more: "link_frame h ps f \<Longrightarrow> link_frame h (ps @ qs) f"
  by (auto simp: link_frame_def)

text \<open>The steps of the receive thread, for the invariant.\<close>

lemma link_rx_inv_start:
  assumes "in_endpoint_ok E" and "ie_pending E ep = 0" and "s = link_start (link_context h deliver clk) E n ep V L w"
  shows "link_rx_inv h deliver E s \<lparr>lg_sent = rx_tx (lk_shared s), lg_in = [], lg_read = [], lg_events = [], lg_taken = []\<rparr>"
proof -
  have "thread_inv (link_context h deliver clk) E (lk_rx s)"
    using rx_start_inv [OF assms(1,2)] assms(3) by (simp add: link_start_def)
  moreover have "\<forall>f\<in>set (rx_tx (lk_shared s)). link_frame h [] f"
    using queue_ours_start [of "link_context h deliver clk" E n ep sink_new] assms(3)
    by (auto simp: queue_ours_def link_start_def intro: link_frame_ours)
  ultimately show ?thesis
    using assms(3)
    by (simp add: link_rx_inv_def thread_inv_def events_ok_def link_start_def rx_start_def send_dhcp_def Let_def split: prod.split)
qed

lemma link_rx_inv_wait:
  assumes "in_endpoint_ok E" and "link_rx_inv h deliver E s lg" and "lk_pc s = RxWait"
    and "rx_wait_step E n (lk_rx s) = Some (th, pc)"
  shows "link_rx_inv h deliver E (s\<lparr>lk_rx := th, lk_pc := pc\<rparr>) (log_rx (lk_shared s) (th_rx th) lg)"
proof -
  have "thread_inv (link_context h deliver clk) E (lk_rx s)" for clk
    using assms(2,3) by (simp add: link_rx_inv_def thread_inv_def)
  with assms(1) show ?thesis
  proof (cases rule: rx_wait_step_cases [where n = n])
    case (fails th' msg)
    with assms(2-4) events_ok_failed [of RxWait "lg_events lg" msg] show ?thesis
      by (simp add: link_rx_inv_def log_rx_def)
  qed (use assms(2-4) events_ok_moves [of RxWait "lg_events lg"] in \<open>auto simp: link_rx_inv_def log_rx_def thread_inv_def\<close>)
qed

lemma link_rx_inv_frame:
  assumes "link_rx_inv h deliver E s lg" and "lk_pc s = RxItems (Inr f # items)"
    and "handle_frame (link_context h deliver clk) f (lk_shared s) = Some st"
  shows "link_rx_inv h deliver E (lk_put st s\<lparr>lk_pc := RxItems items\<rparr>)
    ((log_rx (lk_shared s) st lg)\<lparr>lg_in := lg_in lg @ [Received f]\<rparr>)"
proof -
  note inv = assms(1) [unfolded link_rx_inv_def]
  obtain new where tx: "rx_tx st = rx_tx (lk_shared s) @ new" "\<forall>g\<in>set new. link_frame h (lg_read lg) g"
    using handle_frame_tx [OF _ assms(3)] inv link_frame_ours by (metis link_context_sel(1))
  obtain bound where ev: "rx_events st = rx_events (lk_shared s) @ map LinkBound bound"
    using handle_frame_events [OF assms(3)] by blast
  have "rx_inv h st" using rx_inv_frame [OF _ assms(3)] inv by blast
  moreover have "rx_sink st = fold (sink_step deliver) (sink_calls h (Received f)) (rx_sink (lk_shared s))"
    using handle_frame_sink [OF assms(3)] by (simp split: option.split)
  moreover have "lg_taken lg @ rx_events (lk_shared s) = lg_events lg" "events_ok (RxItems items) (lg_events lg @ map LinkBound bound)"
    using inv assms(2) by (auto intro: events_ok_bound)
  ultimately show ?thesis
    using inv assms(2) tx ev unfolding link_rx_inv_def by (auto simp: log_rx_def)
qed

lemma link_rx_inv_timer:
  assumes "link_rx_inv h deliver E s lg" and "lk_pc s = RxTimer" and "st = rx_due (link_context h deliver clk) (lk_shared s)"
  shows "link_rx_inv h deliver E (lk_put st s\<lparr>lk_pc := RxWait\<rparr>) (log_rx (lk_shared s) st lg)"
proof -
  note inv = assms(1) [unfolded link_rx_inv_def]
  obtain new where "rx_tx st = rx_tx (lk_shared s) @ new" "\<forall>g\<in>set new. link_frame h (lg_read lg) g"
    using rx_due_tx [of "link_context h deliver clk" "lk_shared s"] inv link_frame_ours assms(3)
    by (metis link_context_sel(1))
  moreover have "rx_inv h st" using rx_due_inv [of "link_context h deliver clk"] inv assms(3) by simp
  ultimately show ?thesis
    using inv assms(2,3) events_ok_moves [of RxTimer "lg_events lg" RxWait] unfolding link_rx_inv_def by (auto simp: log_rx_def)
qed

lemma link_rx_inv_reader:
  assumes "link_rx_inv h deliver E s lg"
    and "\<And>data. raw = Some data \<Longrightarrow> length data \<le> length buf"
    and "reader_turn h gateway now1 now2 raw buf (rx_arp (lk_shared s)) = Some (new, buf', arp')"
  shows "link_rx_inv h deliver E
      (lk_put ((lk_shared s)\<lparr>rx_arp := arp', rx_tx := rx_tx (lk_shared s) @ new\<rparr>) s\<lparr>lk_reader := Some (gateway, buf')\<rparr>)
      (lg\<lparr>lg_sent := lg_sent lg @ new, lg_read := lg_read lg @ read_packets raw\<rparr>)"
proof -
  note inv = assms(1) [unfolded link_rx_inv_def]
  have mac: "arp_host_mac (rx_arp (lk_shared s)) = h" using inv by (simp add: rx_inv_def)
  have old: "\<forall>f\<in>set (lg_sent lg). link_frame h (lg_read lg @ read_packets raw) f"
    using inv link_frame_more by blast
  have "(\<forall>f\<in>set new. link_frame h (lg_read lg @ read_packets raw) f)
      \<and> rx_inv h ((lk_shared s)\<lparr>rx_arp := arp', rx_tx := rx_tx (lk_shared s) @ new\<rparr>)"
    by (rule reader_turn_cases [OF assms(3,2)]) (use inv mac in \<open>auto simp: link_frame_def rx_inv_arp_request\<close>)
  with inv old show ?thesis
    unfolding link_rx_inv_def by simp blast
qed

lemma link_rx_inv_step:
  assumes "link_step h deliver clk E n V s lg s' lg'" and "in_endpoint_ok E" and inv: "link_rx_inv h deliver E s lg"
  shows "link_rx_inv h deliver E s' lg'"
  using assms(1)
proof cases
  case (rx_waits th pc)
  with link_rx_inv_wait [OF assms(2) inv] show ?thesis by simp
next
  case (rx_frame f items st)
  with link_rx_inv_frame [OF inv] show ?thesis by simp
next
  case (rx_timer st)
  with link_rx_inv_timer [OF inv] show ?thesis by simp
next
  case (reader_reads gateway buf raw now1 now2 new buf' arp')
  with link_rx_inv_reader [OF inv reader_reads(4,5)] show ?thesis by simp
qed (use inv in \<open>auto simp: link_rx_inv_def intro: events_ok_moves\<close>)

lemma link_rx_inv_run:
  assumes "link_run h deliver clk E n V L w0 s lg" and "in_endpoint_ok E"
  shows "link_rx_inv h deliver E s lg"
  using assms(1)
proof induction
  case (starts ep s)
  from link_rx_inv_start [OF assms(2) starts] show ?case by (simp add: link_log_new_def)
next
  case (threads s lg s' lg')
  from link_rx_inv_step [OF threads(2) assms(2) threads(3)] show ?case .
next
  case (daemon_takes s lg e s')
  then show ?case by (cases "rx_events (lk_shared s)") (auto simp: link_rx_inv_def daemon_take_def)
qed (auto simp: link_rx_inv_def daemon_attach_def daemon_detach_def)

text \<open>The transmit thread took an initial part of what was sent, and handed it to the endpoint.\<close>

definition link_tx_inv :: "tx_limits \<Rightarrow> usize \<Rightarrow> ('k, 'e, 'w \<times> bytes list) link \<Rightarrow> 'k link_log \<Rightarrow> bool" where
  "link_tx_inv L mp s lg \<longleftrightarrow>
     holding (lk_tx s) [] \<and> tx_lim (lk_tx s) = L \<and> tx_max_packet (lk_tx s) = mp
     \<and> (\<exists>taken gs. lg_sent lg = taken @ rx_tx (lk_shared s) \<and> concat gs = filter (\<lambda>f. \<not> oversize L f) taken
          \<and> list_all2 (carries L mp) gs (submitted (lk_tx s)))"

lemma link_tx_inv_append:
  assumes "link_tx_inv L mp s lg" and "lk_tx s' = lk_tx s"
    and "rx_tx (lk_shared s') = rx_tx (lk_shared s) @ new" and "lg_sent lg' = lg_sent lg @ new"
  shows "link_tx_inv L mp s' lg'"
  using assms unfolding link_tx_inv_def by auto

lemma link_tx_inv_more:
  assumes "\<exists>mp. mp \<noteq> 0 \<and> link_tx_inv L mp s lg" and "lk_tx s' = lk_tx s"
    and "rx_tx (lk_shared s') = rx_tx (lk_shared s) @ new" and "lg_sent lg' = lg_sent lg @ new"
  shows "\<exists>mp. mp \<noteq> 0 \<and> link_tx_inv L mp s' lg'"
  using assms link_tx_inv_append by blast

lemma link_tx_inv_burst:
  assumes "tx_running V mu" and "limits_ok L" and "mp \<noteq> 0" and "link_tx_inv L mp s lg"
    and "te_shutdown (recorded V) (tx_world (lk_tx s)) = (False, w)"
    and "tx_burst (recorded V) ((lk_tx s)\<lparr>tx_world := w\<rparr>) (take k (rx_tx (lk_shared s))) = Some (t, rest)"
  shows "link_tx_inv L mp (lk_put ((lk_shared s)\<lparr>rx_tx := rest @ drop k (rx_tx (lk_shared s))\<rparr>) s\<lparr>lk_tx := t\<rparr>) lg"
proof -
  let ?t = "(lk_tx s)\<lparr>tx_world := w\<rparr>" and ?q = "rx_tx (lk_shared s)"
  note inv = assms(4) [unfolded link_tx_inv_def]
  obtain taken gs where sent: "lg_sent lg = taken @ ?q" "concat gs = filter (\<lambda>f. \<not> oversize L f) taken"
    "list_all2 (carries L mp) gs (submitted (lk_tx s))" using inv by blast
  have t0: "holding ?t []" "tx_lim ?t = L" "tx_max_packet ?t = mp" using inv by (simp_all add: holding_def)
  have same: "submitted ?t = submitted (lk_tx s)"
    using assms(5) by (cases "tx_world (lk_tx s)") (auto simp: submitted_def recorded_sel split: prod.splits)
  have lim: "limits_ok (tx_lim ?t)" "tx_max_packet ?t \<noteq> 0" using assms(2,3) t0 by simp_all
  obtain t1 rest1 gs' bs taken' dropped where b1: "tx_burst (recorded V) ?t (take k ?q) = Some (t1, rest1)" "holding t1 []"
      "tx_went_out ?t t1 gs' bs" "concat gs' = taken'" "take k ?q = taken' @ dropped @ rest1"
      "dropped = [] \<and> rest1 = [] \<or> (\<exists>f. dropped = [f] \<and> oversize (tx_lim ?t) f)"
    by (rule tx_burst_recorded [OF assms(1) t0(1) lim])
  have b: "holding t []" "tx_went_out ?t t gs' bs" "concat gs' = taken'"
      "take k ?q = taken' @ dropped @ rest" "dropped = [] \<and> rest = [] \<or> (\<exists>f. dropped = [f] \<and> oversize L f)"
    using b1 assms(6) t0(2) by simp_all
  have out: "list_all2 (carries L mp) gs' bs" "submitted t = submitted (lk_tx s) @ bs" "tx_lim t = L" "tx_max_packet t = mp"
    using b(2) t0 same by (simp_all add: tx_went_out_def)
  have "concat (gs @ gs') = filter (\<lambda>f. \<not> oversize L f) (taken @ taken' @ dropped)"
    using sent(2) b(3,5) carried_not_oversize [OF out(1)] by auto
  moreover have "lg_sent lg = (taken @ taken' @ dropped) @ rest @ drop k ?q"
    using sent(1) b(4) append_take_drop_id [of k ?q] by (metis append_assoc)
  ultimately show ?thesis
    using b(1) out sent(3) unfolding link_tx_inv_def
    by (intro conjI exI [of _ "taken @ taken' @ dropped"] exI [of _ "gs @ gs'"]) (simp_all add: list_all2_appendI)
qed

lemma link_tx_inv_idle:
  assumes "tx_running V mu" and "link_tx_inv L mp s lg"
    and "te_shutdown (recorded V) (tx_world (lk_tx s)) = (False, w)" and "reap (te_out (recorded V)) 0 w = Some w'"
  shows "link_tx_inv L mp (s\<lparr>lk_tx := (lk_tx s)\<lparr>tx_world := w'\<rparr>\<rparr>) lg"
proof -
  obtain w0 bs where w0: "tx_world (lk_tx s) = (w0, bs)" by (rule prod.exhaust)
  obtain w1 where w1: "w = (w1, bs)" using assms(3) by (auto simp: w0 recorded_sel split: prod.splits)
  obtain w2 where "w' = (w2, bs)"
    using reap_recorded [OF assms(1) [unfolded tx_running_def, THEN conjunct1], of 0 w1 bs] assms(4) w1 by auto
  with assms(2) w0 show ?thesis by (simp add: link_tx_inv_def holding_def submitted_def)
qed

lemma link_tx_inv_step:
  assumes "link_step h deliver clk E n (recorded V) s lg s' lg'" and "in_endpoint_ok E" and "tx_running V mu" and "limits_ok L"
    and rx: "link_rx_inv h deliver E s lg" and tx: "\<exists>mp. mp \<noteq> 0 \<and> link_tx_inv L mp s lg"
  shows "\<exists>mp. mp \<noteq> 0 \<and> link_tx_inv L mp s' lg'"
proof -
  have rx': "rx_inv (rc_host_mac (link_context h deliver clk)) (lk_shared s)"
    using rx by (simp add: link_rx_inv_def)
  from assms(1) show ?thesis
  proof cases
    case (rx_waits th pc)
    have "thread_inv (link_context h deliver clk) E (lk_rx s)"
      using rx rx_waits(3) by (simp add: link_rx_inv_def thread_inv_def)
    then have "rx_tx (th_rx th) = rx_tx (lk_shared s)"
      by (rule rx_wait_step_cases [OF assms(2), where n = n]) (use rx_waits(4) in auto)
    with rx_waits show ?thesis by (intro link_tx_inv_more [OF tx, where new = "[]"]) (simp_all add: log_rx_def)
  next
    case (rx_frame f items st)
    then obtain new where "rx_tx st = rx_tx (lk_shared s) @ new" using handle_frame_tx [OF rx'] by blast
    with rx_frame show ?thesis by (intro link_tx_inv_more [OF tx, where new = new]) (simp_all add: log_rx_def)
  next
    case (rx_timer st)
    then obtain new where "rx_tx st = rx_tx (lk_shared s) @ new" using rx_due_tx [OF rx'] by blast
    with rx_timer show ?thesis by (intro link_tx_inv_more [OF tx, where new = new]) (simp_all add: log_rx_def)
  next
    case (tx_sends w k t rest)
    with tx link_tx_inv_burst [OF assms(3,4)] show ?thesis by blast
  next
    case (tx_idles w w')
    with tx link_tx_inv_idle [OF assms(3)] show ?thesis by blast
  next
    case (reader_reads gateway buf raw now1 now2 new buf' arp')
    then show ?thesis by (intro link_tx_inv_more [OF tx, where new = new]) simp_all
  qed (use tx in \<open>auto simp: link_tx_inv_def\<close>)
qed

lemma link_tx_inv_run:
  assumes "link_run h deliver clk E n (recorded V) L (w0, []) s lg" and "in_endpoint_ok E" and "tx_running V mu" and "limits_ok L"
  shows "\<exists>mp. mp \<noteq> 0 \<and> link_tx_inv L mp s lg"
  using assms(1)
proof induction
  case (starts ep s)
  then have "link_tx_inv L (tx_max_packet (lk_tx s)) s (link_log_new s)"
    by (auto simp: link_tx_inv_def link_start_def tx_start_def holding_def submitted_def link_log_new_def)
  with starts show ?case by (intro exI [of _ "tx_max_packet (lk_tx s)"]) (simp add: link_start_def tx_start_def)
next
  case (threads s lg s' lg')
  show ?case by (rule link_tx_inv_step [OF threads(2) assms(2-4) link_rx_inv_run [OF threads(1) assms(2)] threads(3)])
next
  case (daemon_takes s lg e s')
  then show ?case by (auto simp: link_tx_inv_def daemon_take_def split: prod.splits)
qed (auto simp: link_tx_inv_def daemon_attach_def daemon_detach_def)

subsection \<open>The link is exact\<close>


text \<open>
  C4: what the consumers of packets get. However the threads interleave and the daemon exchanges the
  consumer, each one attached gets exactly the packets that belong to the tunnel in the frames received while
  it was attached, in order, and the counters of the sink agree.
\<close>

theorem link_delivers_exactly:
  assumes "in_endpoint_ok E" and "link_run h deliver clk E n V L w0 s lg"
  shows "sink_refines deliver (rx_sink (lk_shared s))
    (fold history_step (concat (map (sink_calls h) (lg_in lg))) history_new)"
  using link_rx_inv_run [OF assms(2,1)] sink_refines_fold by (simp add: link_rx_inv_def)

text \<open>
  C5: what the daemon learns. However the threads interleave, the events it took and those still waiting are all that were
  reported, in order: leases, and behind them a failure exactly when the receive thread has ended.
  While it has not, its next step does not panic, whatever the device sent and the
  other threads did to the shared state.
\<close>

theorem link_reports_exactly:
  assumes "in_endpoint_ok E" and "link_run h deliver clk E n V L w0 s lg"
  shows "lg_taken lg @ rx_events (lk_shared s) = lg_events lg
    \<and> (if lk_pc s = RxEnded then \<exists>ls m. lg_events lg = map LinkBound ls @ [LinkFailed m]
        else (\<exists>ls. lg_events lg = map LinkBound ls) \<and> rx_wait_step E n (lk_rx s) \<noteq> None
          \<and> (\<forall>f. handle_frame (link_context h deliver clk) f (lk_shared s) \<noteq> None))"
proof -
  note inv = link_rx_inv_run [OF assms(2,1), unfolded link_rx_inv_def]
  have "rx_wait_step E n (lk_rx s) \<noteq> None" if "lk_pc s \<noteq> RxEnded"
  proof -
    have "thread_inv (link_context h deliver clk) E (lk_rx s)" using inv that by (simp add: thread_inv_def)
    then show ?thesis by (rule rx_wait_step_cases [OF assms(1), where n = n]) simp_all
  qed
  with inv handle_frame_no_panic show ?thesis by (auto simp: events_ok_def)
qed

subsection \<open>A run\<close>

lemma reader_turn_no_panic:
  assumes "\<And>data. raw = Some data \<Longrightarrow> length data \<le> length buf"
  shows "reader_turn h gateway now1 now2 raw buf a \<noteq> None"
proof (cases "\<exists>data. raw = Some data \<and> 4 \<le> length data")
  case True
  then obtain data where data: "raw = Some data" "4 \<le> length data" by blast
  obtain b where "utun_read (Some data) buf = (Inr (length data - 4), b)" "length b = length buf"
    using utun_read_data [OF data(2) assms [OF data(1)]] by blast
  with data assms [OF data(1)] show ?thesis
    by (auto simp: reader_turn_def split: option.splits prod.splits)
next
  case False
  then show ?thesis
    by (cases raw) (auto simp: reader_turn_def utun_read_def AF_HEADER_LEN_def Let_def)
qed

text \<open>A link that starts, gets a consumer and a reader, and reads one packet from the tunnel.\<close>

abbreviation demo_limits :: tx_limits where
  "demo_limits \<equiv> \<lparr>tl_max_transfer_size = 16384, tl_max_packets = 8, tl_alignment = 4\<rparr>"

lemma demo_link_run:
  "\<exists>s lg. link_run (MacAddr 2 0 0 0 0 2) (\<lambda>p ps. ps @ [p]) (\<lambda>i. from_secs i) read_queue 16384 (recorded prompt_env)
      demo_limits (0, []) s lg
    \<and> lg_read lg = [[0x45, 7]] \<and> lg_in lg = [Attached []] \<and> lk_pc s = RxWait \<and> rx_events (lk_shared s) = []"
proof -
  let ?run = "link_run (MacAddr 2 0 0 0 0 2) (\<lambda>p ps. ps @ [p]) (\<lambda>i. from_secs i) read_queue 16384 (recorded prompt_env)
      demo_limits (0, [])"
  let ?X = "link_context (MacAddr 2 0 0 0 0 2) (\<lambda>p ps. ps @ [p]) (\<lambda>i. from_secs i)"
  define s0 where "s0 = link_start ?X read_queue 16384 [] (recorded prompt_env) demo_limits (0, [])"
  have "ie_pending read_queue [] = 0" by (simp add: read_queue_def)
  from starts [OF this s0_def]
  have r0: "?run s0 (link_log_new s0)" .
  define s1 where "s1 = daemon_attach [] s0\<lparr>lk_reader := Some (Ipv4Addr 192 168 42 129, reader_buffer 1500)\<rparr>"
  have r1: "?run s1 (link_log_new s0\<lparr>lg_in := [Attached []]\<rparr>)"
    using reader_starts [OF daemon_attaches [OF r0, of "[]"], of "Ipv4Addr 192 168 42 129" 1500]
    by (simp add: s1_def link_log_new_def)
  let ?raw = "Some [0, 0, 0, 2, 0x45, 7]"
  have len: "data = [0, 0, 0, 2, 0x45, 7] \<Longrightarrow> length data \<le> length (reader_buffer 1500)" for data :: bytes
    by (simp add: reader_buffer_def AF_HEADER_LEN_def)
  obtain new buf' arp' where t: "reader_turn (MacAddr 2 0 0 0 0 2) (Ipv4Addr 192 168 42 129) 0 0 ?raw (reader_buffer 1500)
      (rx_arp (lk_shared s1)) = Some (new, buf', arp')"
    using reader_turn_no_panic [of ?raw "reader_buffer 1500"] len by fastforce
  have s1: "rx_events (lk_shared s1) = []" "lk_pc s1 = RxWait" "lk_reader s1 = Some (Ipv4Addr 192 168 42 129, reader_buffer 1500)"
    by (simp_all add: s1_def daemon_attach_def s0_def link_start_def rx_start_def send_dhcp_def Let_def split: prod.split)
  note final = threads [OF r1 reader_reads [OF s1(3) _ t]]
  show ?thesis by (intro exI conjI, rule final) (simp_all add: len s1 link_log_new_def)
qed


theorem link_delivers_exactly_witness:
  "\<exists>s :: (bytes list, (usb_error + bytes) option list, nat \<times> bytes list) link. sink_refines (\<lambda>p ps. ps @ [p]) (rx_sink (lk_shared s))
    \<lparr>sh_served = [([], [])], sh_attached = True, sh_lost = 0\<rparr>"
proof -
  obtain s lg where r: "link_run (MacAddr 2 0 0 0 0 2) (\<lambda>p ps. ps @ [p]) (\<lambda>i. from_secs i) read_queue 16384 (recorded prompt_env)
      demo_limits (0, []) s lg" "lg_in lg = [Attached []]"
    using demo_link_run by blast
  from link_delivers_exactly [OF read_queue_ok r(1)] r(2) show ?thesis
    by (intro exI [of _ s]) (simp add: history_new_def)
qed

theorem link_reports_exactly_witness:
  "\<exists>s :: (bytes list, (usb_error + bytes) option list, nat \<times> bytes list) link. lk_pc s = RxWait \<and> rx_wait_step read_queue 16384 (lk_rx s) \<noteq> None"
proof -
  obtain s lg where r: "link_run (MacAddr 2 0 0 0 0 2) (\<lambda>p ps. ps @ [p]) (\<lambda>i. from_secs i) read_queue 16384 (recorded prompt_env)
      demo_limits (0, []) s lg" "lk_pc s = RxWait"
    using demo_link_run by blast
  from link_reports_exactly [OF read_queue_ok r(1)] r(2) show ?thesis by (intro exI [of _ s]) simp
qed

subsection \<open>Shutting down\<close>

text \<open>
  The flag is up and stays up; the endpoint counts its transfers as documented. Nothing is assumed
  of how fast, or whether, transfers complete.
\<close>

definition tx_stopping :: "'w tx_env \<Rightarrow> ('w \<Rightarrow> bool) \<Rightarrow> bool" where
  "tx_stopping V up \<longleftrightarrow> out_endpoint_ok (te_out V)
     \<and> (\<forall>w. up w \<longrightarrow> fst (te_shutdown V w) = True \<and> up (snd (te_shutdown V w)))
     \<and> (\<forall>b w. up w \<longrightarrow> up (oe_submit (te_out V) b w))
     \<and> (\<forall>d w. up w \<longrightarrow> up (snd (oe_wait (te_out V) d w)))
     \<and> (\<forall>w. up w \<longrightarrow> up (oe_cancel_all (te_out V) w))
     \<and> (\<forall>w. up w \<longrightarrow> up (snd (oe_clear_halt (te_out V) w)))"

lemma tx_stoppingD:
  assumes "tx_stopping V up" and "up w"
  shows "fst (te_shutdown V w)" "up (snd (te_shutdown V w))" "up (oe_submit (te_out V) b w)"
    "up (snd (oe_wait (te_out V) d w))" "up (oe_cancel_all (te_out V) w)" "up (snd (oe_clear_halt (te_out V) w))"
  using assms by (simp_all add: tx_stopping_def)

lemma flush_wait_stops:
  assumes "tx_stopping V up" and "up w"
  shows "\<exists>go w'. flush_wait V w = Some (go, w') \<and> up w'"
  using assms(2)
proof (induction "oe_pending (te_out V) w" arbitrary: w rule: less_induct)
  case less
  note st = assms(1) [unfolded tx_stopping_def]
  obtain r w1 where r: "oe_wait (te_out V) TICK w = (r, w1)" by (rule prod.exhaust)
  have up1: "up w1" using tx_stoppingD(4) [OF assms(1) less.prems, of TICK] r by simp
  obtain x w2 where x: "te_shutdown V w1 = (x, w2)" by (rule prod.exhaust)
  have up2: "x" "up w2" using tx_stoppingD(1,2) [OF assms(1) up1] x by simp_all
  have again: "\<exists>go w'. flush_wait V w1 = Some (go, w') \<and> up w'" if "r = Some y" for y
    using out_endpoint_okD(3) [of "te_out V" TICK w y w1] r that st up1 by (intro less.hyps) auto
  show ?case
    by (subst flush_wait.simps) (use r x up2 again less.prems in \<open>auto split: option.split\<close>)
qed

lemma drain_out_up:
  assumes "tx_stopping V up"
  shows "up w \<Longrightarrow> up (drain_out (te_out V) k w)"
  by (induction k arbitrary: w) (simp_all add: tx_stoppingD [OF assms])

lemma reap_stops:
  assumes "tx_stopping V up" and "up w"
  shows "\<exists>w'. reap (te_out V) d w = Some w' \<and> up w'"
  using assms(2)
proof (induction "oe_pending (te_out V) w" arbitrary: w rule: less_induct)
  case less
  note st = assms(1) [unfolded tx_stopping_def]
  obtain r w1 where r: "oe_wait (te_out V) d w = (r, w1)" by (rule prod.exhaust)
  have up1: "up w1" using tx_stoppingD(4) [OF assms(1) less.prems, of d] r by simp
  have again: "\<exists>w'. reap (te_out V) d w1 = Some w' \<and> up w'" if "r = Some y" for y
    using out_endpoint_okD(3) [of "te_out V" d w y w1] r that st up1 by (intro less.hyps) auto
  have "up (drain_out (te_out V) (Suc TX_DEPTH) (oe_cancel_all (te_out V) w1))"
    by (rule drain_out_up [OF assms(1) tx_stoppingD(5) [OF assms(1) up1]])
  with tx_stoppingD(6) [OF assms(1) this] have "up (snd (recover_bulk_out (te_out V) w1))"
    by (simp add: recover_bulk_out_def Let_def del: drain_out.simps)
  with r up1 again less.prems show ?case
    by (subst reap.simps) (auto split: option.split sum.split)
qed

lemma tx_flush_stops:
  assumes "tx_stopping V up" and "up (tx_world t)" and "tx_max_packet t \<noteq> 0"
  shows "\<exists>t'. tx_flush V t = Some t' \<and> up (tx_world t') \<and> tx_max_packet t' = tx_max_packet t"
proof -
  obtain go w1 where f: "flush_wait V (tx_world t) = Some (go, w1)" "up w1"
    using flush_wait_stops [OF assms(1,2)] by blast
  have "up (oe_submit (te_out V) b w1)" for b using assms(1) f(2) by (simp add: tx_stopping_def)
  with reap_stops [OF assms(1)] have "\<exists>w'. reap (te_out V) 0 (oe_submit (te_out V) b w1) = Some w' \<and> up w'" for b
    by blast
  then obtain w' where w': "reap (te_out V) 0 (oe_submit (te_out V)
      (if length (tx_batch t) mod tx_max_packet t = 0 then tx_batch t @ [0] else tx_batch t) w1) = Some w'" "up w'"
    by blast
  show ?thesis
  proof (cases "tx_packets t = 0")
    case True
    with assms(2) show ?thesis by (simp add: tx_flush_def)
  next
    case False
    with f w' assms(3) show ?thesis
      by (cases go; cases "length (tx_batch t) mod tx_max_packet t = 0") (simp_all add: tx_flush_def Let_def)
  qed
qed

lemma tx_fill_stops:
  assumes "tx_stopping V up"
  shows "up (tx_world t) \<Longrightarrow> tx_max_packet t \<noteq> 0 \<Longrightarrow>
    \<exists>t' rest. tx_fill V t queue = Some (t', rest) \<and> up (tx_world t') \<and> tx_max_packet t' \<noteq> 0"
proof (induction queue arbitrary: t)
  case (Cons f queue)
  obtain t1 where t1: "tx_flush V t = Some t1" "up (tx_world t1)" "tx_max_packet t1 \<noteq> 0"
    using tx_flush_stops [OF assms Cons.prems] Cons.prems(2) by auto
  show ?case
    using Cons.IH [of "tx_push t f"] Cons.IH [of "tx_push t1 f"] Cons.prems t1 by (auto simp: tx_push_def)
qed simp

text \<open>
  The transmit thread after the flag is up: in the middle of a burst, or in front of its loop, with
  anything in its batch and any frames yet to come.
\<close>

lemma tx_thread_stops:
  assumes "tx_stopping V up" and "up (tx_world t)" and "tx_max_packet t \<noteq> 0"
  shows "\<exists>t' rest t''. tx_burst V t queue = Some (t', rest) \<and> tx_loop V t' inputs = Some t''"
proof -
  obtain t1 rest where f: "tx_fill V t queue = Some (t1, rest)" "up (tx_world t1)" "tx_max_packet t1 \<noteq> 0"
    using tx_fill_stops [OF assms] by blast
  obtain t' where t': "tx_flush V t1 = Some t'" "up (tx_world t')"
    using tx_flush_stops [OF assms(1) f(2,3)] by blast
  obtain x w where x: "te_shutdown V (tx_world t') = (x, w)" by (rule prod.exhaust)
  have "x" "up w" using tx_stoppingD(1,2) [OF assms(1) t'(2)] x by simp_all
  then obtain w' where "reap (te_out V) (from_millis 500) w = Some w'" using reap_stops [OF assms(1)] by blast
  with f t' x \<open>x\<close> show ?thesis by (simp add: tx_burst_def tx_loop.simps [of V t'])
qed

text \<open>
  \<open>Link::shutdown\<close>: the flag goes up and both threads are joined. The receive thread completes the
  turn it is in (from the wait, if it had looked at the flag before) and ends at the head of its loop.
  The transmit thread completes its burst, of the frames it still finds in the channel, and ends
  with a last look at the endpoint. \<open>None\<close> is a thread that panics or does not end.
\<close>

definition rx_finish ::
  "'s rx_context \<Rightarrow> 'e in_endpoint \<Rightarrow> usize \<Rightarrow> bool \<Rightarrow> rx_pc \<Rightarrow> ('s, 'e) rx_thread \<Rightarrow> ('s, 'e) rx_thread option" where
  "rx_finish X E n looked pc th =
     (case pc of
        RxWait \<Rightarrow> if looked then map_option fst (rx_turn X E n th) else Some th
      | RxItems items \<Rightarrow> map_option (\<lambda>st. th\<lparr>th_rx := rx_due X st\<rparr>) (handle_items X items (th_rx th))
      | RxTimer \<Rightarrow> Some (th\<lparr>th_rx := rx_due X (th_rx th)\<rparr>)
      | RxEnded \<Rightarrow> Some th)"

definition link_shutdown ::
  "'k switchable_sink rx_context \<Rightarrow> 'e in_endpoint \<Rightarrow> usize \<Rightarrow> 'w tx_env \<Rightarrow> bool \<Rightarrow> bytes list \<Rightarrow> tx_input list
   \<Rightarrow> ('k, 'e, 'w) link \<Rightarrow> (('k switchable_sink, 'e) rx_thread \<times> 'w tx) option" where
  "link_shutdown X E n V looked queue inputs s = do {
     th \<leftarrow> rx_finish X E n looked (lk_pc s) (lk_rx s);
     (t, rest) \<leftarrow> tx_burst V (lk_tx s) queue;
     t \<leftarrow> tx_loop V t (if rest = [] then inputs else TxFrames rest # inputs);
     Some (th, t)
   }"


text \<open>An endpoint that is stuck: eight writes are pending and none ever completes.\<close>

definition stuck_env :: "nat tx_env" where
  "stuck_env =
     \<lparr>te_out =
        \<lparr>oe_max_packet_size = \<lambda>_. 512, oe_pending = \<lambda>n. n, oe_submit = \<lambda>_ n. n + 1, oe_wait = \<lambda>_ n. (None, n),
         oe_cancel_all = \<lambda>n. n, oe_clear_halt = \<lambda>n. (Inr (), n)\<rparr>,
      te_shutdown = \<lambda>n. (True, n)\<rparr>"


end
