(* ===== verification/Rndis_Control.thy ===== *)
theory Rndis_Control
  imports Rndis_Wire
begin

text \<open>
  The RNDIS control channel, \<^verbatim>\<open>src/src/rndis/control.rs\<close>: \<open>Rndis\<close> over any
  \<open>ControlTransport\<close>. The transport and the clock are a parameter, a record of functions on
  the transport's own state \<open>'t\<close>, so that the device may answer anything at any time. The
  waiting loop of \<open>transact\<close> is a \<open>partial_function\<close> into \<open>option\<close>: not
  returning is \<open>None\<close>. Shown here: with a clock that advances every operation returns; only
  the completion with the expected type and request id ends a transaction with success; the device's
  messages in between are served, each keepalive answered and each link change recorded; and a
  bring-up sends INITIALIZE, the address queries and the packet filter, in that order and nothing
  else, and yields a usable session.
\<close>

subsection \<open>The transport and the state\<close>

record 't control_transport =
  ct_send :: "bytes \<Rightarrow> 't \<Rightarrow> (rndis_error + unit) \<times> 't"
  ct_receive :: "'t \<Rightarrow> (rndis_error + bytes) \<times> 't"
  ct_await :: "duration \<Rightarrow> 't \<Rightarrow> (rndis_error + unit) \<times> 't"
  ct_now :: "'t \<Rightarrow> instant \<times> 't"

datatype link_state = LinkUnknown | LinkUp | LinkDown

record session =
  se_host_mac :: bytes
  se_device_max_transfer_size :: u32
  se_max_packets_per_transfer :: u32
  se_packet_alignment :: u32

record 't rndis =
  rn_transport :: 't
  rn_next_request_id :: u32
  rn_link :: link_state

type_synonym ('t, 'a) rndis_result = "(rndis_error + 'a) \<times> 't rndis"

definition TRANSACTION_TIMEOUT :: duration where "TRANSACTION_TIMEOUT = from_secs 5"
definition POLL_INTERVAL :: duration where "POLL_INTERVAL = from_millis 50"
definition HOST_MAX_TRANSFER_SIZE :: u32 where "HOST_MAX_TRANSFER_SIZE = 16384"

text \<open>\<open>x?\<close> on an operation with state that may not return.\<close>

definition tryo ::
  "(('e + 'a) \<times> 's) option \<Rightarrow> ('a \<Rightarrow> 's \<Rightarrow> (('e + 'b) \<times> 's) option) \<Rightarrow> (('e + 'b) \<times> 's) option" where
  "tryo m f = (case m of None \<Rightarrow> None | Some (Inl e, s) \<Rightarrow> Some (Inl e, s) | Some (Inr a, s) \<Rightarrow> f a s)"

text \<open>The transport's operations on the state that owns it.\<close>

definition rn_send :: "'t control_transport \<Rightarrow> bytes \<Rightarrow> 't rndis \<Rightarrow> ('t, unit) rndis_result" where
  "rn_send T msg r = (case ct_send T msg (rn_transport r) of (x, t) \<Rightarrow> (x, r\<lparr>rn_transport := t\<rparr>))"

definition rn_receive :: "'t control_transport \<Rightarrow> 't rndis \<Rightarrow> ('t, bytes) rndis_result" where
  "rn_receive T r = (case ct_receive T (rn_transport r) of (x, t) \<Rightarrow> (x, r\<lparr>rn_transport := t\<rparr>))"

definition rn_await :: "'t control_transport \<Rightarrow> duration \<Rightarrow> 't rndis \<Rightarrow> ('t, unit) rndis_result" where
  "rn_await T d r = (case ct_await T d (rn_transport r) of (x, t) \<Rightarrow> (x, r\<lparr>rn_transport := t\<rparr>))"

definition rn_now :: "'t control_transport \<Rightarrow> 't rndis \<Rightarrow> instant \<times> 't rndis" where
  "rn_now T r = (case ct_now T (rn_transport r) of (x, t) \<Rightarrow> (x, r\<lparr>rn_transport := t\<rparr>))"

subsection \<open>Operations\<close>

definition rndis_new :: "'t \<Rightarrow> 't rndis" where
  "rndis_new transport = \<lparr>rn_transport = transport, rn_next_request_id = 1, rn_link = LinkUnknown\<rparr>"

definition take_request_id :: "'t rndis \<Rightarrow> u32 \<times> 't rndis" where
  "take_request_id r =
     (rn_next_request_id r, r\<lparr>rn_next_request_id := max (rn_next_request_id r + 1) 1\<rparr>)"

definition handle_unsolicited ::
  "'t control_transport \<Rightarrow> u32 \<Rightarrow> bytes \<Rightarrow> 't rndis \<Rightarrow> ('t, unit) rndis_result" where
  "handle_unsolicited T msg_type reply r =
     (if msg_type = MSG_INDICATE then
        trys (decode_indicate_status reply, r) (\<lambda>status r.
          (Inr (), r\<lparr>rn_link :=
             (if status = STATUS_MEDIA_CONNECT then LinkUp
              else if status = STATUS_MEDIA_DISCONNECT then LinkDown
              else rn_link r)\<rparr>))
      else if msg_type = MSG_KEEPALIVE then
        trys (u32_at reply 8, r) (\<lambda>id r.
        trys (rn_send T (encode_keepalive_complete id) r) (\<lambda>_ r. (Inr (), r)))
      else (Inr (), r))"

text \<open>
  One turn of the waiting loop: an error leaves the function, \<open>Some reply\<close> is its return,
  \<open>None\<close> goes on with the next turn.
\<close>

definition transact_turn ::
  "'t control_transport \<Rightarrow> u32 \<Rightarrow> u32 \<Rightarrow> 't rndis \<Rightarrow> ('t, bytes option) rndis_result" where
  "transact_turn T expect request_id r =
     trys (rn_await T POLL_INTERVAL r) (\<lambda>_ r.
     trys (rn_receive T r) (\<lambda>reply r.
     if length reply < 12 then (Inr None, r)
     else
       trys (u32_at reply 0, r) (\<lambda>msg_type r.
       if msg_type = expect then
         trys (decode_completion reply, r) (\<lambda>(id, _) r.
         if id = request_id then (Inr (Some reply), r) else (Inr None, r))
       else trys (handle_unsolicited T msg_type reply r) (\<lambda>_ r. (Inr None, r)))))"

partial_function (option) transact_loop ::
  "'t control_transport \<Rightarrow> u32 \<Rightarrow> u32 \<Rightarrow> instant \<Rightarrow> 't rndis \<Rightarrow> ('t, bytes) rndis_result option" where
  "transact_loop T expect request_id deadline r =
     (case rn_now T r of (now, r) \<Rightarrow>
        if now < deadline then
          (case transact_turn T expect request_id r of (res, r) \<Rightarrow>
             (case res of
                Inl e \<Rightarrow> Some (Inl e, r)
              | Inr (Some reply) \<Rightarrow> Some (Inr reply, r)
              | Inr None \<Rightarrow> transact_loop T expect request_id deadline r))
        else Some (Inl RndisNoResponse, r))"

definition transact ::
  "'t control_transport \<Rightarrow> bytes \<Rightarrow> u32 \<Rightarrow> u32 \<Rightarrow> 't rndis \<Rightarrow> ('t, bytes) rndis_result option" where
  "transact T msg expect request_id r =
     tryo (Some (rn_send T msg r)) (\<lambda>_ r.
     case rn_now T r of (now, r) \<Rightarrow>
       transact_loop T expect request_id (now + TRANSACTION_TIMEOUT) r)"

definition rndis_initialize :: "'t control_transport \<Rightarrow> 't rndis \<Rightarrow> ('t, init_complete) rndis_result option" where
  "rndis_initialize T r =
     (case take_request_id r of (rid, r) \<Rightarrow>
      tryo (transact T (encode_init rid HOST_MAX_TRANSFER_SIZE) MSG_INIT_C rid r) (\<lambda>reply r.
      tryo (Some (decode_init_complete reply, r)) (\<lambda>init r.
      if ic_status init \<noteq> STATUS_SUCCESS then Some (Inl (RndisStatus (ic_status init)), r)
      else if ic_max_transfer_size init = 0
      then Some (Inl (RndisMalformed ''device advertised a zero transfer size''), r)
      else Some (Inr init, r))))"

definition rndis_query :: "'t control_transport \<Rightarrow> u32 \<Rightarrow> 't rndis \<Rightarrow> ('t, bytes) rndis_result option" where
  "rndis_query T oid r =
     (case take_request_id r of (rid, r) \<Rightarrow>
      tryo (transact T (encode_query rid oid) MSG_QUERY_C rid r) (\<lambda>reply r.
      tryo (Some (decode_query_complete reply, r)) (\<lambda>(_, status, info) r.
      if status \<noteq> STATUS_SUCCESS then Some (Inl (RndisStatus status), r)
      else Some (Inr info, r))))"

text \<open>The loop of \<open>query_mac\<close> over the object ids.\<close>

fun query_mac_loop :: "'t control_transport \<Rightarrow> u32 list \<Rightarrow> 't rndis \<Rightarrow> ('t, bytes) rndis_result option" where
  "query_mac_loop T [] r = Some (Inl (RndisMalformed ''device did not report a usable MAC''), r)"
| "query_mac_loop T (oid # oids) r =
     (case rndis_query T oid r of
        None \<Rightarrow> None
      | Some (Inr info, r) \<Rightarrow>
          if length info \<ge> 6
          then (let mac = take 6 info in
                if mac \<noteq> replicate 6 0 then Some (Inr mac, r) else query_mac_loop T oids r)
          else query_mac_loop T oids r
      | Some (Inl e, r) \<Rightarrow> query_mac_loop T oids r)"

definition query_mac :: "'t control_transport \<Rightarrow> 't rndis \<Rightarrow> ('t, bytes) rndis_result option" where
  "query_mac T r = query_mac_loop T [OID_802_3_PERMANENT_ADDRESS, OID_802_3_CURRENT_ADDRESS] r"

definition rndis_set :: "'t control_transport \<Rightarrow> u32 \<Rightarrow> bytes \<Rightarrow> 't rndis \<Rightarrow> ('t, unit) rndis_result option" where
  "rndis_set T oid data r =
     (case take_request_id r of (rid, r) \<Rightarrow>
      tryo (transact T (encode_set rid oid data) MSG_SET_C rid r) (\<lambda>reply r.
      tryo (Some (decode_completion reply, r)) (\<lambda>(_, status) r.
      if status \<noteq> STATUS_SUCCESS then Some (Inl (RndisStatus status), r) else Some (Inr (), r))))"

definition keepalive :: "'t control_transport \<Rightarrow> 't rndis \<Rightarrow> ('t, unit) rndis_result option" where
  "keepalive T r =
     (case take_request_id r of (rid, r) \<Rightarrow>
      tryo (transact T (encode_keepalive rid) MSG_KEEPALIVE_C rid r) (\<lambda>reply r.
      tryo (Some (decode_completion reply, r)) (\<lambda>(_, status) r.
      if status \<noteq> STATUS_SUCCESS then Some (Inl (RndisStatus status), r) else Some (Inr (), r))))"

definition halt :: "'t control_transport \<Rightarrow> 't rndis \<Rightarrow> ('t, unit) rndis_result" where
  "halt T r = (case take_request_id r of (rid, r) \<Rightarrow> rn_send T (encode_halt rid) r)"

definition bring_up :: "'t control_transport \<Rightarrow> 't rndis \<Rightarrow> ('t, session) rndis_result option" where
  "bring_up T r =
     tryo (rndis_initialize T r) (\<lambda>init r.
     tryo (query_mac T r) (\<lambda>host_mac r.
     tryo (rndis_set T OID_GEN_CURRENT_PACKET_FILTER (to_le32 DEFAULT_PACKET_FILTER) r) (\<lambda>_ r.
     let r = (if rn_link r = LinkUnknown then r\<lparr>rn_link := LinkUp\<rparr> else r)
     in Some (Inr \<lparr>se_host_mac = host_mac,
                   se_device_max_transfer_size = ic_max_transfer_size init,
                   se_max_packets_per_transfer = max (ic_max_packets_per_transfer init) 1,
                   se_packet_alignment = max (ic_packet_alignment init) 1\<rparr>, r))))"

subsection \<open>Shared lemmas\<close>

lemma tryo_simps [simp]:
  "tryo None f = None" "tryo (Some (Inl e, s)) f = Some (Inl e, s)" "tryo (Some (Inr a, s)) f = f a s"
  by (simp_all add: tryo_def)

lemma tryo_eq_Inr:
  "tryo m f = Some (Inr b, s') \<longleftrightarrow> (\<exists>a s. m = Some (Inr a, s) \<and> f a s = Some (Inr b, s'))"
  by (auto simp: tryo_def split: option.splits sum.splits)

lemma tryo_eq_Some:
  "tryo m f = Some (x, s') \<longleftrightarrow>
     (\<exists>e. m = Some (Inl e, s') \<and> x = Inl e) \<or> (\<exists>a s. m = Some (Inr a, s) \<and> f a s = Some (x, s'))"
  by (auto simp: tryo_def split: option.splits sum.splits)

lemma tryo_neq_None:
  assumes "m \<noteq> None" and "\<And>a s. m = Some (Inr a, s) \<Longrightarrow> f a s \<noteq> None"
  shows "tryo m f \<noteq> None"
  using assms by (auto simp: tryo_def split: option.splits sum.splits)

lemma request_id_not_0: "rn_next_request_id (snd (take_request_id r)) \<noteq> 0"
proof -
  have "max (w + 1) 1 \<noteq> (0 :: u32)" for w
    by (auto simp: max_def word_le_def)
  then show ?thesis by (simp add: take_request_id_def)
qed

lemma take_request_id_simps [simp]:
  "rn_transport (snd (take_request_id r)) = rn_transport r" "rn_link (snd (take_request_id r)) = rn_link r"
  "fst (take_request_id r) = rn_next_request_id r"
  by (simp_all add: take_request_id_def)

subsection \<open>Every operation returns\<close>

text \<open>
  What the waiting relies on: \<open>Instant::now\<close> never goes back, and a control transfer takes
  time, so that the clock has advanced when \<open>receive\<close> returns. \<open>clk\<close> is the clock
  as the transport's state sees it.
\<close>

definition clock_ok :: "'t control_transport \<Rightarrow> ('t \<Rightarrow> instant) \<Rightarrow> bool" where
  "clock_ok T clk \<longleftrightarrow>
     (\<forall>t. fst (ct_now T t) = clk t \<and> clk t \<le> clk (snd (ct_now T t)))
     \<and> (\<forall>m t. clk t \<le> clk (snd (ct_send T m t)))
     \<and> (\<forall>d t. clk t \<le> clk (snd (ct_await T d t)))
     \<and> (\<forall>t. clk t < clk (snd (ct_receive T t)))"

lemma clock_ok_rn:
  assumes "clock_ok T clk"
  shows "rn_now T r = (now, r1) \<Longrightarrow> now = clk (rn_transport r) \<and> clk (rn_transport r) \<le> clk (rn_transport r1)"
    and "rn_send T m r = (x, r2) \<Longrightarrow> clk (rn_transport r) \<le> clk (rn_transport r2)"
    and "rn_await T d r = (y, r3) \<Longrightarrow> clk (rn_transport r) \<le> clk (rn_transport r3)"
    and "rn_receive T r = (z, r4) \<Longrightarrow> clk (rn_transport r) < clk (rn_transport r4)"
proof -
  let ?t = "rn_transport r"
  note c = assms [unfolded clock_ok_def]
  show "rn_now T r = (now, r1) \<Longrightarrow> now = clk ?t \<and> clk ?t \<le> clk (rn_transport r1)"
    using c [THEN conjunct1, rule_format, of ?t] by (auto simp: rn_now_def split: prod.splits)
  show "rn_send T m r = (x, r2) \<Longrightarrow> clk ?t \<le> clk (rn_transport r2)"
    using c [THEN conjunct2, THEN conjunct1, rule_format, of ?t m] by (auto simp: rn_send_def split: prod.splits)
  show "rn_await T d r = (y, r3) \<Longrightarrow> clk ?t \<le> clk (rn_transport r3)"
    using c [THEN conjunct2, THEN conjunct2, THEN conjunct1, rule_format, of ?t d]
    by (auto simp: rn_await_def split: prod.splits)
  show "rn_receive T r = (z, r4) \<Longrightarrow> clk ?t < clk (rn_transport r4)"
    using c [THEN conjunct2, THEN conjunct2, THEN conjunct2, rule_format, of ?t]
    by (auto simp: rn_receive_def split: prod.splits)
qed

lemma handle_unsolicited_clock:
  assumes "clock_ok T clk" "handle_unsolicited T ty reply r = (Inr x, r')"
  shows "clk (rn_transport r) \<le> clk (rn_transport r')"
  using assms(2) clock_ok_rn(2) [OF assms(1), of "encode_keepalive_complete (projr (u32_at reply 8))" r]
  by (auto simp: handle_unsolicited_def dest!: trys_Inr split: if_splits)

lemma transact_turn_clock:
  assumes "clock_ok T clk" "transact_turn T expect i r = (Inr None, r')"
  shows "clk (rn_transport r) < clk (rn_transport r')"
proof -
  from assms(2) obtain u r1 reply r2 where
    r1: "rn_await T POLL_INTERVAL r = (Inr u, r1)" and r2: "rn_receive T r1 = (Inr reply, r2)"
    by (auto simp: transact_turn_def dest!: trys_Inr)
  have "clk (rn_transport r) < clk (rn_transport r2)"
    using clock_ok_rn(3) [OF assms(1) r1] clock_ok_rn(4) [OF assms(1) r2] by simp
  moreover have "clk (rn_transport r2) \<le> clk (rn_transport r')"
    using assms(2) r1 r2 handle_unsolicited_clock [OF assms(1), of _ reply r2]
    by (auto simp: transact_turn_def dest!: trys_Inr split: if_splits)
  ultimately show ?thesis by simp
qed

lemma transact_loop_returns:
  assumes "clock_ok T clk"
  shows "transact_loop T expect i deadline r \<noteq> None"
proof (induction "deadline - clk (rn_transport r)" arbitrary: r rule: less_induct)
  case less
  obtain now r1 where now: "rn_now T r = (now, r1)" by fastforce
  show ?case
  proof (cases "now < deadline")
    case True
    obtain res r2 where turn: "transact_turn T expect i r1 = (res, r2)" by fastforce
    have "transact_loop T expect i deadline r2 \<noteq> None" if "res = Inr None"
      using clock_ok_rn(1) [OF assms now] transact_turn_clock [OF assms, of expect i r1 r2] turn that True
      by (intro less) auto
    with now turn True show ?thesis
      by (subst transact_loop.simps) (auto split: sum.splits option.splits)
  qed (subst transact_loop.simps, simp add: now)
qed

lemma transact_returns: "clock_ok T clk \<Longrightarrow> transact T msg expect i r \<noteq> None"
  unfolding transact_def
  by (rule tryo_neq_None) (simp_all add: transact_loop_returns split: prod.split del: not_None_eq)

lemma rndis_ops_return:
  assumes "clock_ok T clk"
  shows "rndis_initialize T r \<noteq> None" "rndis_query T oid r \<noteq> None" "rndis_set T oid data r \<noteq> None"
    "keepalive T r \<noteq> None"
  unfolding rndis_initialize_def rndis_query_def rndis_set_def keepalive_def take_request_id_def prod.case
  by (intro tryo_neq_None transact_returns [OF assms]; simp split: prod.splits)+

lemma query_mac_returns: "clock_ok T clk \<Longrightarrow> query_mac_loop T oids r \<noteq> None"
proof (induction oids arbitrary: r)
  case (Cons oid oids)
  obtain x r1 where "rndis_query T oid r = Some (x, r1)"
    using rndis_ops_return(2) [OF Cons.prems, of oid r] by fastforce
  then show ?case
    using Cons.IH [OF Cons.prems] by (simp add: Let_def del: not_None_eq split: sum.split)
qed simp

lemma bring_up_returns:
  assumes "clock_ok T clk"
  shows "bring_up T r \<noteq> None"
  unfolding bring_up_def query_mac_def
  by (intro tryo_neq_None rndis_ops_return [OF assms] query_mac_returns [OF assms]) (simp_all add: Let_def)

text \<open>
  C18: No device can hang the daemon in the control channel: whatever the transport answers, as long
  as the clock advances over a transfer, every operation returns (with a value or an error): a
  transaction, a query, a set, a keepalive and the whole bring-up.
\<close>

theorem control_channel_returns:
  assumes "clock_ok T clk"
  shows "(\<exists>res r'. transact T msg expect request_id r = Some (res, r'))
    \<and> (\<exists>res r'. rndis_query T oid r = Some (res, r')) \<and> (\<exists>res r'. rndis_set T oid data r = Some (res, r'))
    \<and> (\<exists>res r'. keepalive T r = Some (res, r')) \<and> (\<exists>res r'. bring_up T r = Some (res, r'))"
proof -
  show ?thesis
    using bring_up_returns [OF assms, of r] transact_returns [OF assms, of msg expect request_id r]
      rndis_ops_return(4) [OF assms, of r] rndis_ops_return(2) [OF assms, of oid r]
      rndis_ops_return(3) [OF assms, of oid data r]
    by fastforce
qed

text \<open>A device that never answers: \<open>receive\<close> is empty, and each transfer takes ten milliseconds.\<close>

definition silent_device :: "instant control_transport" where
  "silent_device = \<lparr>ct_send = \<lambda>_ t. (Inr (), t), ct_receive = \<lambda>t. (Inr [], t + from_millis 10),
                    ct_await = \<lambda>_ t. (Inr (), t), ct_now = \<lambda>t. (t, t)\<rparr>"

lemma silent_device_clock: "clock_ok silent_device (\<lambda>t. t)"
  by (simp add: clock_ok_def silent_device_def from_millis_def)

theorem control_channel_returns_witness:
  "clock_ok silent_device (\<lambda>t. t)
   \<and> (\<exists>res r'. bring_up silent_device (rndis_new (0 :: instant)) = Some (res, r'))"
  using silent_device_clock control_channel_returns [OF silent_device_clock, of _ _ _ "rndis_new 0"]
  by blast

subsection \<open>What the transport keeps, the channel keeps\<close>

lemma trys_keeps:
  assumes "Q (snd m)" and "\<And>a s. m = (Inr a, s) \<Longrightarrow> Q s \<Longrightarrow> Q (snd (f a s))"
  shows "Q (snd (trys m f))"
  using assms by (auto simp: trys_def split: prod.splits sum.splits)

lemma tryo_keeps:
  assumes "tryo m f = Some (x, s')" and "\<And>y s. m = Some (y, s) \<Longrightarrow> Q s"
    and "\<And>a s. Q s \<Longrightarrow> f a s = Some (x, s') \<Longrightarrow> Q s'"
  shows "Q s'"
  using assms by (auto simp: tryo_eq_Some)

text \<open>
  A property of the transport's state that each operation of the transport keeps is kept by every
  operation of the control channel.
\<close>

locale transport_invariant =
  fixes T :: "'t control_transport" and P :: "'t \<Rightarrow> bool"
  assumes keeps_send: "P t \<Longrightarrow> P (snd (ct_send T m t))"
    and keeps_receive: "P t \<Longrightarrow> P (snd (ct_receive T t))"
    and keeps_await: "P t \<Longrightarrow> P (snd (ct_await T d t))"
    and keeps_now: "P t \<Longrightarrow> P (snd (ct_now T t))"
begin

lemma keeps_rn:
  assumes "P (rn_transport r)"
  shows "P (rn_transport (snd (rn_send T m r)))" "P (rn_transport (snd (rn_receive T r)))"
    "P (rn_transport (snd (rn_await T d r)))" "P (rn_transport (snd (rn_now T r)))"
  using keeps_send [OF assms, of m] keeps_receive [OF assms] keeps_await [OF assms, of d] keeps_now [OF assms]
  by (auto simp: rn_send_def rn_receive_def rn_await_def rn_now_def split: prod.splits)

lemma keeps_unsolicited: "P (rn_transport r) \<Longrightarrow> P (rn_transport (snd (handle_unsolicited T ty reply r)))"
  unfolding handle_unsolicited_def
  by (auto intro!: trys_keeps [where Q = "\<lambda>r. P (rn_transport r)"] intro: keeps_rn)

lemma keeps_turn: "P (rn_transport r) \<Longrightarrow> P (rn_transport (snd (transact_turn T expect i r)))"
  unfolding transact_turn_def
  by (auto intro!: keeps_unsolicited trys_keeps [where Q = "\<lambda>r. P (rn_transport r)"] intro: keeps_rn split: prod.splits)

lemma keeps_loop:
  assumes "transact_loop T expect i deadline r = Some y" and "P (rn_transport r)"
  shows "P (rn_transport (snd y))"
proof -
  have "T' = T \<longrightarrow> P (rn_transport r) \<longrightarrow> P (rn_transport (snd y))"
    if "transact_loop T' expect i deadline r = Some y" for T' :: "'t control_transport"
    using that
  proof (rule transact_loop.raw_induct [rotated], intro impI)
    fix loop T' expect i deadline r y
    assume IH: "\<And>T' expect i deadline r y. loop T' expect i deadline r = Some y \<Longrightarrow>
        T' = T \<longrightarrow> P (rn_transport r) \<longrightarrow> P (rn_transport (snd y))"
      and body: "(case rn_now T' r of (now, r) \<Rightarrow>
        if now < deadline then
          (case transact_turn T' expect i r of (res, r) \<Rightarrow>
             (case res of Inl e \<Rightarrow> Some (Inl e, r) | Inr None \<Rightarrow> loop T' expect i deadline r
              | Inr (Some reply) \<Rightarrow> Some (Inr reply, r)))
        else Some (Inl RndisNoResponse, r)) = Some y"
      and "T' = T" and P: "P (rn_transport r)"
    obtain now r1 where now: "rn_now T r = (now, r1)" by fastforce
    obtain res r2 where turn: "transact_turn T expect i r1 = (res, r2)" by fastforce
    have "P (rn_transport r1)" "P (rn_transport r2)"
      using keeps_rn(4) [OF P] keeps_turn [of r1 expect i] now turn by auto
    with body \<open>T' = T\<close> now turn show "P (rn_transport (snd y))"
      by (auto simp: IH split: if_splits sum.splits option.splits)
  qed
  with assms show ?thesis by blast
qed

lemma keeps_transact:
  assumes "transact T msg expect i r = Some (x, r')" and "P (rn_transport r)"
  shows "P (rn_transport r')"
  using assms(1) unfolding transact_def
proof (rule tryo_keeps [where Q = "\<lambda>r. P (rn_transport r)"])
  fix y s
  assume "Some (rn_send T msg r) = Some (y, s)"
  with keeps_rn(1) [OF assms(2), of msg] show "P (rn_transport s)" by simp
next
  fix a s
  assume "P (rn_transport s)"
    and "(case rn_now T s of (now, r) \<Rightarrow> transact_loop T expect i (now + TRANSACTION_TIMEOUT) r) = Some (x, r')"
  then show "P (rn_transport r')"
    using keeps_rn(4) [of s] by (auto dest: keeps_loop split: prod.splits)
qed

text \<open>A transaction whose reply is then decoded, the form of every request.\<close>

lemma keeps_request:
  assumes "(case take_request_id r of (rid, r) \<Rightarrow> tryo (transact T (msg rid) expect rid r) f) = Some (x, r')"
    and "P (rn_transport r)" and "\<And>reply s. f reply s = Some (x, r') \<Longrightarrow> r' = s"
  shows "P (rn_transport r')"
proof -
  obtain rid r1 where t: "take_request_id r = (rid, r1)" by fastforce
  then have "P (rn_transport r1)" using assms(2) take_request_id_simps(1) [of r] by simp
  moreover have "tryo (transact T (msg rid) expect rid r1) f = Some (x, r')" using assms(1) t by simp
  ultimately show ?thesis
    by (auto simp: tryo_eq_Some dest: keeps_transact assms(3))
qed

lemma keeps_requests:
  assumes "P (rn_transport r)"
  shows "rndis_initialize T r = Some (x1, r1) \<Longrightarrow> P (rn_transport r1)"
    and "rndis_query T oid r = Some (x2, r2) \<Longrightarrow> P (rn_transport r2)"
    and "rndis_set T oid data r = Some (x3, r3) \<Longrightarrow> P (rn_transport r3)"
    and "keepalive T r = Some (x4, r4) \<Longrightarrow> P (rn_transport r4)"
  unfolding rndis_initialize_def rndis_query_def rndis_set_def keepalive_def
  by (erule keeps_request [OF _ assms]; auto simp: tryo_eq_Some split: if_splits)+

lemma keeps_halt: "P (rn_transport r) \<Longrightarrow> P (rn_transport (snd (halt T r)))"
  by (simp add: halt_def take_request_id_def keeps_rn)

lemma keeps_query_mac:
  assumes "query_mac_loop T oids r = Some (x, r')" and "P (rn_transport r)"
  shows "P (rn_transport r')"
  using assms
proof (induction oids arbitrary: r)
  case (Cons oid oids)
  obtain y r1 where q: "rndis_query T oid r = Some (y, r1)"
    using Cons.prems(1) by (auto split: option.splits)
  with Cons keeps_requests(2) [OF Cons.prems(2) q] show ?case
    by (auto simp: Let_def split: sum.splits if_splits)
qed auto

lemma keeps_bring_up:
  assumes "bring_up T r = Some (x, r')" and "P (rn_transport r)"
  shows "P (rn_transport r')"
  using assms(1) unfolding bring_up_def query_mac_def
proof (rule tryo_keeps [where Q = "\<lambda>r. P (rn_transport r)"], goal_cases)
  case (1 y s)
  with keeps_requests(1) assms(2) show ?case by blast
next
  case (2 init s)
  from 2(2) show ?case
  proof (rule tryo_keeps [where Q = "\<lambda>r. P (rn_transport r)"], goal_cases)
    case (1 y t)
    with keeps_query_mac 2(1) show ?case by blast
  next
    case (2 mac t)
    from 2(2) show ?case
      by (rule tryo_keeps [where Q = "\<lambda>r. P (rn_transport r)"])
        (use 2(1) keeps_requests(3) in \<open>auto simp: Let_def split: if_splits\<close>)
  qed
qed

end

subsection \<open>What a transaction sees and sends\<close>

text \<open>
  A transport that also keeps the record of what went through it. The code is generic in the
  transport, so it runs on this one unchanged.
\<close>

datatype ct_event = Sent bytes | Received bytes

definition logged :: "'t control_transport \<Rightarrow> ('t \<times> ct_event list) control_transport" where
  "logged T =
     \<lparr>ct_send = \<lambda>m (t, evs). (case ct_send T m t of (x, t') \<Rightarrow> (x, (t', evs @ [Sent m]))),
      ct_receive = \<lambda>(t, evs). (case ct_receive T t of
          (Inl e, t') \<Rightarrow> (Inl e, (t', evs))
        | (Inr b, t') \<Rightarrow> (Inr b, (t', evs @ [Received b]))),
      ct_await = \<lambda>d (t, evs). (case ct_await T d t of (x, t') \<Rightarrow> (x, (t', evs))),
      ct_now = \<lambda>(t, evs). (case ct_now T t of (x, t') \<Rightarrow> (x, (t', evs)))\<rparr>"

definition events :: "('t \<times> ct_event list) rndis \<Rightarrow> ct_event list" where
  "events r = snd (rn_transport r)"

text \<open>
  The contract of a transaction, on the messages received: which one completes it, and what each of
  the others makes the host answer and record.
\<close>

definition has_type :: "bytes \<Rightarrow> u32 \<Rightarrow> bool" where
  "has_type m ty \<longleftrightarrow> 12 \<le> length m \<and> u32_at m 0 = Inr ty"

definition completes :: "u32 \<Rightarrow> u32 \<Rightarrow> bytes \<Rightarrow> bool" where
  "completes expect request_id m \<longleftrightarrow> has_type m expect \<and> 16 \<le> length m \<and> u32_at m 8 = Inr request_id"

definition answer :: "u32 \<Rightarrow> bytes \<Rightarrow> bytes list" where
  "answer expect m =
     (if has_type m MSG_KEEPALIVE \<and> expect \<noteq> MSG_KEEPALIVE
      then [encode_keepalive_complete (projr (u32_at m 8))] else [])"

definition link_after :: "u32 \<Rightarrow> bytes \<Rightarrow> link_state \<Rightarrow> link_state" where
  "link_after expect m l =
     (if has_type m MSG_INDICATE \<and> expect \<noteq> MSG_INDICATE then
        if u32_at m 8 = Inr STATUS_MEDIA_CONNECT then LinkUp
        else if u32_at m 8 = Inr STATUS_MEDIA_DISCONNECT then LinkDown
        else l
      else l)"

definition served :: "u32 \<Rightarrow> bytes list \<Rightarrow> ct_event list" where
  "served expect ms = concat (map (\<lambda>m. Received m # map Sent (answer expect m)) ms)"

lemma logged_rn:
  "rn_send (logged T) m r = (x, r1) \<Longrightarrow> events r1 = events r @ [Sent m] \<and> rn_link r1 = rn_link r
     \<and> rn_next_request_id r1 = rn_next_request_id r"
  "rn_await (logged T) d r = (y, r2) \<Longrightarrow> events r2 = events r \<and> rn_link r2 = rn_link r
     \<and> rn_next_request_id r2 = rn_next_request_id r"
  "rn_now (logged T) r = (n, r3) \<Longrightarrow> events r3 = events r \<and> rn_link r3 = rn_link r
     \<and> rn_next_request_id r3 = rn_next_request_id r"
  "rn_receive (logged T) r = (z, r4) \<Longrightarrow> rn_link r4 = rn_link r \<and> rn_next_request_id r4 = rn_next_request_id r
     \<and> events r4 = events r @ (case z of Inl _ \<Rightarrow> [] | Inr b \<Rightarrow> [Received b])"
  by (auto simp: rn_send_def rn_await_def rn_now_def rn_receive_def logged_def events_def
      split: prod.splits sum.splits)

lemma handle_unsolicited_logged:
  assumes "handle_unsolicited (logged T) ty m r = (res, r')" and "ty \<noteq> expect" and "has_type m ty"
  shows "rn_next_request_id r' = rn_next_request_id r
    \<and> events r' = events r @ map Sent (answer expect m) \<and> rn_link r' = link_after expect m (rn_link r)"
proof -
  obtain v where v: "u32_at m 8 = Inr v"
    using assms(3) by (auto simp: has_type_def u32_at_eq)
  have ty: "has_type m ty' \<longleftrightarrow> ty' = ty" for ty'
    using assms(3) by (auto simp: has_type_def)
  consider (ind) "ty = MSG_INDICATE" "ty \<noteq> MSG_KEEPALIVE" | (ka) "ty = MSG_KEEPALIVE" "ty \<noteq> MSG_INDICATE"
    | (other) "ty \<noteq> MSG_INDICATE" "ty \<noteq> MSG_KEEPALIVE"
    by (force simp: const_simps)
  then show ?thesis
  proof cases
    case ka
    obtain x r1 where s: "rn_send (logged T) (encode_keepalive_complete v) r = (x, r1)" by fastforce
    with assms(1) ka v have "r' = r1"
      by (cases x) (simp_all add: handle_unsolicited_def)
    with logged_rn(1) [OF s] ka assms(2) v show ?thesis
      by (simp add: answer_def link_after_def ty)
  qed (use assms(1,2) v in \<open>auto simp: handle_unsolicited_def decode_indicate_status_def answer_def
      link_after_def ty events_def\<close>)
qed

text \<open>The part of a turn behind \<open>receive\<close>.\<close>

definition dispatch ::
  "'t control_transport \<Rightarrow> u32 \<Rightarrow> u32 \<Rightarrow> bytes \<Rightarrow> 't rndis \<Rightarrow> ('t, bytes option) rndis_result" where
  "dispatch T expect request_id reply r =
     (if length reply < 12 then (Inr None, r)
      else
        trys (u32_at reply 0, r) (\<lambda>msg_type r.
        if msg_type = expect then
          trys (decode_completion reply, r) (\<lambda>(id, _) r.
          if id = request_id then (Inr (Some reply), r) else (Inr None, r))
        else trys (handle_unsolicited T msg_type reply r) (\<lambda>_ r. (Inr None, r))))"

lemma transact_turn_dispatch:
  "transact_turn T expect i r =
     trys (rn_await T POLL_INTERVAL r) (\<lambda>_ r. trys (rn_receive T r) (dispatch T expect i))"
  by (simp add: transact_turn_def dispatch_def [abs_def])

lemma dispatch_logged:
  assumes "dispatch (logged T) expect i m r = (res, r')"
  shows "rn_next_request_id r' = rn_next_request_id r \<and>
    (case res of
       Inr None \<Rightarrow> \<not> completes expect i m \<and> events r' = events r @ map Sent (answer expect m)
                     \<and> rn_link r' = link_after expect m (rn_link r)
     | Inr (Some m') \<Rightarrow> m' = m \<and> completes expect i m \<and> r' = r
     | Inl _ \<Rightarrow> \<exists>n. events r' = events r @ take n (map Sent (answer expect m)))"
proof -
  consider (short) "length m < 12" | (mine) "12 \<le> length m" "u32_at m 0 = Inr expect"
    | (other) ty where "12 \<le> length m" "u32_at m 0 = Inr ty" "ty \<noteq> expect"
    by (force simp: u32_at_eq)
  then show ?thesis
  proof cases
    case short
    with assms show ?thesis
      by (auto simp: dispatch_def completes_def has_type_def answer_def link_after_def)
  next
    case mine
    then have none: "answer expect m = []" "link_after expect m l = l" for l
      by (simp_all add: answer_def link_after_def has_type_def)
    obtain v where "u32_at m 8 = Inr v"
      using mine by (simp add: u32_at_eq)
    with assms mine none show ?thesis
      by (cases "16 \<le> length m")
        (auto simp: dispatch_def completes_def has_type_def decode_completion_def u32_at_eq [of m 12] split: if_splits)
  next
    case other
    then have ty: "has_type m ty" "\<not> completes expect i m"
      by (auto simp: completes_def has_type_def)
    obtain x r1 where u: "handle_unsolicited (logged T) ty m r = (x, r1)" by fastforce
    have "\<exists>n. map Sent (answer expect m) = take n (map Sent (answer expect m))"
      by (rule exI [of _ "length (answer expect m)"]) simp
    with handle_unsolicited_logged [OF u other(3) ty(1)] assms other u ty(2) show ?thesis
      by (cases x) (auto simp: dispatch_def)
  qed
qed

text \<open>One turn of the loop meets the contract, on each of its three ways out.\<close>

lemma transact_turn_logged:
  assumes "transact_turn (logged T) expect i r = (res, r')"
  shows "rn_next_request_id r' = rn_next_request_id r \<and>
    (case res of
       Inr None \<Rightarrow> \<exists>m. \<not> completes expect i m \<and> events r' = events r @ served expect [m]
                     \<and> rn_link r' = link_after expect m (rn_link r)
     | Inr (Some m) \<Rightarrow> completes expect i m \<and> events r' = events r @ [Received m] \<and> rn_link r' = rn_link r
     | Inl _ \<Rightarrow> \<exists>ms n. events r' = events r @ take n (served expect ms))"
proof -
  obtain x r1 where r1: "rn_await (logged T) POLL_INTERVAL r = (x, r1)" by fastforce
  obtain y r2 where r2: "rn_receive (logged T) r1 = (y, r2)" by fastforce
  show ?thesis
  proof (cases "\<exists>m. x = Inr () \<and> y = Inr m")
    case True
    then obtain m where m: "x = Inr ()" "y = Inr m" by blast
    with assms r1 r2 have d: "dispatch (logged T) expect i m r2 = (res, r')"
      by (simp add: transact_turn_dispatch)
    have "\<exists>ms k. Received m # take n (map Sent (answer expect m)) = take k (served expect ms)" for n
      by (intro exI [of _ "[m]"] exI [of _ "Suc n"]) (simp add: served_def)
    with dispatch_logged [OF d] logged_rn(2) [OF r1] logged_rn(4) [OF r2] m show ?thesis
      by (auto simp: served_def [of _ "[_]"] split: sum.splits option.splits)
  next
    case False
    with assms r1 r2 logged_rn(2) [OF r1] logged_rn(4) [OF r2] show ?thesis
      by (cases x; cases y) (auto simp: transact_turn_dispatch intro: exI [of _ 0])
  qed
qed


lemma served_append: "served expect (ms @ ms') = served expect ms @ served expect ms'"
  by (simp add: served_def)

text \<open>What a transaction leaves behind, from the state \<open>r\<close> to the state \<open>r'\<close>.\<close>

definition transact_spec ::
  "u32 \<Rightarrow> u32 \<Rightarrow> ('t \<times> ct_event list) rndis \<Rightarrow> rndis_error + bytes \<Rightarrow> ('t \<times> ct_event list) rndis \<Rightarrow> bool" where
  "transact_spec expect i r res r' \<longleftrightarrow> rn_next_request_id r' = rn_next_request_id r \<and>
    (case res of
       Inr m \<Rightarrow> completes expect i m \<and> (\<exists>ms. (\<forall>m'\<in>set ms. \<not> completes expect i m')
                 \<and> events r' = events r @ served expect ms @ [Received m]
                 \<and> rn_link r' = fold (link_after expect) ms (rn_link r))
     | Inl _ \<Rightarrow> \<exists>ms n. events r' = events r @ take n (served expect ms))"

lemma transact_spec_later:
  assumes "transact_spec expect i r2 res r'" and "\<not> completes expect i m"
    and "events r2 = events r @ served expect [m]" and "rn_link r2 = link_after expect m (rn_link r)"
    and "rn_next_request_id r2 = rn_next_request_id r"
  shows "transact_spec expect i r res r'"
proof (cases res)
  case (Inl e)
  with assms obtain ms n where "events r' = events r @ served expect [m] @ take n (served expect ms)"
    by (auto simp: transact_spec_def)
  also have "served expect [m] @ take n (served expect ms)
      = take (length (served expect [m]) + n) (served expect (m # ms))"
    by (simp add: served_def)
  finally show ?thesis using assms Inl by (auto simp: transact_spec_def)
next
  case (Inr reply)
  with assms obtain ms where "\<forall>m'\<in>set ms. \<not> completes expect i m'" "completes expect i reply"
    "events r' = events r @ served expect (m # ms) @ [Received reply]"
    "rn_link r' = fold (link_after expect) (m # ms) (rn_link r)"
    by (auto simp: transact_spec_def served_def)
  with assms Inr show ?thesis
    unfolding transact_spec_def by (auto intro!: exI [of _ "m # ms"])
qed

lemma transact_loop_logged:
  assumes "transact_loop (logged T) expect i deadline r = Some (res, r')"
  shows "transact_spec expect i r res r'"
proof -
  have "\<forall>T. T' = logged T \<longrightarrow> transact_spec expect i r (fst y) (snd y)"
    if "transact_loop T' expect i deadline r = Some y" for T' y
    using that
  proof (rule transact_loop.raw_induct [rotated], intro allI impI)
    fix loop T' expect i deadline r y T
    assume IH: "\<And>T' expect i deadline r y. loop T' expect i deadline r = Some y \<Longrightarrow>
        \<forall>T. T' = logged T \<longrightarrow> transact_spec expect i r (fst y) (snd y)"
      and body: "(case rn_now T' r of (now, r) \<Rightarrow>
        if now < deadline then
          (case transact_turn T' expect i r of (res, r) \<Rightarrow>
             (case res of Inl e \<Rightarrow> Some (Inl e, r) | Inr None \<Rightarrow> loop T' expect i deadline r
              | Inr (Some reply) \<Rightarrow> Some (Inr reply, r)))
        else Some (Inl RndisNoResponse, r)) = Some y"
      and T: "T' = logged T"
    obtain now r1 where now: "rn_now (logged T) r = (now, r1)" by fastforce
    obtain res1 r2 where turn: "transact_turn (logged T) expect i r1 = (res1, r2)" by fastforce
    note fr = logged_rn(3) [OF now] transact_turn_logged [OF turn]
    show "transact_spec expect i r (fst y) (snd y)"
    proof (cases "now < deadline")
      case False
      with body T now fr show ?thesis
        by (auto simp: transact_spec_def intro: exI [of _ 0])
    next
      case True
      show ?thesis
      proof (cases "res1 = Inr None")
        case again: True
        with body T now turn True have "loop (logged T) expect i deadline r2 = Some y" by simp
        with IH have "transact_spec expect i r2 (fst y) (snd y)" by blast
        with again fr show ?thesis by (auto intro: transact_spec_later)
      next
        case False
        then consider (err) e where "res1 = Inl e" | (reply) m where "res1 = Inr (Some m)"
          by (cases res1) auto
        then show ?thesis
        proof cases
          case err
          with body T now turn True fr show ?thesis by (auto simp: transact_spec_def) blast
        next
          case reply
          with body T now turn True fr show ?thesis
            by (auto simp: transact_spec_def served_def intro!: exI [of _ "[]"])
        qed
      qed
    qed
  qed
  from this [OF assms] show ?thesis by auto
qed


lemma transact_logged:
  assumes "transact (logged T) msg expect i r = Some (res, r')"
  obtains r0 where "events r0 = events r @ [Sent msg]" "rn_link r0 = rn_link r"
    "rn_next_request_id r0 = rn_next_request_id r" "transact_spec expect i r0 res r'"
proof -
  obtain x r1 where s: "rn_send (logged T) msg r = (x, r1)" by fastforce
  note fr = logged_rn(1) [OF s]
  show thesis
  proof (cases x)
    case (Inl e)
    with assms s have "res = Inl e" "r' = r1" by (auto simp: transact_def)
    then have "transact_spec expect i r1 res r'"
      by (auto simp: transact_spec_def intro: exI [of _ 0])
    with fr that show thesis by blast
  next
    case (Inr u)
    obtain now r2 where now: "rn_now (logged T) r1 = (now, r2)" by fastforce
    with assms s Inr have "transact_spec expect i r2 res r'"
      by (auto simp: transact_def intro: transact_loop_logged)
    with fr logged_rn(3) [OF now] that show thesis by auto
  qed
qed

lemma clock_ok_logged: "clock_ok T clk \<Longrightarrow> clock_ok (logged T) (\<lambda>t. clk (fst t))"
  unfolding clock_ok_def by (auto simp: logged_def split: prod.splits sum.splits) (metis fst_conv snd_conv)+

text \<open>
  C17: What a transaction is. If it succeeds, its value is the message that completes this request
  (expected type, at least 16 bytes, this request id). Before it the host received some messages that
  do not, and sent, after its own command, exactly one completion per keepalive of the device, at
  once and with the device's id; the link state is the one the device's indications, taken in order,
  lead to. If it fails, what was exchanged is an initial part of such a service. Request ids are not
  used up by it.
\<close>

theorem transact_contract:
  assumes "clock_ok T clk"
  shows "\<exists>res r'. transact (logged T) msg expect request_id r = Some (res, r')
    \<and> rn_next_request_id r' = rn_next_request_id r
    \<and> (case res of
         Inr reply \<Rightarrow> completes expect request_id reply
           \<and> (\<exists>ms. (\<forall>m\<in>set ms. \<not> completes expect request_id m)
               \<and> events r' = events r @ [Sent msg]
                   @ concat (map (\<lambda>m. Received m # map Sent (answer expect m)) ms) @ [Received reply]
               \<and> rn_link r' = fold (link_after expect) ms (rn_link r))
       | Inl _ \<Rightarrow> \<exists>ms n. events r' = events r @ [Sent msg]
           @ take n (concat (map (\<lambda>m. Received m # map Sent (answer expect m)) ms)))"
proof -
  obtain res r' where t: "transact (logged T) msg expect request_id r = Some (res, r')"
    using transact_returns [OF clock_ok_logged [OF assms]] by fastforce
  then obtain r0 where "events r0 = events r @ [Sent msg]" "rn_link r0 = rn_link r"
    "rn_next_request_id r0 = rn_next_request_id r" "transact_spec expect request_id r0 res r'"
    by (rule transact_logged)
  with t show ?thesis
    by (cases res) (auto simp: transact_spec_def served_def)
qed

theorem transact_contract_witness:
  "clock_ok silent_device (\<lambda>t. t)
   \<and> (\<exists>res r'. transact (logged silent_device) (encode_keepalive 1) MSG_KEEPALIVE_C 1 (rndis_new (0, []))
        = Some (res, r') \<and> rn_next_request_id r' = 1)"
  using silent_device_clock transact_contract [OF silent_device_clock, of "encode_keepalive 1" MSG_KEEPALIVE_C 1
      "rndis_new (0, [])"]
  by (auto simp: rndis_new_def)

subsection \<open>The order of a bring-up\<close>

text \<open>The commands of the host among the events: what it sent, less the answers to keepalives.\<close>

fun commands :: "ct_event list \<Rightarrow> bytes list" where
  "commands [] = []"
| "commands (Sent m # evs) = (if has_type m MSG_KEEPALIVE_C then commands evs else m # commands evs)"
| "commands (Received m # evs) = commands evs"

lemma commands_append [simp]: "commands (evs @ evs') = commands evs @ commands evs'"
  by (induction evs rule: commands.induct) simp_all

lemma has_type_le_words:
  "3 \<le> length ws \<Longrightarrow> has_type (le_words ws @ xs) ty \<longleftrightarrow> ws ! 0 = ty"
  using u32_at_le_words [of 0 ws xs] by (auto simp: has_type_def)

lemma encode_types:
  "has_type (encode_init i n) ty \<longleftrightarrow> ty = MSG_INIT" "has_type (encode_query i oid) ty \<longleftrightarrow> ty = MSG_QUERY"
  "has_type (encode_set i oid data) ty \<longleftrightarrow> ty = MSG_SET" "has_type (encode_keepalive i) ty \<longleftrightarrow> ty = MSG_KEEPALIVE"
  "has_type (encode_keepalive_complete i) ty \<longleftrightarrow> ty = MSG_KEEPALIVE_C"
  unfolding encode_init_def encode_query_def encode_set_def encode_keepalive_def encode_keepalive_complete_def
    fold_put_u32 append_Nil
  by (auto simp: has_type_le_words has_type_le_words [of _ "[]", simplified])

lemma commands_answers: "\<forall>m. Sent m \<in> set evs \<longrightarrow> has_type m MSG_KEEPALIVE_C \<Longrightarrow> commands evs = []"
  by (induction evs rule: commands.induct) auto

lemma commands_served: "commands (take n (served expect ms)) = []"
proof (rule commands_answers, intro allI impI)
  fix m
  assume "Sent m \<in> set (take n (served expect ms))"
  then have "Sent m \<in> set (served expect ms)" by (rule in_set_takeD)
  then show "has_type m MSG_KEEPALIVE_C"
    by (auto simp: served_def answer_def encode_types split: if_splits)
qed

lemma transact_commands:
  assumes "transact (logged T) msg expect i r = Some (res, r')" and "\<not> has_type msg MSG_KEEPALIVE_C"
  shows "commands (events r') = commands (events r) @ [msg]" "rn_next_request_id r' = rn_next_request_id r"
proof -
  from assms(1) obtain r0 where r0: "events r0 = events r @ [Sent msg]" "rn_link r0 = rn_link r"
    "rn_next_request_id r0 = rn_next_request_id r" "transact_spec expect i r0 res r'"
    by (rule transact_logged)
  have "commands (served expect ms) = []" for ms
    using commands_served [of "length (served expect ms)" expect ms] by simp
  with r0 assms(2) show "commands (events r') = commands (events r) @ [msg]"
    "rn_next_request_id r' = rn_next_request_id r"
    by (auto simp: transact_spec_def commands_served split: sum.splits)
qed


lemma rndis_initialize_logged:
  assumes "rndis_initialize (logged T) r = Some (res, r')"
  shows "commands (events r') = commands (events r) @ [encode_init (rn_next_request_id r) 16384]"
    "rn_next_request_id r' = max (rn_next_request_id r + 1) 1"
    "\<And>ic. res = Inr ic \<Longrightarrow> ic_max_transfer_size ic \<noteq> 0 \<and> (\<exists>k<8. unat (ic_packet_alignment ic) = 2 ^ k)"
proof -
  let ?msg = "encode_init (rn_next_request_id r) 16384"
  from assms obtain x r1 where t: "transact (logged T) ?msg MSG_INIT_C (rn_next_request_id r)
      (snd (take_request_id r)) = Some (x, r1)" and r': "r' = r1"
    and res: "\<And>ic. res = Inr ic \<Longrightarrow> ic_max_transfer_size ic \<noteq> 0 \<and> (\<exists>m. decode_init_complete m = Inr ic)"
    by (auto simp: rndis_initialize_def take_request_id_def HOST_MAX_TRANSFER_SIZE_def tryo_eq_Some
        split: if_splits)
  have "\<not> has_type ?msg MSG_KEEPALIVE_C"
    by (simp add: encode_types const_simps)
  with transact_commands [OF t] r' show "commands (events r') = commands (events r) @ [?msg]"
    "rn_next_request_id r' = max (rn_next_request_id r + 1) 1"
    by (auto simp: events_def take_request_id_def)
  show "\<And>ic. res = Inr ic \<Longrightarrow> ic_max_transfer_size ic \<noteq> 0 \<and> (\<exists>k<8. unat (ic_packet_alignment ic) = 2 ^ k)"
    using res init_complete_alignment by blast
qed

lemma rndis_query_logged:
  assumes "rndis_query (logged T) oid r = Some (res, r')"
  shows "commands (events r') = commands (events r) @ [encode_query (rn_next_request_id r) oid]"
    "rn_next_request_id r' = max (rn_next_request_id r + 1) 1"
proof -
  let ?msg = "encode_query (rn_next_request_id r) oid"
  from assms obtain x r1 where t: "transact (logged T) ?msg MSG_QUERY_C (rn_next_request_id r)
      (snd (take_request_id r)) = Some (x, r1)" and r': "r' = r1"
    by (auto simp: rndis_query_def take_request_id_def tryo_eq_Some split: if_splits prod.splits)
  have "\<not> has_type ?msg MSG_KEEPALIVE_C"
    by (simp add: encode_types const_simps)
  with transact_commands [OF t] r' show "commands (events r') = commands (events r) @ [?msg]"
    "rn_next_request_id r' = max (rn_next_request_id r + 1) 1"
    by (auto simp: events_def take_request_id_def)
qed

lemma rndis_set_logged:
  assumes "rndis_set (logged T) oid data r = Some (res, r')"
  shows "commands (events r') = commands (events r) @ [encode_set (rn_next_request_id r) oid data]"
proof -
  let ?msg = "encode_set (rn_next_request_id r) oid data"
  from assms obtain x r1 where t: "transact (logged T) ?msg MSG_SET_C (rn_next_request_id r)
      (snd (take_request_id r)) = Some (x, r1)" and r': "r' = r1"
    by (auto simp: rndis_set_def take_request_id_def tryo_eq_Some split: if_splits prod.splits)
  have "\<not> has_type ?msg MSG_KEEPALIVE_C"
    by (simp add: encode_types const_simps)
  with transact_commands [OF t] r' show ?thesis
    by (auto simp: events_def take_request_id_def)
qed

lemma query_mac_logged:
  assumes "query_mac (logged T) r = Some (res, r')" and id: "rn_next_request_id r = 2"
  shows "commands (events r') = commands (events r) @ [encode_query 2 OID_802_3_PERMANENT_ADDRESS]
      \<and> rn_next_request_id r' = 3 \<and> (\<exists>mac. res = Inr mac)
    \<or> commands (events r') = commands (events r)
        @ [encode_query 2 OID_802_3_PERMANENT_ADDRESS, encode_query 3 OID_802_3_CURRENT_ADDRESS]
      \<and> rn_next_request_id r' = 4"
    and "\<And>mac. res = Inr mac \<Longrightarrow> length mac = 6 \<and> mac \<noteq> replicate 6 0"
proof -
  have m: "max (3 :: u32) 1 = 3" "max (4 :: u32) 1 = 4" by (simp_all add: max_def word_le_def)
  from assms obtain x1 r1 where q1: "rndis_query (logged T) OID_802_3_PERMANENT_ADDRESS r = Some (x1, r1)"
    by (auto simp: query_mac_def split: option.splits)
  note l1 = rndis_query_logged [OF q1, unfolded id, simplified m, simplified]
  consider "r' = r1" "\<exists>mac. res = Inr mac"
    | x2 where "rndis_query (logged T) OID_802_3_CURRENT_ADDRESS r1 = Some (x2, r')"
    using assms(1) q1 by (auto simp: query_mac_def Let_def split: option.splits sum.splits if_splits)
  then show "commands (events r') = commands (events r) @ [encode_query 2 OID_802_3_PERMANENT_ADDRESS]
      \<and> rn_next_request_id r' = 3 \<and> (\<exists>mac. res = Inr mac)
    \<or> commands (events r') = commands (events r)
        @ [encode_query 2 OID_802_3_PERMANENT_ADDRESS, encode_query 3 OID_802_3_CURRENT_ADDRESS]
      \<and> rn_next_request_id r' = 4"
  proof cases
    case 2
    from rndis_query_logged [OF 2] l1 m show ?thesis by simp
  qed (use l1 m in simp)
  show "\<And>mac. res = Inr mac \<Longrightarrow> length mac = 6 \<and> mac \<noteq> replicate 6 0"
    using assms(1) by (auto simp: query_mac_def Let_def split: option.splits sum.splits if_splits)
qed

definition session_ok :: "session \<Rightarrow> bool" where
  "session_ok s \<longleftrightarrow> length (se_host_mac s) = 6 \<and> se_host_mac s \<noteq> replicate 6 0
     \<and> se_device_max_transfer_size s \<noteq> 0 \<and> 1 \<le> se_max_packets_per_transfer s
     \<and> (\<exists>k<8. unat (se_packet_alignment s) = 2 ^ k)"

text \<open>The commands of a bring-up, without and with the fallback to the current address.\<close>

definition bring_up_commands :: "bool \<Rightarrow> bytes list" where
  "bring_up_commands fallback =
     [encode_init 1 16384, encode_query 2 OID_802_3_PERMANENT_ADDRESS]
     @ (if fallback then [encode_query 3 OID_802_3_CURRENT_ADDRESS] else [])
     @ [encode_set (if fallback then 4 else 3) OID_GEN_CURRENT_PACKET_FILTER [0x2F, 0, 0, 0]]"

lemma max_power2_alignment:
  assumes "unat (w :: u32) = 2 ^ k"
  shows "max w 1 = w"
proof -
  have "1 \<le> unat w" using assms by simp
  then show ?thesis by (simp add: max.absorb1 word_le_nat_alt)
qed

lemma default_filter_bytes: "to_le32 DEFAULT_PACKET_FILTER = [0x2F, 0, 0, 0]"
  by (simp add: const_simps to_le32_eq)

text \<open>
  C16: Bring-up. With any device and a clock that advances, the bring-up of a new control channel
  returns. On success the commands it sent are INITIALIZE, the query for the permanent address, if
  need be the one for the current address, and the packet filter, with the request ids 1, 2, 3 (and
  4), in this order and nothing else; on failure they are an initial part of that sequence. A
  session is usable: a 6-byte address that is not all zero, a transfer size that is not zero, at
  least one packet per transfer, an alignment that is a power of two below 256; and the link is no
  longer unknown.
\<close>

theorem bring_up_sequence:
  assumes "clock_ok T clk"
  shows "\<exists>res r'. bring_up (logged T) (rndis_new (t, [])) = Some (res, r')
    \<and> (case res of
         Inr s \<Rightarrow> (\<exists>fallback. commands (events r') = bring_up_commands fallback)
                   \<and> session_ok s \<and> rn_link r' \<noteq> LinkUnknown
       | Inl _ \<Rightarrow> \<exists>fallback n. commands (events r') = take n (bring_up_commands fallback))"
proof -
  note returns = clock_ok_logged [OF assms]
  let ?r = "rndis_new (t, [])"
  have r: "rn_next_request_id ?r = 1" "commands (events ?r) = []"
    by (simp_all add: rndis_new_def events_def)
  obtain x1 r1 where i: "rndis_initialize (logged T) ?r = Some (x1, r1)"
    using rndis_ops_return(1) [OF returns] by fastforce
  note li = rndis_initialize_logged [OF i, unfolded r]
  have id1: "rn_next_request_id r1 = 2"
    using li(2) by (simp add: max_def word_le_def)
  obtain x2 r2 where q: "query_mac (logged T) r1 = Some (x2, r2)"
    using query_mac_returns [OF returns] unfolding query_mac_def by fastforce
  note lq = query_mac_logged [OF q id1, unfolded li(1)]
  obtain x3 r3 where s: "rndis_set (logged T) OID_GEN_CURRENT_PACKET_FILTER [0x2F, 0, 0, 0] r2 = Some (x3, r3)"
    using rndis_ops_return(3) [OF returns] by fastforce
  note ls = rndis_set_logged [OF s]
  consider (init) e where "x1 = Inl e" | (query) ic e where "x1 = Inr ic" "x2 = Inl e"
    | (set) ic mac where "x1 = Inr ic" "x2 = Inr mac"
    by (meson sum.exhaust_sel)
  then show ?thesis
  proof cases
    case init
    then have "bring_up (logged T) ?r = Some (Inl e, r1)"
      using i by (simp add: bring_up_def)
    moreover have "commands (events r1) = take 1 (bring_up_commands True)"
      using li(1) by (simp add: bring_up_commands_def)
    ultimately show ?thesis by auto
  next
    case query
    then have "bring_up (logged T) ?r = Some (Inl e, r2)"
      using i q by (simp add: bring_up_def)
    moreover have "commands (events r2) = take 3 (bring_up_commands True)"
      using lq(1) query by (simp add: bring_up_commands_def)
    ultimately show ?thesis by auto
  next
    case set
    have "commands (events r3) = bring_up_commands False \<or> commands (events r3) = bring_up_commands True"
      using lq(1) ls by (elim disjE conjE) (simp_all add: bring_up_commands_def)
    then have cmds: "\<exists>fallback. commands (events r3) = bring_up_commands fallback" by blast
    obtain k where k: "k < 8" "unat (ic_packet_alignment ic) = 2 ^ k" "ic_max_transfer_size ic \<noteq> 0"
      using li(3) set by blast
    show ?thesis
    proof (cases x3)
      case (Inl e)
      then have "bring_up (logged T) ?r = Some (Inl e, r3)"
        using i q s set by (simp add: bring_up_def default_filter_bytes)
      moreover obtain fallback where "commands (events r3) = take 9 (bring_up_commands fallback)"
        using cmds by (auto simp: bring_up_commands_def)
      ultimately show ?thesis by auto
    next
      case (Inr u)
      define r4 where "r4 = (if rn_link r3 = LinkUnknown then r3\<lparr>rn_link := LinkUp\<rparr> else r3)"
      define se where "se = \<lparr>se_host_mac = mac, se_device_max_transfer_size = ic_max_transfer_size ic,
        se_max_packets_per_transfer = max (ic_max_packets_per_transfer ic) 1,
        se_packet_alignment = max (ic_packet_alignment ic) 1\<rparr>"
      have "bring_up (logged T) ?r = Some (Inr se, r4)"
        using i q s set Inr by (simp add: bring_up_def default_filter_bytes Let_def se_def r4_def)
      moreover have "session_ok se"
        using lq(2) [OF set(2)] k by (auto simp: session_ok_def se_def max_power2_alignment)
      moreover have "rn_link r4 \<noteq> LinkUnknown" "events r4 = events r3"
        by (simp_all add: r4_def events_def)
      ultimately show ?thesis using cmds by auto
    qed
  qed
qed

text \<open>A device that answers each command at once, as the stock gadget does.\<close>

definition gadget_reply :: "bytes \<Rightarrow> bytes" where
  "gadget_reply msg = (case (u32_at msg 0, u32_at msg 8) of
     (Inr ty, Inr i) \<Rightarrow>
       if ty = MSG_INIT then le_words [MSG_INIT_C, 52, i, STATUS_SUCCESS, 1, 0, 0, 0, 8, 16384, 0, 0, 0]
       else if ty = MSG_QUERY then le_words [MSG_QUERY_C, 30, i, STATUS_SUCCESS, 6, 16] @ [0xAA, 0xBB, 0xCC, 1, 2, 3]
       else le_words [MSG_SET_C, 16, i, STATUS_SUCCESS]
   | _ \<Rightarrow> [])"

definition gadget :: "(instant \<times> bytes list) control_transport" where
  "gadget =
     \<lparr>ct_send = \<lambda>m (t, q). (Inr (), (t, q @ [gadget_reply m])),
      ct_receive = \<lambda>(t, q). (case q of [] \<Rightarrow> (Inr [], (t + 1, [])) | m # q' \<Rightarrow> (Inr m, (t + 1, q'))),
      ct_await = \<lambda>_ s. (Inr (), s), ct_now = \<lambda>(t, q). (t, (t, q))\<rparr>"

lemma gadget_clock: "clock_ok gadget fst"
  by (auto simp: clock_ok_def gadget_def split: list.splits)

lemma transact_gadget:
  assumes "completes expect i (gadget_reply msg)" and "rn_transport r = (t, [])"
  shows "transact gadget msg expect i r = Some (Inr (gadget_reply msg), r\<lparr>rn_transport := (t + 1, [])\<rparr>)"
proof -
  obtain st where "u32_at (gadget_reply msg) 12 = Inr st"
    using assms(1) by (auto simp: completes_def u32_at_eq)
  with assms show ?thesis
    by (simp add: transact_def transact_loop.simps rn_send_def rn_now_def transact_turn_def rn_await_def rn_receive_def
        gadget_def completes_def has_type_def decode_completion_def TRANSACTION_TIMEOUT_def from_secs_def)
qed

lemma gadget_replies:
  "gadget_reply (encode_init i n) = le_words [MSG_INIT_C, 52, i, STATUS_SUCCESS, 1, 0, 0, 0, 8, 16384, 0, 0, 0]"
  "gadget_reply (encode_query i oid) = le_words [MSG_QUERY_C, 30, i, STATUS_SUCCESS, 6, 16] @ [0xAA, 0xBB, 0xCC, 1, 2, 3]"
  "gadget_reply (encode_set i oid data) = le_words [MSG_SET_C, 16, i, STATUS_SUCCESS]"
proof -
  note at = u32_at_le_words [of 0] u32_at_le_words [of 2]
  have types: "MSG_QUERY \<noteq> MSG_INIT" "MSG_SET \<noteq> MSG_INIT" "MSG_SET \<noteq> MSG_QUERY"
    by (simp_all add: const_simps)
  show "gadget_reply (encode_init i n) = le_words [MSG_INIT_C, 52, i, STATUS_SUCCESS, 1, 0, 0, 0, 8, 16384, 0, 0, 0]"
    unfolding gadget_reply_def encode_init_def fold_put_u32 append_Nil
    using at [of _ "[]"] by simp
  show "gadget_reply (encode_query i oid) = le_words [MSG_QUERY_C, 30, i, STATUS_SUCCESS, 6, 16] @ [0xAA, 0xBB, 0xCC, 1, 2, 3]"
    unfolding gadget_reply_def encode_query_def fold_put_u32 append_Nil
    using at [of _ "[]"] types by simp
  show "gadget_reply (encode_set i oid data) = le_words [MSG_SET_C, 16, i, STATUS_SUCCESS]"
    unfolding gadget_reply_def encode_set_def fold_put_u32 append_Nil
    using at [of _ data] types by simp
qed

lemma completes_le_words:
  "4 \<le> length ws \<Longrightarrow> completes expect i (le_words ws @ xs) \<longleftrightarrow> ws ! 0 = expect \<and> ws ! 2 = i"
  using u32_at_le_words [of 2 ws xs] by (auto simp: completes_def has_type_le_words)

lemma bring_up_gadget:
  "bring_up gadget (rndis_new (0, [])) =
     Some (Inr \<lparr>se_host_mac = [0xAA, 0xBB, 0xCC, 1, 2, 3], se_device_max_transfer_size = 16384,
                se_max_packets_per_transfer = 8, se_packet_alignment = 1\<rparr>,
           \<lparr>rn_transport = (3, []), rn_next_request_id = 4, rn_link = LinkUp\<rparr>)"
proof -
  note at = u32_at_le_words_numeral [of _ _ "[]", simplified]
  note run = take_request_id_def transact_gadget gadget_replies completes_le_words
    completes_le_words [of _ _ _ "[]", simplified]
  have m: "max (2 :: u32) 1 = 2" "max (3 :: u32) 1 = 3" "max (4 :: u32) 1 = 4" "max (8 :: u32) 1 = 8"
    by (simp_all add: max_def word_le_def)
  have ini: "rndis_initialize gadget (rndis_new (0, [])) =
      Some (Inr \<lparr>ic_request_id = 1, ic_status = 0, ic_major_version = 1, ic_minor_version = 0, ic_medium = 0,
        ic_max_packets_per_transfer = 8, ic_max_transfer_size = 16384, ic_packet_alignment = 1\<rparr>,
        \<lparr>rn_transport = (1, []), rn_next_request_id = 2, rn_link = LinkUnknown\<rparr>)"
    by (simp add: rndis_initialize_def rndis_new_def run decode_init_complete_def at STATUS_SUCCESS_def m)
  have nz: "[0xAA, 0xBB, 0xCC, 1, 2, 3] \<noteq> replicate 6 (0 :: u8)"
    by (simp add: eval_nat_numeral)
  have qry: "query_mac gadget \<lparr>rn_transport = (1, []), rn_next_request_id = 2, rn_link = LinkUnknown\<rparr> =
      Some (Inr [0xAA, 0xBB, 0xCC, 1, 2, 3],
        \<lparr>rn_transport = (2, []), rn_next_request_id = 3, rn_link = LinkUnknown\<rparr>)"
    using decode_query_complete_mac [of "[0xAA, 0xBB, 0xCC, 1, 2, 3]" 30 2 "[]"]
    by (simp add: query_mac_def rndis_query_def run m nz Let_def numeral_2_eq_2)
  have st: "rndis_set gadget OID_GEN_CURRENT_PACKET_FILTER [0x2F, 0, 0, 0]
      \<lparr>rn_transport = (2, []), rn_next_request_id = 3, rn_link = LinkUnknown\<rparr> =
      Some (Inr (), \<lparr>rn_transport = (3, []), rn_next_request_id = 4, rn_link = LinkUnknown\<rparr>)"
    by (simp add: rndis_set_def run decode_completion_def at m numeral_2_eq_2 numeral_3_eq_3)
  show ?thesis
    by (simp add: bring_up_def ini qry [unfolded One_nat_def] st default_filter_bytes m)
qed

theorem bring_up_sequence_witness:
  "clock_ok gadget fst
   \<and> (\<exists>se r. bring_up gadget (rndis_new (0, [])) = Some (Inr se, r) \<and> se_host_mac se = [0xAA, 0xBB, 0xCC, 1, 2, 3])
   \<and> (\<exists>res r'. bring_up (logged gadget) (rndis_new ((0, []), [])) = Some (res, r'))"
  using gadget_clock bring_up_gadget bring_up_sequence [OF gadget_clock, of "(0, [])"] by auto

end
