(* ===== verification/Usb_Device.thy ===== *)
theory Usb_Device
  imports Usb_Matcher Rndis_Control
begin

text \<open>
  The phone as a USB device: the traits of \<^verbatim>\<open>src/src/usb/backend.rs\<close> as a parameter, a
  record of functions on the state of the bus in which every open object is a handle; the control
  transport of \<^verbatim>\<open>src/src/transport.rs\<close>; the scan and the bring-up of
  \<^verbatim>\<open>src/src/device.rs\<close>. Handles are dropped where the source's values go out of scope. Shown
  here: the transport satisfies what the control channel relies on and keeps its interrupt reads
  queued; the scan finds the first device with an RNDIS function and names the others; opening
  returns, sets the device up in the order USB asks for, and leaves exactly the handles of the link
  open, none when it fails.
\<close>

subsection \<open>The bus\<close>

record control_setup =
  cs_request :: u8
  cs_value :: u16
  cs_index :: u16

datatype usb_handle = DeviceHandle nat | InterfaceHandle nat | InHandle nat | OutHandle nat

record 'b usb_backend =
  ub_list :: "'b \<Rightarrow> (usb_error + device_info list) \<times> 'b"
  ub_open :: "device_id \<Rightarrow> 'b \<Rightarrow> (usb_error + nat) \<times> 'b"
  ud_configurations :: "nat \<Rightarrow> 'b \<Rightarrow> (usb_error + config_descriptor list) \<times> 'b"
  ud_active_configuration :: "nat \<Rightarrow> 'b \<Rightarrow> (usb_error + u8) \<times> 'b"
  ud_set_configuration :: "nat \<Rightarrow> u8 \<Rightarrow> 'b \<Rightarrow> (usb_error + unit) \<times> 'b"
  ud_claim_interface :: "nat \<Rightarrow> u8 \<Rightarrow> 'b \<Rightarrow> (usb_error + nat) \<times> 'b"
  ui_set_alt_setting :: "nat \<Rightarrow> u8 \<Rightarrow> 'b \<Rightarrow> (usb_error + unit) \<times> 'b"
  ui_control_out :: "nat \<Rightarrow> control_setup \<Rightarrow> bytes \<Rightarrow> duration \<Rightarrow> 'b \<Rightarrow> (usb_error + unit) \<times> 'b"
  ui_control_in :: "nat \<Rightarrow> control_setup \<Rightarrow> u16 \<Rightarrow> duration \<Rightarrow> 'b \<Rightarrow> (usb_error + bytes) \<times> 'b"
  ui_open_in :: "nat \<Rightarrow> u8 \<Rightarrow> transfer_type \<Rightarrow> 'b \<Rightarrow> (usb_error + nat) \<times> 'b"
  ui_open_out :: "nat \<Rightarrow> u8 \<Rightarrow> transfer_type \<Rightarrow> 'b \<Rightarrow> (usb_error + nat) \<times> 'b"
  ue_submit :: "nat \<Rightarrow> usize \<Rightarrow> 'b \<Rightarrow> 'b"
  ue_wait :: "nat \<Rightarrow> duration \<Rightarrow> 'b \<Rightarrow> (usb_error + bytes) option \<times> 'b"
  ub_drop :: "usb_handle \<Rightarrow> 'b \<Rightarrow> 'b"
  ub_sleep :: "duration \<Rightarrow> 'b \<Rightarrow> 'b"
  ub_now :: "'b \<Rightarrow> instant \<times> 'b"

subsection \<open>The control transport\<close>

definition CONTROL_TIMEOUT :: duration where "CONTROL_TIMEOUT = from_secs 2"
definition NOTIFY_DEPTH :: usize where [const_simps]: "NOTIFY_DEPTH = 2"

text \<open>The transport, with the bus it acts on.\<close>

record 'b usb_control_transport =
  tr_interface :: nat
  tr_interface_number :: u16
  tr_notify :: "nat option"
  tr_bus :: 'b

text \<open>On failure the interface, which the function owns, is dropped.\<close>

definition usb_control_transport_new ::
  "'b usb_backend \<Rightarrow> nat \<Rightarrow> u8 \<Rightarrow> u8 option \<Rightarrow> 'b \<Rightarrow> (rndis_error + 'b usb_control_transport) \<times> 'b" where
  "usb_control_transport_new U interface interface_number interrupt_in b =
     (case (case interrupt_in of
              Some address \<Rightarrow>
                (case ui_open_in U interface address TInterrupt b of
                   (Inl e, b) \<Rightarrow> (Inl (RndisTransport (usb_error_string e)), b)
                 | (Inr ep, b) \<Rightarrow> (Inr (Some ep), (ue_submit U ep 8 ^^ NOTIFY_DEPTH) b))
            | None \<Rightarrow> (Inr None, b)) of
        (Inl e, b) \<Rightarrow> (Inl e, ub_drop U (InterfaceHandle interface) b)
      | (Inr notify, b) \<Rightarrow>
          (Inr \<lparr>tr_interface = interface, tr_interface_number = ucast interface_number,
                tr_notify = notify, tr_bus = b\<rparr>, b))"

definition tr_setup :: "'b usb_control_transport \<Rightarrow> u8 \<Rightarrow> control_setup" where
  "tr_setup t request = \<lparr>cs_request = request, cs_value = 0, cs_index = tr_interface_number t\<rparr>"

text \<open>\<open>map_err(|e| RndisError::Transport(e.to_string()))\<close>, with the new state of the bus.\<close>

definition tr_result :: "'b usb_control_transport \<Rightarrow> (usb_error + 'a) \<times> 'b \<Rightarrow> (rndis_error + 'a) \<times> 'b usb_control_transport" where
  "tr_result t rb =
     (case rb of
        (Inl e, b) \<Rightarrow> (Inl (RndisTransport (usb_error_string e)), t\<lparr>tr_bus := b\<rparr>)
      | (Inr a, b) \<Rightarrow> (Inr a, t\<lparr>tr_bus := b\<rparr>))"

definition tr_send :: "'b usb_backend \<Rightarrow> bytes \<Rightarrow> 'b usb_control_transport \<Rightarrow> (rndis_error + unit) \<times> 'b usb_control_transport" where
  "tr_send U msg t =
     tr_result t (ui_control_out U (tr_interface t) (tr_setup t REQ_SEND_ENCAPSULATED) msg CONTROL_TIMEOUT (tr_bus t))"

definition tr_receive :: "'b usb_backend \<Rightarrow> 'b usb_control_transport \<Rightarrow> (rndis_error + bytes) \<times> 'b usb_control_transport" where
  "tr_receive U t =
     tr_result t (ui_control_in U (tr_interface t) (tr_setup t REQ_GET_ENCAPSULATED) (of_nat MAX_CONTROL_MSG) CONTROL_TIMEOUT (tr_bus t))"

definition tr_await :: "'b usb_backend \<Rightarrow> duration \<Rightarrow> 'b usb_control_transport \<Rightarrow> (rndis_error + unit) \<times> 'b usb_control_transport" where
  "tr_await U timeout t =
     (case tr_notify t of
        None \<Rightarrow> (Inr (), t\<lparr>tr_bus := ub_sleep U timeout (tr_bus t)\<rparr>)
      | Some notify \<Rightarrow>
          (case ue_wait U notify timeout (tr_bus t) of
             (Some (Inr data), b) \<Rightarrow> (Inr (), t\<lparr>tr_bus := ue_submit U notify 8 b\<rparr>)
           | (Some (Inl e), b) \<Rightarrow>
               (Inl (RndisTransport (usb_error_string e)), t\<lparr>tr_bus := ue_submit U notify 8 b\<rparr>)
           | (None, b) \<Rightarrow> (Inr (), t\<lparr>tr_bus := b\<rparr>)))"

text \<open>\<open>impl ControlTransport for UsbControlTransport\<close>\<close>

definition usb_transport :: "'b usb_backend \<Rightarrow> 'b usb_control_transport control_transport" where
  "usb_transport U =
     \<lparr>ct_send = tr_send U, ct_receive = tr_receive U, ct_await = tr_await U,
      ct_now = \<lambda>t. (case ub_now U (tr_bus t) of (n, b) \<Rightarrow> (n, t\<lparr>tr_bus := b\<rparr>))\<rparr>"

text \<open>Dropping the transport drops its interface and its endpoint.\<close>

definition tr_drop :: "'b usb_backend \<Rightarrow> 'b usb_control_transport \<Rightarrow> 'b" where
  "tr_drop U t =
     (let b = ub_drop U (InterfaceHandle (tr_interface t)) (tr_bus t) in
      case tr_notify t of None \<Rightarrow> b | Some ep \<Rightarrow> ub_drop U (InHandle ep) b)"

subsection \<open>Scanning\<close>

record scan =
  sc_rndis :: "(device_info \<times> rndis_function) option"
  sc_idle :: "string list"

text \<open>
  The loop of \<open>find\<close> over the devices that are left. \<open>None\<close> is a panic (of the matcher).
  The device handle is dropped at the end of each turn, and on the return.
\<close>

fun find_loop ::
  "'b usb_backend \<Rightarrow> device_info list \<Rightarrow> string list \<Rightarrow> 'b \<Rightarrow> (scan \<times> 'b) option" where
  "find_loop U [] idle b = Some (\<lparr>sc_rndis = None, sc_idle = idle\<rparr>, b)"
| "find_loop U (info # infos) idle b =
     (case ub_open U (di_id info) b of
        (Inl e, b) \<Rightarrow> find_loop U infos idle b
      | (Inr device, b) \<Rightarrow>
          (case ud_configurations U device b of
             (Inl e, b) \<Rightarrow> find_loop U infos idle (ub_drop U (DeviceHandle device) b)
           | (Inr configs, b) \<Rightarrow>
               (case find_rndis configs of
                  None \<Rightarrow> None
                | Some (Some function) \<Rightarrow>
                    Some (\<lparr>sc_rndis = Some (info, function), sc_idle = idle\<rparr>, ub_drop U (DeviceHandle device) b)
                | Some None \<Rightarrow> find_loop U infos (idle @ [label info]) (ub_drop U (DeviceHandle device) b))))"

definition device_find :: "'b usb_backend \<Rightarrow> 'b \<Rightarrow> ((string + scan) \<times> 'b) option" where
  "device_find U b =
     (case ub_list U b of
        (Inl e, b) \<Rightarrow> Some (Inl ''listing USB devices'', b)
      | (Inr infos, b) \<Rightarrow> map_option (\<lambda>(scan, b). (Inr scan, b)) (find_loop U infos [] b))"

subsection \<open>Opening\<close>

record 'b rndis_device =
  rd_session :: session
  rd_control :: "'b usb_control_transport rndis"
  rd_bulk_in :: nat
  rd_bulk_out :: nat
  rd_device :: nat

definition select_configuration :: "'b usb_backend \<Rightarrow> nat \<Rightarrow> u8 \<Rightarrow> 'b \<Rightarrow> (string + unit) \<times> 'b" where
  "select_configuration U device value b =
     (case ud_active_configuration U device b of
        (Inr active, b) \<Rightarrow>
          if active = value then (Inr (), b)
          else (case ud_set_configuration U device value b of
                  (Inl e, b) \<Rightarrow> (Inl ''selecting the RNDIS configuration'', b)
                | (Inr _, b) \<Rightarrow> (Inr (), b))
      | (Inl e, b) \<Rightarrow>
          (case ud_set_configuration U device value b of
             (Inl e, b) \<Rightarrow> (Inl ''selecting the RNDIS configuration'', b)
           | (Inr _, b) \<Rightarrow> (Inr (), b)))"

definition select_alt_setting :: "'b usb_backend \<Rightarrow> nat \<Rightarrow> u8 \<Rightarrow> 'b \<Rightarrow> (string + unit) \<times> 'b" where
  "select_alt_setting U interface alt b =
     (if alt \<noteq> 0 then
        (case ui_set_alt_setting U interface alt b of
           (Inl e, b) \<Rightarrow> (Inl ''selecting the data interface alt setting'', b)
         | (Inr _, b) \<Rightarrow> (Inr (), b))
      else (Inr (), b))"

text \<open>
  Everything after the two claims. On every way out the data interface is dropped: the endpoints
  keep what they need of it.
\<close>

definition open_link ::
  "'b usb_backend \<Rightarrow> rndis_function \<Rightarrow> nat \<Rightarrow> nat \<Rightarrow> nat \<Rightarrow> 'b \<Rightarrow> ((string + 'b rndis_device) \<times> 'b) option" where
  "open_link U f device control_interface data_interface b =
     (let drop_data = ub_drop U (InterfaceHandle data_interface);
          drop_control = ub_drop U (InterfaceHandle control_interface) in
      case select_alt_setting U data_interface (rf_data_alt_setting f) b of
        (Inl e, b) \<Rightarrow> Some (Inl e, drop_control (drop_data b))
      | (Inr _, b) \<Rightarrow>
          (case usb_control_transport_new U control_interface (rf_control_interface f) (rf_interrupt_in f) b of
             (Inl e, b) \<Rightarrow> Some (Inl (''opening the control transport: '' @ rndis_error_string e), drop_data b)
           | (Inr transport, b) \<Rightarrow>
               (case bring_up (usb_transport U) (rndis_new transport) of
                  None \<Rightarrow> None
                | Some (Inl e, control) \<Rightarrow>
                    Some (Inl (''RNDIS bring-up: '' @ rndis_error_string e), drop_data (tr_drop U (rn_transport control)))
                | Some (Inr session, control) \<Rightarrow>
                    (case ui_open_in U data_interface (rf_bulk_in f) TBulk (tr_bus (rn_transport control)) of
                       (Inl e, b) \<Rightarrow> Some (Inl ''opening the bulk IN endpoint'',
                          drop_data (tr_drop U ((rn_transport control)\<lparr>tr_bus := b\<rparr>)))
                     | (Inr bulk_in, b) \<Rightarrow>
                         (case ui_open_out U data_interface (rf_bulk_out f) TBulk b of
                            (Inl e, b) \<Rightarrow> Some (Inl ''opening the bulk OUT endpoint'',
                               drop_data (tr_drop U ((rn_transport control)\<lparr>tr_bus := ub_drop U (InHandle bulk_in) b\<rparr>)))
                          | (Inr bulk_out, b) \<Rightarrow>
                              (let b = drop_data b in
                               Some (Inr \<lparr>rd_session = session,
                                          rd_control = control\<lparr>rn_transport := (rn_transport control)\<lparr>tr_bus := b\<rparr>\<rparr>,
                                          rd_bulk_in = bulk_in, rd_bulk_out = bulk_out, rd_device = device\<rparr>, b)))))))"

definition device_open ::
  "'b usb_backend \<Rightarrow> device_info \<Rightarrow> rndis_function \<Rightarrow> 'b \<Rightarrow> ((string + 'b rndis_device) \<times> 'b) option" where
  "device_open U info f b =
     (case ub_open U (di_id info) b of
        (Inl e, b) \<Rightarrow> Some (Inl (''opening '' @ label info), b)
      | (Inr device, b) \<Rightarrow>
          (let drop_device = ub_drop U (DeviceHandle device) in
           case select_configuration U device (rf_config_value f) b of
             (Inl e, b) \<Rightarrow> Some (Inl e, drop_device b)
           | (Inr _, b) \<Rightarrow>
               (case ud_claim_interface U device (rf_control_interface f) b of
                  (Inl e, b) \<Rightarrow>
                    Some (Inl (''claiming control interface '' @ nat_string (unat (rf_control_interface f))), drop_device b)
                | (Inr control_interface, b) \<Rightarrow>
                    (case ud_claim_interface U device (rf_data_interface f) b of
                       (Inl e, b) \<Rightarrow>
                         Some (Inl (''claiming data interface '' @ nat_string (unat (rf_data_interface f))),
                               drop_device (ub_drop U (InterfaceHandle control_interface) b))
                     | (Inr data_interface, b) \<Rightarrow>
                         (case open_link U f device control_interface data_interface b of
                            None \<Rightarrow> None
                          | Some (Inl e, b) \<Rightarrow> Some (Inl e, drop_device b)
                          | Some (Inr d, b) \<Rightarrow> Some (Inr d, b))))))"

subsection \<open>What the bus promises\<close>

text \<open>
  The clock of the bus never goes back, and a control transfer from the device takes time.
\<close>

definition usb_clock_ok :: "'b usb_backend \<Rightarrow> ('b \<Rightarrow> instant) \<Rightarrow> bool" where
  "usb_clock_ok U clk \<longleftrightarrow>
     (\<forall>b. fst (ub_now U b) = clk b \<and> clk b \<le> clk (snd (ub_now U b)))
     \<and> (\<forall>i c m d b. clk b \<le> clk (snd (ui_control_out U i c m d b)))
     \<and> (\<forall>i c n d b. clk b < clk (snd (ui_control_in U i c n d b)))
     \<and> (\<forall>ep n b. clk b \<le> clk (ue_submit U ep n b))
     \<and> (\<forall>ep d b. clk b \<le> clk (snd (ue_wait U ep d b)))
     \<and> (\<forall>d b. clk b \<le> clk (ub_sleep U d b))"

text \<open>The state of the bus that matters here: the open handles, and the reads queued per endpoint.\<close>

record bus_view =
  bv_handles :: "usb_handle set"
  bv_queued :: "nat \<Rightarrow> nat"

text \<open>
  A new handle was not open, and a new endpoint has no reads queued; a failing call opens nothing;
  dropping a handle closes it and leaves the queues of the others. A read is queued by \<open>submit\<close> and leaves the queue when
  \<open>wait\<close> returns it. Everything else leaves both alone.
\<close>

definition acquires :: "('b \<Rightarrow> bus_view) \<Rightarrow> (nat \<Rightarrow> usb_handle) \<Rightarrow> 'b \<Rightarrow> (usb_error + nat) \<times> 'b \<Rightarrow> bool" where
  "acquires v H b rb \<longleftrightarrow>
     (case rb of
        (Inl e, b') \<Rightarrow> v b' = v b
      | (Inr h, b') \<Rightarrow> H h \<notin> bv_handles (v b) \<and> v b' = (v b)\<lparr>bv_handles := insert (H h) (bv_handles (v b))\<rparr>)"

definition usb_ok :: "'b usb_backend \<Rightarrow> ('b \<Rightarrow> bus_view) \<Rightarrow> bool" where
  "usb_ok U v \<longleftrightarrow>
     (\<forall>b. v (snd (ub_list U b)) = v b)
     \<and> (\<forall>i b. acquires v DeviceHandle b (ub_open U i b))
     \<and> (\<forall>d b. v (snd (ud_configurations U d b)) = v b)
     \<and> (\<forall>d b. v (snd (ud_active_configuration U d b)) = v b)
     \<and> (\<forall>d c b. v (snd (ud_set_configuration U d c b)) = v b)
     \<and> (\<forall>d n b. acquires v InterfaceHandle b (ud_claim_interface U d n b))
     \<and> (\<forall>i a b. v (snd (ui_set_alt_setting U i a b)) = v b)
     \<and> (\<forall>i c m d b. v (snd (ui_control_out U i c m d b)) = v b)
     \<and> (\<forall>i c n d b. v (snd (ui_control_in U i c n d b)) = v b)
     \<and> (\<forall>i a ty b. acquires v InHandle b (ui_open_in U i a ty b)
          \<and> (\<forall>h. fst (ui_open_in U i a ty b) = Inr h \<longrightarrow> bv_queued (v b) h = 0))
     \<and> (\<forall>i a ty b. acquires v OutHandle b (ui_open_out U i a ty b))
     \<and> (\<forall>h n b. v (ue_submit U h n b) = (v b)\<lparr>bv_queued := (bv_queued (v b))(h := bv_queued (v b) h + 1)\<rparr>)
     \<and> (\<forall>h d b. case ue_wait U h d b of
          (None, b') \<Rightarrow> v b' = v b
        | (Some _, b') \<Rightarrow> bv_queued (v b) h > 0 \<and> v b' = (v b)\<lparr>bv_queued := (bv_queued (v b))(h := bv_queued (v b) h - 1)\<rparr>)
     \<and> (\<forall>h b. bv_handles (v (ub_drop U h b)) = bv_handles (v b) - {h}
          \<and> (\<forall>ep. h \<noteq> InHandle ep \<longrightarrow> bv_queued (v (ub_drop U h b)) ep = bv_queued (v b) ep))
     \<and> (\<forall>d b. v (ub_sleep U d b) = v b)
     \<and> (\<forall>b. v (snd (ub_now U b)) = v b)"

lemma usb_okD:
  assumes "usb_ok U v"
  shows "v (snd (ub_list U b)) = v b"
    and "acquires v DeviceHandle b (ub_open U i b)"
    and "v (snd (ud_configurations U d b)) = v b"
    and "v (snd (ud_active_configuration U d b)) = v b"
    and "v (snd (ud_set_configuration U d c b)) = v b"
    and "acquires v InterfaceHandle b (ud_claim_interface U d n b)"
    and "v (snd (ui_set_alt_setting U k a b)) = v b"
    and "v (snd (ui_control_out U k cs m t b)) = v b"
    and "v (snd (ui_control_in U k cs l t b)) = v b"
    and "acquires v InHandle b (ui_open_in U k a ty b)"
    and "fst (ui_open_in U k a ty b) = Inr h \<Longrightarrow> bv_queued (v b) h = 0"
    and "acquires v OutHandle b (ui_open_out U k a ty b)"
    and "v (ue_submit U h q b) = (v b)\<lparr>bv_queued := (bv_queued (v b))(h := bv_queued (v b) h + 1)\<rparr>"
    and "case ue_wait U h t b of
          (None, b') \<Rightarrow> v b' = v b
        | (Some _, b') \<Rightarrow> bv_queued (v b) h > 0 \<and> v b' = (v b)\<lparr>bv_queued := (bv_queued (v b))(h := bv_queued (v b) h - 1)\<rparr>"
    and "bv_handles (v (ub_drop U g b)) = bv_handles (v b) - {g}"
    and "v (ub_sleep U t b) = v b"
    and "v (snd (ub_now U b)) = v b"
    and "g \<noteq> InHandle h \<Longrightarrow> bv_queued (v (ub_drop U g b)) h = bv_queued (v b) h"
  using assms by (simp_all add: usb_ok_def)

subsection \<open>The control transport\<close>

lemma usb_transport_clock:
  assumes "usb_clock_ok U clk"
  shows "clock_ok (usb_transport U) (\<lambda>t. clk (tr_bus t))"
proof -
  note c = assms [unfolded usb_clock_ok_def]
  have "clk (tr_bus t) \<le> clk (tr_bus (snd (tr_await U d t)))" for d t
  proof (cases "tr_notify t")
    case None
    with c show ?thesis by (simp add: tr_await_def)
  next
    case (Some ep)
    obtain r b where w: "ue_wait U ep d (tr_bus t) = (r, b)" by fastforce
    have "clk (tr_bus t) \<le> clk b" using c w by (metis snd_conv)
    moreover have "clk b \<le> clk (ue_submit U ep 8 b)" using c by blast
    ultimately show ?thesis using Some w by (auto simp: tr_await_def split: option.splits sum.splits)
  qed
  moreover have "clk (tr_bus t) \<le> clk (tr_bus (snd (tr_send U m t)))" for m t
    using c by (auto simp: tr_send_def tr_result_def split: prod.splits sum.splits) (metis snd_conv)+
  moreover have "clk (tr_bus t) < clk (tr_bus (snd (tr_receive U t)))" for t
    using c by (auto simp: tr_receive_def tr_result_def split: prod.splits sum.splits) (metis snd_conv)+
  moreover have "fst (ub_now U b) = clk b \<and> clk b \<le> clk (snd (ub_now U b))" for b
    using c by blast
  ultimately show ?thesis
    by (simp add: clock_ok_def usb_transport_def split_beta)
qed

text \<open>The transport stays on the interface and the endpoint it was made for.\<close>

interpretation tr_fixed: transport_invariant "usb_transport U"
  "\<lambda>t. tr_interface t = i \<and> tr_interface_number t = n \<and> tr_notify t = e"
  by unfold_locales (auto simp: usb_transport_def tr_send_def tr_receive_def tr_await_def tr_result_def
      split: prod.splits sum.splits option.splits)

text \<open>It opens and closes nothing, and keeps its interrupt reads queued.\<close>

lemma tr_view_invariant:
  assumes "usb_ok U v"
  shows "transport_invariant (usb_transport U)
    (\<lambda>t. v (tr_bus t) = w \<and> (\<forall>ep. tr_notify t = Some ep \<longrightarrow> bv_queued w ep = NOTIFY_DEPTH))"
proof -
  note ok = usb_okD [OF assms]
  have "v (tr_bus (snd (tr_await U d t))) = v (tr_bus t) \<and> tr_notify (snd (tr_await U d t)) = tr_notify t" for d t
  proof (cases "tr_notify t")
    case None
    then show ?thesis by (simp add: tr_await_def ok)
  next
    case (Some ep)
    with ok(14) [where h = ep and t = d and b = "tr_bus t"] show ?thesis
      by (auto simp: tr_await_def ok(13) split: prod.splits option.splits sum.splits)
  qed
  moreover have "v (tr_bus (snd (tr_send U m t))) = v (tr_bus t) \<and> tr_notify (snd (tr_send U m t)) = tr_notify t" for m t
    using ok(8) [of "tr_interface t" "tr_setup t REQ_SEND_ENCAPSULATED" m CONTROL_TIMEOUT "tr_bus t"]
    by (auto simp: tr_send_def tr_result_def split: prod.splits sum.splits)
  moreover have "v (tr_bus (snd (tr_receive U t))) = v (tr_bus t) \<and> tr_notify (snd (tr_receive U t)) = tr_notify t" for t
    using ok(9) [of "tr_interface t" "tr_setup t REQ_GET_ENCAPSULATED" "of_nat MAX_CONTROL_MSG" CONTROL_TIMEOUT "tr_bus t"]
    by (auto simp: tr_receive_def tr_result_def split: prod.splits sum.splits)
  moreover have "v (snd (ub_now U b)) = v b" for b by (rule ok)
  ultimately show ?thesis
    by unfold_locales (simp_all add: usb_transport_def split_beta)
qed

subsection \<open>The scan\<close>

text \<open>
  The devices do not change during the scan: \<open>D\<close> gives the descriptors of those that can be
  opened and read.
\<close>

definition devices_fixed :: "'b usb_backend \<Rightarrow> (device_id \<rightharpoonup> config_descriptor list) \<Rightarrow> bool" where
  "devices_fixed U D \<longleftrightarrow>
     (\<forall>i b. case ub_open U i b of
        (Inl e, b') \<Rightarrow> D i = None
      | (Inr d, b') \<Rightarrow> (case ud_configurations U d b' of (Inl e, _) \<Rightarrow> D i = None | (Inr c, _) \<Rightarrow> D i = Some c))"

definition rndis_of :: "(device_id \<rightharpoonup> config_descriptor list) \<Rightarrow> device_info \<Rightarrow> rndis_function option" where
  "rndis_of D info = (case D (di_id info) of None \<Rightarrow> None | Some configs \<Rightarrow> the (find_rndis configs))"

definition readable :: "(device_id \<rightharpoonup> config_descriptor list) \<Rightarrow> device_info \<Rightarrow> bool" where
  "readable D info \<longleftrightarrow> D (di_id info) \<noteq> None"

text \<open>One turn of the loop, with the handle opened and dropped.\<close>

lemma find_loop_turn:
  assumes "usb_ok U v" and "devices_fixed U D"
  obtains b' where "bv_handles (v b') = bv_handles (v b)"
    "find_loop U (info # infos) idle b =
      (case rndis_of D info of
         Some f \<Rightarrow> Some (\<lparr>sc_rndis = Some (info, f), sc_idle = idle\<rparr>, b')
       | None \<Rightarrow> find_loop U infos (if readable D info then idle @ [label info] else idle) b')"
proof -
  obtain r b1 where o: "ub_open U (di_id info) b = (r, b1)" by fastforce
  note fixed = assms(2) [unfolded devices_fixed_def, THEN spec, THEN spec, of "di_id info" b]
  note acq = usb_okD(2) [OF assms(1), of b "di_id info", unfolded acquires_def o]
  show thesis
  proof (cases r)
    case (Inl e)
    with fixed acq o show thesis by (intro that [of b1]) (simp_all add: rndis_of_def readable_def)
  next
    case (Inr d)
    obtain c b2 where c: "ud_configurations U d b1 = (c, b2)" by fastforce
    have "v b2 = v b1" using usb_okD(3) [OF assms(1), of d b1] c by simp
    with acq Inr have h: "bv_handles (v (ub_drop U (DeviceHandle d) b2)) = bv_handles (v b)"
      by (simp add: usb_okD(15) [OF assms(1)])
    show thesis
    proof (cases c)
      case (Inl e)
      with fixed o c h \<open>r = Inr d\<close> show thesis
        by (intro that [of "ub_drop U (DeviceHandle d) b2"]) (simp_all add: rndis_of_def readable_def)
    next
      case (Inr configs)
      obtain f where "find_rndis configs = Some f" using find_rndis_no_panic by blast
      with Inr fixed o c h \<open>r = Inr d\<close> show thesis
        by (intro that [of "ub_drop U (DeviceHandle d) b2"])
          (simp_all add: rndis_of_def readable_def split: option.splits)
    qed
  qed
qed

lemma find_loop_scan:
  assumes "usb_ok U v" and "devices_fixed U D"
  shows "\<exists>b'. bv_handles (v b') = bv_handles (v b) \<and> find_loop U infos idle b =
    Some (\<lparr>sc_rndis = find_map (\<lambda>i. map_option (Pair i) (rndis_of D i)) infos,
           sc_idle = idle @ map label (filter (readable D) (takeWhile (\<lambda>i. rndis_of D i = None) infos))\<rparr>, b')"
proof (induction infos arbitrary: idle b)
  case (Cons info infos)
  obtain b1 where b1: "bv_handles (v b1) = bv_handles (v b)" and turn: "find_loop U (info # infos) idle b =
      (case rndis_of D info of
         Some f \<Rightarrow> Some (\<lparr>sc_rndis = Some (info, f), sc_idle = idle\<rparr>, b1)
       | None \<Rightarrow> find_loop U infos (if readable D info then idle @ [label info] else idle) b1)"
    using find_loop_turn [OF assms] by blast
  with Cons [where b = b1 and idle = "if readable D info then idle @ [label info] else idle"] show ?case
    by (cases "rndis_of D info") (auto simp del: find_loop.simps)
qed simp

text \<open>
  The scan. It never panics, and leaves no device open. When the devices do not change meanwhile, it
  finds the first device of the list that can be opened and read and has an RNDIS function, with
  that function, and names, in the order of the list, exactly the devices before it that could be
  read; when there is none, all that could be read.
\<close>

theorem device_find_first:
  assumes "usb_ok U v" and "devices_fixed U D" and "ub_list U b = (Inr infos, b1)"
  shows "\<exists>scan b'. device_find U b = Some (Inr scan, b') \<and> bv_handles (v b') = bv_handles (v b)
    \<and> (case sc_rndis scan of
         None \<Rightarrow> (\<forall>i\<in>set infos. rndis_of D i = None) \<and> sc_idle scan = map label (filter (readable D) infos)
       | Some (info, f) \<Rightarrow> \<exists>before after. infos = before @ info # after \<and> rndis_of D info = Some f
           \<and> (\<forall>i\<in>set before. rndis_of D i = None) \<and> sc_idle scan = map label (filter (readable D) before))"
proof -
  let ?idle = "map label (filter (readable D) (takeWhile (\<lambda>i. rndis_of D i = None) infos))"
  obtain b' where b': "bv_handles (v b') = bv_handles (v b1)"
    "find_loop U infos [] b1 = Some (\<lparr>sc_rndis = find_map (\<lambda>i. map_option (Pair i) (rndis_of D i)) infos, sc_idle = ?idle\<rparr>, b')"
    using find_loop_scan [OF assms(1,2), of b1 infos "[]"] by auto
  have "v b1 = v b" using usb_okD(1) [OF assms(1), of b] assms(3) by simp
  moreover have "case find_map (\<lambda>i. map_option (Pair i) (rndis_of D i)) infos of
       None \<Rightarrow> (\<forall>i\<in>set infos. rndis_of D i = None) \<and> ?idle = map label (filter (readable D) infos)
     | Some (info, f) \<Rightarrow> \<exists>before after. infos = before @ info # after \<and> rndis_of D info = Some f
         \<and> (\<forall>i\<in>set before. rndis_of D i = None) \<and> ?idle = map label (filter (readable D) before)"
  proof (cases "find_map (\<lambda>i. map_option (Pair i) (rndis_of D i)) infos")
    case None
    then have none: "\<forall>i\<in>set infos. rndis_of D i = None" by (simp add: find_map_None_iff)
    then have all: "takeWhile (\<lambda>i. rndis_of D i = None) infos = infos" by (simp add: takeWhile_eq_all_conv)
    show ?thesis unfolding None all using none by simp
  next
    case (Some y)
    then obtain before i after where split: "infos = before @ i # after" "map_option (Pair i) (rndis_of D i) = Some y"
        "\<forall>x\<in>set before. map_option (Pair x) (rndis_of D x) = None"
      by (rule find_map_firstE)
    then have "takeWhile (\<lambda>i. rndis_of D i = None) infos = before" by (auto simp: takeWhile_append)
    with Some split show ?thesis by auto
  qed
  ultimately show ?thesis
    using b' assms(3)
    by (cases "find_map (\<lambda>i. map_option (Pair i) (rndis_of D i)) infos") (auto simp: device_find_def)
qed

subsection \<open>Opening\<close>

lemma acquiresE:
  assumes "acquires v H b rb"
  obtains (failed) e b' where "rb = (Inl e, b')" "v b' = v b"
  | (got) h b' where "rb = (Inr h, b')" "H h \<notin> bv_handles (v b)"
      "v b' = (v b)\<lparr>bv_handles := insert (H h) (bv_handles (v b))\<rparr>"
  using assms by (auto simp: acquires_def split: prod.splits sum.splits)

lemma select_view:
  assumes "usb_ok U v"
  shows "v (snd (select_configuration U d c b)) = v b" "v (snd (select_alt_setting U k a b)) = v b"
proof -
  obtain r b1 where a: "ud_active_configuration U d b = (r, b1)" by fastforce
  obtain r' b2 where s: "ud_set_configuration U d c b1 = (r', b2)" by fastforce
  have "v b1 = v b" "v b2 = v b1"
    using usb_okD(4) [OF assms, of d b] usb_okD(5) [OF assms, of d c b1] a s by simp_all
  with a s show "v (snd (select_configuration U d c b)) = v b"
    by (auto simp: select_configuration_def split: sum.splits)
  show "v (snd (select_alt_setting U k a b)) = v b"
    using usb_okD(7) [OF assms, of k a b] by (auto simp: select_alt_setting_def split: prod.splits sum.splits)
qed

text \<open>The handles of a transport.\<close>

definition tr_handles :: "'b usb_control_transport \<Rightarrow> usb_handle set" where
  "tr_handles t = {InterfaceHandle (tr_interface t)} \<union> (case tr_notify t of None \<Rightarrow> {} | Some ep \<Rightarrow> {InHandle ep})"

lemma tr_handles_bus [simp]: "tr_handles (t\<lparr>tr_bus := x\<rparr>) = tr_handles t"
  by (simp add: tr_handles_def)

lemma tr_drop_handles:
  assumes "usb_ok U v"
  shows "bv_handles (v (tr_drop U t)) = bv_handles (v (tr_bus t)) - tr_handles t"
  by (auto simp: tr_drop_def tr_handles_def usb_okD(15) [OF assms] Let_def split: option.splits)

lemma queue_notify:
  assumes "usb_ok U v"
  shows "v ((ue_submit U ep 8 ^^ k) b) = (v b)\<lparr>bv_queued := (bv_queued (v b))(ep := bv_queued (v b) ep + k)\<rparr>"
  by (induction k) (simp_all add: usb_okD(13) [OF assms] fun_upd_def cong: if_cong)

lemma transport_new_view:
  assumes ok: "usb_ok U v" and "usb_control_transport_new U i n intr b = (r, b')"
  shows "case r of
      Inl e \<Rightarrow> bv_handles (v b') = bv_handles (v b) - {InterfaceHandle i}
    | Inr t \<Rightarrow> tr_interface t = i \<and> tr_interface_number t = ucast n \<and> tr_bus t = b'
        \<and> (tr_notify t = None \<longleftrightarrow> intr = None)
        \<and> (\<forall>ep. tr_notify t = Some ep \<longrightarrow> InHandle ep \<notin> bv_handles (v b) \<and> bv_queued (v b') ep = NOTIFY_DEPTH)
        \<and> bv_handles (v b') = bv_handles (v b) \<union> (tr_handles t - {InterfaceHandle i})"
proof (cases intr)
  case None
  with assms(2) show ?thesis by (auto simp: usb_control_transport_new_def tr_handles_def)
next
  case (Some address)
  from usb_okD(10) [OF ok, of b i address TInterrupt] show ?thesis
  proof (cases rule: acquiresE)
    case (failed e b1)
    with Some assms(2) show ?thesis
      by (auto simp: usb_control_transport_new_def usb_okD(15) [OF ok])
  next
    case (got h b1)
    have "bv_queued (v b) h = 0" using usb_okD(11) [OF ok, of i address TInterrupt b h] got(1) by simp
    with got Some assms(2) queue_notify [OF ok, where ep = h and k = NOTIFY_DEPTH and b = b1] show ?thesis
      by (auto simp: usb_control_transport_new_def tr_handles_def)
  qed
qed

definition link_handles :: "'b rndis_device \<Rightarrow> usb_handle set" where
  "link_handles d = tr_handles (rn_transport (rd_control d)) \<union> {InHandle (rd_bulk_in d), OutHandle (rd_bulk_out d)}"

text \<open>An open link: its transport is on the control interface, with its interrupt reads queued.\<close>

definition link_open :: "('b \<Rightarrow> bus_view) \<Rightarrow> rndis_function \<Rightarrow> usb_handle set \<Rightarrow> 'b rndis_device \<Rightarrow> 'b \<Rightarrow> bool" where
  "link_open v f H d b \<longleftrightarrow>
     tr_bus (rn_transport (rd_control d)) = b
     \<and> tr_interface_number (rn_transport (rd_control d)) = ucast (rf_control_interface f)
     \<and> (tr_notify (rn_transport (rd_control d)) = None \<longleftrightarrow> rf_interrupt_in f = None)
     \<and> (\<forall>ep. tr_notify (rn_transport (rd_control d)) = Some ep \<longrightarrow> bv_queued (v b) ep = NOTIFY_DEPTH)
     \<and> link_handles d \<inter> H = {} \<and> bv_handles (v b) = H \<union> link_handles d"

lemma open_link_handles:
  assumes ok: "usb_ok U v" and clock: "usb_clock_ok U clk"
    and b: "bv_handles (v b) = H \<union> {InterfaceHandle c, InterfaceHandle k}"
    and new: "InterfaceHandle c \<notin> H" "InterfaceHandle k \<notin> H" "c \<noteq> k"
  shows "\<exists>res b'. open_link U f device c k b = Some (res, b')
    \<and> (case res of Inl e \<Rightarrow> bv_handles (v b') = H | Inr d \<Rightarrow> rd_device d = device \<and> link_open v f H d b')"
proof -
  obtain r1 b1 where s1: "select_alt_setting U k (rf_data_alt_setting f) b = (r1, b1)" by fastforce
  have v1: "v b1 = v b" using select_view(2) [OF ok, of k "rf_data_alt_setting f" b] s1 by simp
  obtain r2 b2 where s2: "usb_control_transport_new U c (rf_control_interface f) (rf_interrupt_in f) b1 = (r2, b2)" by fastforce
  note v2 = transport_new_view [OF ok s2]
  consider e where "r1 = Inl e" | u e where "r1 = Inr u" "r2 = Inl e" | u t where "r1 = Inr u" "r2 = Inr t"
    by (metis sum.exhaust)
  then show ?thesis
  proof cases
    case 1
    with s1 v1 b new show ?thesis by (auto simp: open_link_def usb_okD(15) [OF ok])
  next
    case 2
    with s1 s2 v1 v2 b new show ?thesis by (auto simp: open_link_def usb_okD(15) [OF ok])
  next
    case 3
    obtain res r where up: "bring_up (usb_transport U) (rndis_new t) = Some (res, r)"
      using bring_up_returns [OF usb_transport_clock [OF clock], of "rndis_new t"] by fastforce
    have t: "tr_interface t = c" "tr_interface_number t = ucast (rf_control_interface f)" "tr_bus t = b2"
      "tr_notify t = None \<longleftrightarrow> rf_interrupt_in f = None"
      "\<And>ep. tr_notify t = Some ep \<Longrightarrow> InHandle ep \<notin> H \<and> bv_queued (v b2) ep = NOTIFY_DEPTH"
      "bv_handles (v b2) = H \<union> {InterfaceHandle k} \<union> tr_handles t"
      using v2 3 v1 b by (auto simp: tr_handles_def)
    have r: "tr_interface (rn_transport r) = c \<and> tr_interface_number (rn_transport r) = ucast (rf_control_interface f)
        \<and> tr_notify (rn_transport r) = tr_notify t"
      using tr_fixed.keeps_bring_up [OF up] t by (simp add: rndis_new_def)
    have vr: "v (tr_bus (rn_transport r)) = v b2"
      using transport_invariant.keeps_bring_up [OF tr_view_invariant [OF ok] up, of "v b2"] t by (simp add: rndis_new_def)
    let ?t = "rn_transport r"
    have th: "tr_handles ?t = tr_handles t" using r t(1) by (simp add: tr_handles_def)
    have disj: "tr_handles t \<inter> H = {}" "InterfaceHandle k \<notin> tr_handles t"
      using t(1,5) new by (auto simp: tr_handles_def split: option.splits)
    have closed: "bv_handles (v (ub_drop U (InterfaceHandle k) (tr_drop U (?t\<lparr>tr_bus := x\<rparr>)))) = H"
      if "bv_handles (v x) = bv_handles (v b2)" for x
      using that disj new(2) by (auto simp: usb_okD(15) [OF ok] tr_drop_handles [OF ok] th t(6))
    note eqs = open_link_def Let_def s1 s2 3 up
    show ?thesis
    proof (cases res)
      case (Inl e)
      with closed [of "tr_bus ?t"] vr show ?thesis by (simp add: eqs)
    next
      case (Inr se)
      from usb_okD(10) [OF ok, of "tr_bus ?t" k "rf_bulk_in f" TBulk] show ?thesis
      proof (cases rule: acquiresE)
        case (failed e b3)
        with Inr closed [of b3] vr show ?thesis by (simp add: eqs)
      next
        case (got h b3)
        from usb_okD(12) [OF ok, of b3 k "rf_bulk_out f" TBulk] show ?thesis
        proof (cases rule: acquiresE)
          case (failed e b4)
          have "bv_handles (v (ub_drop U (InHandle h) b4)) = bv_handles (v b2)"
            using got failed vr by (simp add: usb_okD(15) [OF ok])
          with Inr got failed closed [of "ub_drop U (InHandle h) b4"] show ?thesis by (simp add: eqs)
        next
          case out: (got h' b4)
          have "InHandle h \<notin> H \<union> tr_handles t" "OutHandle h' \<notin> H \<union> tr_handles t"
            "bv_handles (v b4) = insert (OutHandle h') (insert (InHandle h) (H \<union> {InterfaceHandle k} \<union> tr_handles t))"
            "bv_queued (v b4) = bv_queued (v b2)"
            using got out vr t(6) by auto
          with Inr got out disj new(2) r t th show ?thesis
            by (auto simp: eqs link_open_def link_handles_def usb_okD(15,18) [OF ok])
        qed
      qed
    qed
  qed
qed

lemma device_open_view:
  assumes ok: "usb_ok U v" and clock: "usb_clock_ok U clk"
  shows "\<exists>res b'. device_open U info f b = Some (res, b')
    \<and> (case res of
         Inl e \<Rightarrow> bv_handles (v b') = bv_handles (v b)
       | Inr d \<Rightarrow> DeviceHandle (rd_device d) \<notin> bv_handles (v b)
           \<and> link_open v f (insert (DeviceHandle (rd_device d)) (bv_handles (v b))) d b')"
  using usb_okD(2) [OF ok, of b "di_id info"]
proof (cases rule: acquiresE)
  case (failed e b1)
  then show ?thesis by (simp add: device_open_def)
next
  case (got dev b1)
  obtain r2 b2 where s2: "select_configuration U dev (rf_config_value f) b1 = (r2, b2)" by fastforce
  have v2: "v b2 = v b1" using select_view(1) [OF ok, of dev "rf_config_value f" b1] s2 by simp
  note eqs = device_open_def Let_def got(1) s2
  show ?thesis
  proof (cases r2)
    case (Inl e)
    with got v2 show ?thesis by (simp add: eqs usb_okD(15) [OF ok])
  next
    case (Inr u)
    from usb_okD(6) [OF ok, of b2 dev "rf_control_interface f"] show ?thesis
    proof (cases rule: acquiresE)
      case (failed e b3)
      with Inr got v2 show ?thesis by (simp add: eqs usb_okD(15) [OF ok])
    next
      case c: (got c b3)
      from usb_okD(6) [OF ok, of b3 dev "rf_data_interface f"] show ?thesis
      proof (cases rule: acquiresE)
        case (failed e b4)
        with Inr got v2 c show ?thesis by (auto simp: eqs usb_okD(15) [OF ok])
      next
        case k: (got k b4)
        let ?H = "insert (DeviceHandle dev) (bv_handles (v b))"
        have "\<exists>res b'. open_link U f dev c k b4 = Some (res, b')
          \<and> (case res of Inl e \<Rightarrow> bv_handles (v b') = ?H | Inr d \<Rightarrow> rd_device d = dev \<and> link_open v f ?H d b')"
          using got v2 c k by (intro open_link_handles [OF ok clock]) auto
        then obtain res b' where "open_link U f dev c k b4 = Some (res, b')"
          "case res of Inl e \<Rightarrow> bv_handles (v b') = ?H | Inr d \<Rightarrow> rd_device d = dev \<and> link_open v f ?H d b'" by blast
        with Inr got v2 c k show ?thesis by (cases res) (simp_all add: eqs usb_okD(15) [OF ok])
      qed
    qed
  qed
qed

text \<open>
  C14: Opening a phone returns, whatever the device answers, and is all or nothing. On failure, at whichever
  step, every handle it opened is closed again. On success exactly the handles of the link are open
  besides what was: the device, the control interface, the interrupt endpoint if there is one, and
  the two bulk endpoints; the data interface itself is let go. The control transport addresses the
  control interface and has its two interrupt reads queued.
\<close>

theorem device_open_handles:
  assumes ok: "usb_ok U v" and clock: "usb_clock_ok U clk"
  shows "\<exists>res b'. device_open U info f b = Some (res, b')
    \<and> (case res of
         Inl e \<Rightarrow> bv_handles (v b') = bv_handles (v b)
       | Inr d \<Rightarrow> DeviceHandle (rd_device d) \<notin> bv_handles (v b)
           \<and> link_open v f (insert (DeviceHandle (rd_device d)) (bv_handles (v b))) d b')"
  by (rule device_open_view [OF assms])

subsection \<open>A bus to try it on\<close>

text \<open>
  A bus with one phone, which has an RNDIS function and never answers. Handles are numbered so that a
  new one is larger than all that are in use.
\<close>

record demo_bus =
  db_handles :: "usb_handle list"
  db_queue :: "(nat \<times> nat) list"
  db_clock :: instant

definition db_view :: "demo_bus \<Rightarrow> bus_view" where
  "db_view b = \<lparr>bv_handles = set (db_handles b),
     bv_queued = \<lambda>h. case map_of (db_queue b) h of None \<Rightarrow> 0 | Some n \<Rightarrow> n\<rparr>"

fun handle_number :: "usb_handle \<Rightarrow> nat" where
  "handle_number (DeviceHandle n) = n"
| "handle_number (InterfaceHandle n) = n"
| "handle_number (InHandle n) = n"
| "handle_number (OutHandle n) = n"

definition db_fresh :: "demo_bus \<Rightarrow> nat" where
  "db_fresh b = Suc (sum_list (map handle_number (db_handles b)) + sum_list (map fst (db_queue b)))"

definition db_acquire :: "(nat \<Rightarrow> usb_handle) \<Rightarrow> demo_bus \<Rightarrow> (usb_error + nat) \<times> demo_bus" where
  "db_acquire H b = (Inr (db_fresh b), b\<lparr>db_handles := H (db_fresh b) # db_handles b\<rparr>)"

definition demo_interfaces :: "interface_descriptor list" where
  "demo_interfaces =
     [\<lparr>if_number = 0, if_alt_setting = 0, if_class = 0xE0, if_subclass = 1, if_protocol = 3,
       if_endpoints = [\<lparr>ep_address = 0x82, ep_transfer_type = TInterrupt, ep_max_packet_size = 8\<rparr>], if_extra = []\<rparr>,
      \<lparr>if_number = 1, if_alt_setting = 0, if_class = 0x0A, if_subclass = 0, if_protocol = 0,
       if_endpoints = [\<lparr>ep_address = 0x81, ep_transfer_type = TBulk, ep_max_packet_size = 512\<rparr>,
                       \<lparr>ep_address = 0x01, ep_transfer_type = TBulk, ep_max_packet_size = 512\<rparr>], if_extra = []\<rparr>]"

definition demo_phone :: device_info where
  "demo_phone = \<lparr>di_id = DeviceId 7, di_vendor_id = 0x2717, di_product_id = 0xFF80, di_manufacturer = None, di_product = Some ''phone''\<rparr>"

definition demo_function :: rndis_function where
  "demo_function = \<lparr>rf_config_value = 1, rf_control_interface = 0, rf_data_interface = 1, rf_data_alt_setting = 0,
     rf_interrupt_in = Some 0x82, rf_bulk_in = 0x81, rf_bulk_out = 0x01, rf_bulk_max_packet_size = 512\<rparr>"

definition demo_configs :: "config_descriptor list" where
  "demo_configs = [\<lparr>cfg_value = 1, cfg_interfaces = demo_interfaces\<rparr>]"

definition demo_usb :: "demo_bus usb_backend" where
  "demo_usb =
     \<lparr>ub_list = \<lambda>b. (Inr [demo_phone], b),
      ub_open = \<lambda>i b. db_acquire DeviceHandle b,
      ud_configurations = \<lambda>d b. (Inr demo_configs, b),
      ud_active_configuration = \<lambda>d b. (Inr 1, b),
      ud_set_configuration = \<lambda>d c b. (Inr (), b),
      ud_claim_interface = \<lambda>d n b. db_acquire InterfaceHandle b,
      ui_set_alt_setting = \<lambda>i a b. (Inr (), b),
      ui_control_out = \<lambda>i c m d b. (Inr (), b),
      ui_control_in = \<lambda>i c n d b. (Inr [], b\<lparr>db_clock := db_clock b + from_millis 10\<rparr>),
      ui_open_in = \<lambda>i a ty b. db_acquire InHandle b,
      ui_open_out = \<lambda>i a ty b. db_acquire OutHandle b,
      ue_submit = \<lambda>h n b. b\<lparr>db_queue := (h, bv_queued (db_view b) h + 1) # db_queue b\<rparr>,
      ue_wait = \<lambda>h d b. (None, b),
      ub_drop = \<lambda>h b. b\<lparr>db_handles := filter (\<lambda>g. g \<noteq> h) (db_handles b)\<rparr>,
      ub_sleep = \<lambda>d b. b\<lparr>db_clock := db_clock b + d\<rparr>,
      ub_now = \<lambda>b. (db_clock b, b)\<rparr>"

lemma demo_usb_clock: "usb_clock_ok demo_usb db_clock"
  by (simp add: usb_clock_ok_def demo_usb_def from_millis_def)

lemma db_fresh_unused:
  shows "H \<in> set (db_handles b) \<Longrightarrow> handle_number H \<noteq> db_fresh b" and "map_of (db_queue b) (db_fresh b) = None"
proof -
  show "H \<in> set (db_handles b) \<Longrightarrow> handle_number H \<noteq> db_fresh b"
    using member_le_sum_list [of "handle_number H" "map handle_number (db_handles b)"] by (auto simp: db_fresh_def)
  have "x < db_fresh b" if "x \<in> fst ` set (db_queue b)" for x
    using member_le_sum_list [of x "map fst (db_queue b)"] that by (auto simp: db_fresh_def)
  then show "map_of (db_queue b) (db_fresh b) = None" by (auto simp: map_of_eq_None_iff)
qed

lemma db_acquires:
  assumes "\<And>n. handle_number (H n) = n"
  shows "acquires db_view H b (db_acquire H b)"
  using db_fresh_unused(1) [of "H (db_fresh b)" b] assms
  by (auto simp: acquires_def db_acquire_def db_view_def)

lemma demo_usb_ok: "usb_ok demo_usb db_view"
  unfolding usb_ok_def demo_usb_def
  by (intro conjI allI; simp add: db_acquires; simp add: db_view_def db_acquire_def db_fresh_unused(2) fun_eq_iff)
    (auto simp: db_view_def db_fresh_unused(2))

theorem device_open_handles_witness:
  "\<exists>res b'. device_open demo_usb demo_phone demo_function \<lparr>db_handles = [], db_queue = [], db_clock = 0\<rparr> = Some (res, b')
    \<and> (case res of Inl e \<Rightarrow> db_handles b' = []
       | Inr d \<Rightarrow> link_open db_view demo_function {DeviceHandle (rd_device d)} d b')"
proof -
  let ?b = "\<lparr>db_handles = [], db_queue = [], db_clock = 0\<rparr>"
  obtain res b' where "device_open demo_usb demo_phone demo_function ?b = Some (res, b')"
    "case res of Inl e \<Rightarrow> bv_handles (db_view b') = bv_handles (db_view ?b)
       | Inr d \<Rightarrow> DeviceHandle (rd_device d) \<notin> bv_handles (db_view ?b)
           \<and> link_open db_view demo_function (insert (DeviceHandle (rd_device d)) (bv_handles (db_view ?b))) d b'"
    using device_open_handles [OF demo_usb_ok demo_usb_clock, of demo_phone demo_function ?b] by blast
  moreover have "bv_handles (db_view ?b) = {}" by (simp add: db_view_def)
  ultimately show ?thesis by (cases res) (auto simp: db_view_def)
qed

lemma demo_find_rndis: "find_rndis demo_configs = Some (Some demo_function)"
  by code_simp

theorem device_find_first_witness:
  "\<exists>b'. device_find demo_usb \<lparr>db_handles = [], db_queue = [], db_clock = 0\<rparr>
     = Some (Inr \<lparr>sc_rndis = Some (demo_phone, demo_function), sc_idle = []\<rparr>, b') \<and> db_handles b' = []"
proof -
  let ?D = "\<lambda>i :: device_id. Some demo_configs"
  have fixed: "devices_fixed demo_usb ?D"
    by (simp add: devices_fixed_def demo_usb_def db_acquire_def)
  have "rndis_of ?D demo_phone = Some demo_function"
    by (simp add: rndis_of_def demo_find_rndis)
  then show ?thesis
    using device_find_first [OF demo_usb_ok fixed, of "\<lparr>db_handles = [], db_queue = [], db_clock = 0\<rparr>" "[demo_phone]"]
    by (auto simp: demo_usb_def [THEN arg_cong [where f = ub_list]] db_view_def Cons_eq_append_conv split: option.splits)
qed

end
