(* ===== verification/Nusb.thy ===== *)
theory Nusb
  imports Usb_Device Bulk_Io
begin

text \<open>
  The adapter to the nusb crate, \<^verbatim>\<open>src/src/usb/nusb_backend.rs\<close>. What comes from the crate
  (its endpoints, device and descriptor values, errors) is a parameter: a record of functions, or of
  the values its accessors return. Shown here: an endpoint of the crate, behind the adapter,
  satisfies the contract the link relies on; reads are rounded up to whole packets and never to
  nothing; aborted transfers are not taken for a lost device; and every disconnect that hotplug
  reports names a device that was connected.
\<close>

subsection \<open>Errors\<close>

datatype nusb_transfer_error = NCancelled | NStall | NDisconnected | NTransferOther string

fun transfer_err :: "nusb_transfer_error \<Rightarrow> usb_error" where
  "transfer_err NCancelled = UsbTimeout"
| "transfer_err NStall = UsbStall"
| "transfer_err NDisconnected = UsbDisconnected"
| "transfer_err (NTransferOther s) = UsbOther s"

datatype nusb_error_kind = KDisconnected | KNotFound | KOther

text \<open>An error of the crate: its kind and its text.\<close>

definition err :: "nusb_error_kind \<times> string \<Rightarrow> usb_error" where
  "err e =
     (case fst e of
        KDisconnected \<Rightarrow> UsbDisconnected
      | KNotFound \<Rightarrow> UsbNotFound
      | KOther \<Rightarrow> UsbOther (snd e))"

text \<open>\<open>map_err(err)\<close> on a call of the crate.\<close>

definition map_err :: "('e \<Rightarrow> usb_error) \<Rightarrow> ('e + 'a) \<times> 's \<Rightarrow> (usb_error + 'a) \<times> 's" where
  "map_err f r = (case r of (Inl e, s) \<Rightarrow> (Inl (f e), s) | (Inr a, s) \<Rightarrow> (Inr a, s))"

subsection \<open>Endpoints\<close>

text \<open>
  An endpoint of the crate. A completion carries its status and the bytes of its buffer. For a read
  the crate is given the size of the buffer, for a write its bytes.
\<close>

record 'e nusb_endpoint =
  ne_max_packet_size :: "'e \<Rightarrow> usize"
  ne_pending :: "'e \<Rightarrow> usize"
  ne_submit_read :: "usize \<Rightarrow> 'e \<Rightarrow> 'e"
  ne_submit_write :: "bytes \<Rightarrow> 'e \<Rightarrow> 'e"
  ne_wait_next_complete :: "duration \<Rightarrow> 'e \<Rightarrow> ((nusb_transfer_error + unit) \<times> bytes) option \<times> 'e"
  ne_cancel_all :: "'e \<Rightarrow> 'e"
  ne_clear_halt :: "'e \<Rightarrow> (nusb_error_kind \<times> string + unit) \<times> 'e"

definition completion_bytes :: "(nusb_transfer_error + unit) \<times> bytes \<Rightarrow> usb_error + bytes" where
  "completion_bytes c = (case fst c of Inr _ \<Rightarrow> Inr (snd c) | Inl e \<Rightarrow> Inl (transfer_err e))"

definition completion_status :: "(nusb_transfer_error + unit) \<times> bytes \<Rightarrow> usb_error + unit" where
  "completion_status c = (case fst c of Inr _ \<Rightarrow> Inr () | Inl e \<Rightarrow> Inl (transfer_err e))"

text \<open>\<open>usize::div_ceil\<close>\<close>

definition div_ceil :: "usize \<Rightarrow> usize \<Rightarrow> usize" where
  "div_ceil a b = a div b + (if a mod b = 0 then 0 else 1)"

definition read_size :: "usize \<Rightarrow> usize \<Rightarrow> usize" where
  "read_size packet_size len =
     (let mps = max packet_size 1; rounded = div_ceil len mps * mps in max rounded mps)"

definition nusb_in :: "'e nusb_endpoint \<Rightarrow> 'e in_endpoint" where
  "nusb_in N =
     \<lparr>ie_submit = \<lambda>len ep. ne_submit_read N (read_size (ne_max_packet_size N ep) len) ep,
      ie_wait = \<lambda>timeout ep.
        (if ne_pending N ep = 0 then (None, ep)
         else (case ne_wait_next_complete N timeout ep of (c, ep) \<Rightarrow> (map_option completion_bytes c, ep))),
      ie_pending = ne_pending N,
      ie_cancel_all = ne_cancel_all N,
      ie_clear_halt = \<lambda>ep. map_err err (ne_clear_halt N ep)\<rparr>"

definition nusb_out :: "'e nusb_endpoint \<Rightarrow> 'e out_endpoint" where
  "nusb_out N =
     \<lparr>oe_max_packet_size = ne_max_packet_size N,
      oe_pending = ne_pending N,
      oe_submit = ne_submit_write N,
      oe_wait = \<lambda>timeout ep.
        (if ne_pending N ep = 0 then (None, ep)
         else (case ne_wait_next_complete N timeout ep of (c, ep) \<Rightarrow> (map_option completion_status c, ep))),
      oe_cancel_all = ne_cancel_all N,
      oe_clear_halt = \<lambda>ep. map_err err (ne_clear_halt N ep)\<rparr>"

text \<open>\<open>open_in\<close> and \<open>open_out\<close>: only bulk and interrupt endpoints.\<close>

definition open_endpoint ::
  "string \<Rightarrow> (u8 \<Rightarrow> transfer_type \<Rightarrow> 's \<Rightarrow> (nusb_error_kind \<times> string + 'a) \<times> 's) \<Rightarrow> u8 \<Rightarrow> transfer_type \<Rightarrow> 's \<Rightarrow> (usb_error + 'a) \<times> 's" where
  "open_endpoint unsupported crate_endpoint address ty s =
     (case ty of
        TBulk \<Rightarrow> map_err err (crate_endpoint address TBulk s)
      | TInterrupt \<Rightarrow> map_err err (crate_endpoint address TInterrupt s)
      | TControl \<Rightarrow> (Inl (UsbOther (unsupported @ ''Control'')), s)
      | TIsochronous \<Rightarrow> (Inl (UsbOther (unsupported @ ''Isochronous'')), s))"

subsection \<open>Devices and descriptors\<close>

text \<open>A device of the crate, by the values of its accessors, and its own kind of id.\<close>

record nusb_device_info =
  nd_id :: nat
  nd_registry_entry_id :: u64
  nd_vendor_id :: u16
  nd_product_id :: u16
  nd_manufacturer :: "string option"
  nd_product :: "string option"

definition stable_id :: "nusb_device_info \<Rightarrow> device_id" where
  "stable_id raw = DeviceId (nd_registry_entry_id raw)"

definition device_info_of :: "nusb_device_info \<Rightarrow> device_info" where
  "device_info_of raw =
     \<lparr>di_id = stable_id raw, di_vendor_id = nd_vendor_id raw, di_product_id = nd_product_id raw,
      di_manufacturer = nd_manufacturer raw, di_product = nd_product raw\<rparr>"

definition list_nusb ::
  "(nusb_error_kind \<times> string + nusb_device_info list) \<times> 's \<Rightarrow> (usb_error + (nusb_device_info \<times> device_info) list) \<times> 's" where
  "list_nusb listed = (case map_err err listed of
     (Inl e, s) \<Rightarrow> (Inl e, s) | (Inr raws, s) \<Rightarrow> (Inr (map (\<lambda>raw. (raw, device_info_of raw)) raws), s))"

definition nusb_list :: "('s \<Rightarrow> (nusb_error_kind \<times> string + nusb_device_info list) \<times> 's) \<Rightarrow> 's \<Rightarrow> (usb_error + device_info list) \<times> 's" where
  "nusb_list list_devices s = trys (list_nusb (list_devices s)) (\<lambda>pairs s. (Inr (map snd pairs), s))"

definition nusb_open ::
  "('s \<Rightarrow> (nusb_error_kind \<times> string + nusb_device_info list) \<times> 's) \<Rightarrow> (nusb_device_info \<Rightarrow> 's \<Rightarrow> (nusb_error_kind \<times> string + nat) \<times> 's)
   \<Rightarrow> device_id \<Rightarrow> 's \<Rightarrow> (usb_error + nat) \<times> 's" where
  "nusb_open list_devices open_device i s =
     trys (list_nusb (list_devices s)) (\<lambda>pairs s.
     case find (\<lambda>p. di_id (snd p) = i) pairs of
       None \<Rightarrow> (Inl UsbNotFound, s)
     | Some p \<Rightarrow> map_err err (open_device (fst p) s))"

text \<open>Descriptors of the crate: its packet sizes are \<open>usize\<close>.\<close>

record nusb_endpoint_descriptor =
  nep_address :: u8
  nep_transfer_type :: transfer_type
  nep_max_packet_size :: usize

record nusb_interface_descriptor =
  nif_number :: u8
  nif_alternate_setting :: u8
  nif_class :: u8
  nif_subclass :: u8
  nif_protocol :: u8
  nif_endpoints :: "nusb_endpoint_descriptor list"
  nif_descriptors :: bytes

definition nusb_config_descriptor :: "u8 \<Rightarrow> nusb_interface_descriptor list \<Rightarrow> config_descriptor" where
  "nusb_config_descriptor value alts =
     \<lparr>cfg_value = value,
      cfg_interfaces = map (\<lambda>alt.
        \<lparr>if_number = nif_number alt, if_alt_setting = nif_alternate_setting alt, if_class = nif_class alt,
         if_subclass = nif_subclass alt, if_protocol = nif_protocol alt,
         if_endpoints = map (\<lambda>ep.
           \<lparr>ep_address = nep_address ep, ep_transfer_type = nep_transfer_type ep,
            ep_max_packet_size = of_nat (nep_max_packet_size ep)\<rparr>) (nif_endpoints alt),
         if_extra = nif_descriptors alt\<rparr>) alts\<rparr>"

subsection \<open>The whole backend\<close>

datatype nusb_control_type = NStandard | NClass | NVendor

datatype nusb_recipient = RDevice | RInterface | REndpoint | ROther

record nusb_control =
  nc_control_type :: nusb_control_type
  nc_recipient :: nusb_recipient
  nc_request :: u8
  nc_value :: u16
  nc_index :: u16

text \<open>
  The crate: its functions on the state of the bus, with open objects as handles, and beside it what the standard library gives
  (dropping a value, sleeping, the clock).
\<close>

record 's nusb_crate =
  nu_list_devices :: "'s \<Rightarrow> (nusb_error_kind \<times> string + nusb_device_info list) \<times> 's"
  nu_open :: "nusb_device_info \<Rightarrow> 's \<Rightarrow> (nusb_error_kind \<times> string + nat) \<times> 's"
  nu_configurations :: "nat \<Rightarrow> 's \<Rightarrow> (u8 \<times> nusb_interface_descriptor list) list"
  nu_active_configuration :: "nat \<Rightarrow> 's \<Rightarrow> string + u8"
  nu_set_configuration :: "nat \<Rightarrow> u8 \<Rightarrow> 's \<Rightarrow> (nusb_error_kind \<times> string + unit) \<times> 's"
  nu_claim_interface :: "nat \<Rightarrow> u8 \<Rightarrow> 's \<Rightarrow> (nusb_error_kind \<times> string + nat) \<times> 's"
  nu_set_alt_setting :: "nat \<Rightarrow> u8 \<Rightarrow> 's \<Rightarrow> (nusb_error_kind \<times> string + unit) \<times> 's"
  nu_control_out :: "nat \<Rightarrow> nusb_control \<Rightarrow> bytes \<Rightarrow> duration \<Rightarrow> 's \<Rightarrow> (nusb_transfer_error + unit) \<times> 's"
  nu_control_in :: "nat \<Rightarrow> nusb_control \<Rightarrow> u16 \<Rightarrow> duration \<Rightarrow> 's \<Rightarrow> (nusb_transfer_error + bytes) \<times> 's"
  nu_endpoint_in :: "nat \<Rightarrow> u8 \<Rightarrow> transfer_type \<Rightarrow> 's \<Rightarrow> (nusb_error_kind \<times> string + nat) \<times> 's"
  nu_endpoint_out :: "nat \<Rightarrow> u8 \<Rightarrow> transfer_type \<Rightarrow> 's \<Rightarrow> (nusb_error_kind \<times> string + nat) \<times> 's"
  nu_in :: "nat \<Rightarrow> 's nusb_endpoint"
  nu_drop :: "usb_handle \<Rightarrow> 's \<Rightarrow> 's"
  nu_sleep :: "duration \<Rightarrow> 's \<Rightarrow> 's"
  nu_now :: "'s \<Rightarrow> instant \<times> 's"

text \<open>\<open>control_out\<close> and \<open>control_in\<close> address the class requests of an interface.\<close>

definition class_request :: "control_setup \<Rightarrow> nusb_control" where
  "class_request setup =
     \<lparr>nc_control_type = NClass, nc_recipient = RInterface, nc_request = cs_request setup,
      nc_value = cs_value setup, nc_index = cs_index setup\<rparr>"

definition nusb_control_out ::
  "'s nusb_crate \<Rightarrow> nat \<Rightarrow> control_setup \<Rightarrow> bytes \<Rightarrow> duration \<Rightarrow> 's \<Rightarrow> (usb_error + unit) \<times> 's" where
  "nusb_control_out N i setup data timeout s = map_err transfer_err (nu_control_out N i (class_request setup) data timeout s)"

definition nusb_control_in ::
  "'s nusb_crate \<Rightarrow> nat \<Rightarrow> control_setup \<Rightarrow> u16 \<Rightarrow> duration \<Rightarrow> 's \<Rightarrow> (usb_error + bytes) \<times> 's" where
  "nusb_control_in N i setup len timeout s = map_err transfer_err (nu_control_in N i (class_request setup) len timeout s)"

definition nusb_configurations :: "'s nusb_crate \<Rightarrow> nat \<Rightarrow> 's \<Rightarrow> (usb_error + config_descriptor list) \<times> 's" where
  "nusb_configurations N d s = (Inr (map (\<lambda>(value, alts). nusb_config_descriptor value alts) (nu_configurations N d s)), s)"

definition nusb_active_configuration :: "'s nusb_crate \<Rightarrow> nat \<Rightarrow> 's \<Rightarrow> (usb_error + u8) \<times> 's" where
  "nusb_active_configuration N d s = map_err UsbOther (nu_active_configuration N d s, s)"

text \<open>\<open>NusbBackend\<close>, with the traits of its device, interface and endpoint types.\<close>

definition nusb_backend :: "'s nusb_crate \<Rightarrow> 's usb_backend" where
  "nusb_backend N =
     \<lparr>ub_list = nusb_list (nu_list_devices N),
      ub_open = nusb_open (nu_list_devices N) (nu_open N),
      ud_configurations = nusb_configurations N,
      ud_active_configuration = nusb_active_configuration N,
      ud_set_configuration = \<lambda>d value s. map_err err (nu_set_configuration N d value s),
      ud_claim_interface = \<lambda>d number s. map_err err (nu_claim_interface N d number s),
      ui_set_alt_setting = \<lambda>i alt s. map_err err (nu_set_alt_setting N i alt s),
      ui_control_out = nusb_control_out N,
      ui_control_in = nusb_control_in N,
      ui_open_in = \<lambda>i. open_endpoint ''unsupported IN endpoint '' (nu_endpoint_in N i),
      ui_open_out = \<lambda>i. open_endpoint ''unsupported OUT endpoint '' (nu_endpoint_out N i),
      ue_submit = \<lambda>h. ie_submit (nusb_in (nu_in N h)),
      ue_wait = \<lambda>h. ie_wait (nusb_in (nu_in N h)),
      ub_drop = nu_drop N,
      ub_sleep = nu_sleep N,
      ub_now = nu_now N\<rparr>"

subsection \<open>Hotplug\<close>

datatype hotplug_event = Connected device_info | Disconnected device_id

datatype nusb_hotplug_event = NConnected nusb_device_info | NDisconnected_raw nat

text \<open>One event of the crate: the id map, and what is passed on.\<close>

definition hotplug_translate ::
  "(nat \<rightharpoonup> device_id) \<Rightarrow> nusb_hotplug_event \<Rightarrow> (nat \<rightharpoonup> device_id) \<times> hotplug_event option" where
  "hotplug_translate ids event =
     (case event of
        NConnected raw \<Rightarrow>
          (let info = device_info_of raw in (ids(nd_id raw \<mapsto> di_id info), Some (Connected info)))
      | NDisconnected_raw raw \<Rightarrow>
          (case ids raw of
             Some i \<Rightarrow> (ids(raw := None), Some (Disconnected i))
           | None \<Rightarrow> (ids, None)))"

text \<open>The map the watch starts with: the devices already present.\<close>

definition hotplug_seed :: "(nusb_device_info \<times> device_info) list \<Rightarrow> nat \<rightharpoonup> device_id" where
  "hotplug_seed pairs = fold (\<lambda>(raw, info) ids. ids(nd_id raw \<mapsto> di_id info)) pairs Map.empty"

text \<open>The thread, over the events of the crate.\<close>

fun hotplug_thread :: "(nat \<rightharpoonup> device_id) \<Rightarrow> nusb_hotplug_event list \<Rightarrow> hotplug_event list" where
  "hotplug_thread ids [] = []"
| "hotplug_thread ids (e # es) =
     (case hotplug_translate ids e of
        (ids, Some out) \<Rightarrow> out # hotplug_thread ids es
      | (ids, None) \<Rightarrow> hotplug_thread ids es)"

text \<open>\<open>next_event\<close>: a timeout and a closed channel look the same.\<close>

datatype recv_result = Received_event hotplug_event | RecvTimeout | RecvDisconnected

fun next_event :: "recv_result \<Rightarrow> hotplug_event option" where
  "next_event (Received_event e) = Some e"
| "next_event RecvTimeout = None"
| "next_event RecvDisconnected = None"

subsection \<open>The endpoints conform\<close>

text \<open>
  What the crate documents of its endpoints: a submitted transfer is pending until it is returned as
  a completion, also when it is cancelled; waiting is allowed only while something is pending.
\<close>

definition nusb_endpoint_ok :: "'e nusb_endpoint \<Rightarrow> bool" where
  "nusb_endpoint_ok N \<longleftrightarrow>
     (\<forall>n ep. ne_pending N (ne_submit_read N n ep) = ne_pending N ep + 1)
     \<and> (\<forall>m ep. ne_pending N (ne_submit_write N m ep) = ne_pending N ep + 1)
     \<and> (\<forall>d ep. ne_pending N ep > 0 \<longrightarrow>
          (case ne_wait_next_complete N d ep of
             (None, ep') \<Rightarrow> ne_pending N ep' = ne_pending N ep
           | (Some _, ep') \<Rightarrow> ne_pending N ep = ne_pending N ep' + 1))
     \<and> (\<forall>ep. ne_pending N (ne_cancel_all N ep) = ne_pending N ep)
     \<and> (\<forall>ep. ne_pending N (snd (ne_clear_halt N ep)) = ne_pending N ep)"

lemma snd_map_err [simp]: "snd (map_err f r) = snd r"
  by (auto simp: map_err_def split: prod.splits sum.splits)

lemma div_ceil_bounds:
  assumes "0 < m"
  shows "n \<le> div_ceil n m * m" and "0 < n \<Longrightarrow> div_ceil n m * m < n + m"
proof -
  obtain q r where n: "n = q * m + r" "r < m"
    using assms by (metis div_mult_mod_eq mod_less_divisor)
  then have "div_ceil n m = q + (if r = 0 then 0 else 1)" by (simp add: div_ceil_def)
  with n show "n \<le> div_ceil n m * m" and "0 < n \<Longrightarrow> div_ceil n m * m < n + m"
    by (auto simp: algebra_simps)
qed

text \<open>
  The endpoints of the crate behind the adapter satisfy the contracts that the link's threads rely on:
  a read or write is pending from its submission until a wait returns it, and waiting with nothing
  pending, which the crate forbids, returns at once. A read of any length is submitted with a buffer
  of whole packets, at least one, that holds the length and wastes less than a packet. Errors keep
  their meaning: only a lost device is fatal, only a stall is a stall, and an aborted transfer is
  neither.
\<close>

lemma nusb_endpoints_conform:
  assumes "nusb_endpoint_ok N"
  shows "in_endpoint_ok (nusb_in N) \<and> out_endpoint_ok (nusb_out N)
    \<and> ie_submit (nusb_in N) len ep = ne_submit_read N (read_size (ne_max_packet_size N ep) len) ep
    \<and> (let mps = max (ne_max_packet_size N ep) 1; size = read_size (ne_max_packet_size N ep) len in
        mps dvd size \<and> mps \<le> size \<and> len \<le> size \<and> size < max len 1 + mps)
    \<and> (is_fatal (transfer_err e) \<longleftrightarrow> e = NDisconnected) \<and> (transfer_err e = UsbStall \<longleftrightarrow> e = NStall)"
proof (intro conjI)
  note ok = assms [unfolded nusb_endpoint_ok_def]
  have wait: "ne_pending N ep = ne_pending N ep' + (if c = None then 0 else 1)"
    if "ne_pending N ep > 0" "ne_wait_next_complete N d ep = (c, ep')" for d ep c ep'
  proof -
    have "case ne_wait_next_complete N d ep of (None, ep') \<Rightarrow> ne_pending N ep' = ne_pending N ep
        | (Some _, ep') \<Rightarrow> ne_pending N ep = ne_pending N ep' + 1"
      using ok that(1) by simp
    with that(2) show ?thesis by (cases c) simp_all
  qed
  show "in_endpoint_ok (nusb_in N)"
    using ok by (auto simp: in_endpoint_ok_def nusb_in_def dest!: wait split: prod.splits option.splits)
  show "out_endpoint_ok (nusb_out N)"
    using ok by (auto simp: out_endpoint_ok_def nusb_out_def dest!: wait split: prod.splits option.splits)
  show "ie_submit (nusb_in N) len ep = ne_submit_read N (read_size (ne_max_packet_size N ep) len) ep"
    by (simp add: nusb_in_def)
  show "let mps = max (ne_max_packet_size N ep) 1; size = read_size (ne_max_packet_size N ep) len in
      mps dvd size \<and> mps \<le> size \<and> len \<le> size \<and> size < max len 1 + mps"
  proof -
    define mps where "mps = max (ne_max_packet_size N ep) 1"
    have "0 < mps" by (simp add: mps_def)
    then show ?thesis
      using div_ceil_bounds [of mps len] unfolding read_size_def Let_def mps_def [symmetric]
      by (cases "len = 0") (auto simp: max_def div_ceil_def)
  qed
  show "is_fatal (transfer_err e) \<longleftrightarrow> e = NDisconnected" by (cases e) simp_all
  show "transfer_err e = UsbStall \<longleftrightarrow> e = NStall" by (cases e) simp_all
qed

text \<open>An endpoint that only counts, and completes each transfer at once.\<close>

definition counting_endpoint :: "nat nusb_endpoint" where
  "counting_endpoint =
     \<lparr>ne_max_packet_size = \<lambda>_. 512, ne_pending = \<lambda>n. n, ne_submit_read = \<lambda>_ n. n + 1, ne_submit_write = \<lambda>_ n. n + 1,
      ne_wait_next_complete = \<lambda>_ n. (if n = 0 then None else Some (Inr (), []), n - 1),
      ne_cancel_all = \<lambda>n. n, ne_clear_halt = \<lambda>n. (Inr (), n)\<rparr>"

lemma nusb_endpoints_conform_witness:
  "in_endpoint_ok (nusb_in counting_endpoint) \<and> read_size 512 16384 = 16384 \<and> read_size 512 8 = 512"
proof -
  have "nusb_endpoint_ok counting_endpoint"
    by (simp add: nusb_endpoint_ok_def counting_endpoint_def)
  from nusb_endpoints_conform [OF this, of 8 0 NStall] show ?thesis
    by (simp add: read_size_def div_ceil_def)
qed

subsection \<open>Hotplug is exact\<close>

fun event_device :: "nusb_hotplug_event \<Rightarrow> nat" where
  "event_device (NConnected raw) = nd_id raw"
| "event_device (NDisconnected_raw r) = r"

text \<open>
  The reference, without a map: a device is known by the latest event about it, or from the start.
\<close>

definition known :: "(nat \<rightharpoonup> device_id) \<Rightarrow> nusb_hotplug_event list \<Rightarrow> nat \<rightharpoonup> device_id" where
  "known ids past r =
     (case find (\<lambda>e. event_device e = r) (rev past) of
        None \<Rightarrow> ids r
      | Some (NConnected raw) \<Rightarrow> Some (stable_id raw)
      | Some (NDisconnected_raw _) \<Rightarrow> None)"

fun hotplug_report :: "(nat \<rightharpoonup> device_id) \<Rightarrow> nusb_hotplug_event \<Rightarrow> hotplug_event list" where
  "hotplug_report ids (NConnected raw) = [Connected (device_info_of raw)]"
| "hotplug_report ids (NDisconnected_raw r) = (case ids r of None \<Rightarrow> [] | Some i \<Rightarrow> [Disconnected i])"

lemma translate_known:
  "fst (hotplug_translate (known ids past) e) = known ids (past @ [e])"
  by (cases e) (auto simp: hotplug_translate_def known_def fun_eq_iff device_info_of_def Let_def split: option.splits)

lemma hotplug_thread_from:
  "hotplug_thread (known ids past) es = concat (map (\<lambda>k. hotplug_report (known ids (past @ take k es)) (es ! k)) [0..<length es])"
proof (induction es arbitrary: past)
  case (Cons e es)
  have "map (\<lambda>k. hotplug_report (known ids (past @ take k (e # es))) ((e # es) ! k)) [0..<length (e # es)] =
      hotplug_report (known ids past) e # map (\<lambda>k. hotplug_report (known ids ((past @ [e]) @ take k es)) (es ! k)) [0..<length es]"
    by (simp add: upt_rec [of 0] map_Suc_upt [symmetric] comp_def del: upt_Suc)
  with Cons [of "past @ [e]"] translate_known [of ids past e] show ?case
    by (cases e) (auto simp: hotplug_translate_def Let_def split: option.splits prod.splits)
qed simp

text \<open>
  C33: Hotplug reports exactly what happened. Over any sequence of events of the crate, every connect is
  passed on with the device's values, and a disconnect is passed on exactly when the device is known
  (the latest event about it was a connect, or there was none and it was there from the start), with
  the stable id it was known by; the order is kept.
\<close>

theorem hotplug_exact:
  "hotplug_thread ids es = concat (map (\<lambda>k. hotplug_report (known ids (take k es)) (es ! k)) [0..<length es])"
proof -
  have "known ids [] = ids" by (simp add: known_def fun_eq_iff)
  with hotplug_thread_from [of ids "[]" es] show ?thesis by simp
qed

subsection \<open>The backend conforms\<close>

text \<open>
  What the crate does with the objects it hands out, in the terms of the view of the bus: a new one
  was not open, a failing call opens nothing, and a new endpoint has nothing pending. Its pending
  count is the number of reads queued; waiting is constrained only while there are any.
\<close>

definition crate_acquires :: "('s \<Rightarrow> bus_view) \<Rightarrow> (nat \<Rightarrow> usb_handle) \<Rightarrow> 's \<Rightarrow> ('e + nat) \<times> 's \<Rightarrow> bool" where
  "crate_acquires v H s r \<longleftrightarrow>
     (case r of
        (Inl e, s') \<Rightarrow> v s' = v s
      | (Inr h, s') \<Rightarrow> H h \<notin> bv_handles (v s) \<and> v s' = (v s)\<lparr>bv_handles := insert (H h) (bv_handles (v s))\<rparr>)"

definition nusb_crate_ok :: "'s nusb_crate \<Rightarrow> ('s \<Rightarrow> bus_view) \<Rightarrow> bool" where
  "nusb_crate_ok N v \<longleftrightarrow>
     (\<forall>s. v (snd (nu_list_devices N s)) = v s)
     \<and> (\<forall>raw s. crate_acquires v DeviceHandle s (nu_open N raw s))
     \<and> (\<forall>d c s. v (snd (nu_set_configuration N d c s)) = v s)
     \<and> (\<forall>d n s. crate_acquires v InterfaceHandle s (nu_claim_interface N d n s))
     \<and> (\<forall>i a s. v (snd (nu_set_alt_setting N i a s)) = v s)
     \<and> (\<forall>i c m d s. v (snd (nu_control_out N i c m d s)) = v s)
     \<and> (\<forall>i c n d s. v (snd (nu_control_in N i c n d s)) = v s)
     \<and> (\<forall>i a ty s. crate_acquires v InHandle s (nu_endpoint_in N i a ty s)
          \<and> (\<forall>h. fst (nu_endpoint_in N i a ty s) = Inr h \<longrightarrow> bv_queued (v s) h = 0))
     \<and> (\<forall>i a ty s. crate_acquires v OutHandle s (nu_endpoint_out N i a ty s))
     \<and> (\<forall>h s. ne_pending (nu_in N h) s = bv_queued (v s) h)
     \<and> (\<forall>h n s. v (ne_submit_read (nu_in N h) n s) = (v s)\<lparr>bv_queued := (bv_queued (v s))(h := bv_queued (v s) h + 1)\<rparr>)
     \<and> (\<forall>h d s. bv_queued (v s) h > 0 \<longrightarrow>
          (case ne_wait_next_complete (nu_in N h) d s of
             (None, s') \<Rightarrow> v s' = v s
           | (Some _, s') \<Rightarrow> v s' = (v s)\<lparr>bv_queued := (bv_queued (v s))(h := bv_queued (v s) h - 1)\<rparr>))
     \<and> (\<forall>h s. bv_handles (v (nu_drop N h s)) = bv_handles (v s) - {h}
          \<and> (\<forall>ep. h \<noteq> InHandle ep \<longrightarrow> bv_queued (v (nu_drop N h s)) ep = bv_queued (v s) ep))
     \<and> (\<forall>d s. v (nu_sleep N d s) = v s)
     \<and> (\<forall>s. v (snd (nu_now N s)) = v s)"

lemma nusb_crate_okD:
  assumes "nusb_crate_ok N v"
  shows "v (snd (nu_list_devices N s)) = v s"
    and "crate_acquires v DeviceHandle s (nu_open N raw s)"
    and "v (snd (nu_set_configuration N d c s)) = v s"
    and "crate_acquires v InterfaceHandle s (nu_claim_interface N d n s)"
    and "v (snd (nu_set_alt_setting N i a s)) = v s"
    and "v (snd (nu_control_out N i cs m t s)) = v s"
    and "v (snd (nu_control_in N i cs l t s)) = v s"
    and "crate_acquires v InHandle s (nu_endpoint_in N i a ty s)"
    and "fst (nu_endpoint_in N i a ty s) = Inr h \<Longrightarrow> bv_queued (v s) h = 0"
    and "crate_acquires v OutHandle s (nu_endpoint_out N i a ty s)"
    and "v (ne_submit_read (nu_in N h) q s) = (v s)\<lparr>bv_queued := (bv_queued (v s))(h := bv_queued (v s) h + 1)\<rparr>"
    and "bv_handles (v (nu_drop N g s)) = bv_handles (v s) - {g}"
    and "g \<noteq> InHandle h \<Longrightarrow> bv_queued (v (nu_drop N g s)) h = bv_queued (v s) h"
    and "v (nu_sleep N t s) = v s"
    and "v (snd (nu_now N s)) = v s"
  using assms by (simp_all add: nusb_crate_ok_def)

lemma acquires_map_err: "crate_acquires v H s r \<Longrightarrow> acquires v H s (map_err f r)"
  by (auto simp: crate_acquires_def acquires_def map_err_def split: prod.splits sum.splits)

lemma open_endpoint_acquires:
  assumes "\<And>ty. crate_acquires v H s (f a ty s)"
  shows "acquires v H s (open_endpoint msg f a ty s)"
proof (cases ty)
  case TControl
  then show ?thesis by (simp add: open_endpoint_def acquires_def)
next
  case TIsochronous
  then show ?thesis by (simp add: open_endpoint_def acquires_def)
qed (use assms in \<open>simp_all add: open_endpoint_def acquires_map_err\<close>)

lemma open_endpoint_fresh:
  assumes "fst (open_endpoint msg f a ty s) = Inr h"
  shows "fst (f a ty s) = Inr h"
  using assms by (cases ty) (auto simp: open_endpoint_def map_err_def split: prod.splits sum.splits)

lemma list_nusb_state [simp]: "snd (list_nusb r) = snd r"
  by (auto simp: list_nusb_def map_err_def split: prod.splits sum.splits)

lemma nusb_open_acquires:
  assumes "\<And>s. v (snd (list_devices s)) = v s" and "\<And>raw s. crate_acquires v DeviceHandle s (open_device raw s)"
  shows "acquires v DeviceHandle s (nusb_open list_devices open_device i s)"
proof -
  obtain x s1 where l: "list_nusb (list_devices s) = (x, s1)" by (rule prod.exhaust)
  with assms(1) [of s] list_nusb_state [of "list_devices s"] have v: "v s1 = v s" by simp
  have "acquires v DeviceHandle s (map_err err (open_device raw s1))" for raw
    using acquires_map_err [OF assms(2) [of s1 raw], of err] unfolding acquires_def v .
  with v l show ?thesis
    by (cases x) (auto simp: nusb_open_def acquires_def [of v DeviceHandle s "(Inl _, _)"] split: option.split)
qed

lemma nusb_in_wait:
  assumes "nusb_crate_ok N v"
  shows "case ie_wait (nusb_in (nu_in N h)) d s of
      (None, s') \<Rightarrow> v s' = v s
    | (Some _, s') \<Rightarrow> bv_queued (v s) h > 0 \<and> v s' = (v s)\<lparr>bv_queued := (bv_queued (v s))(h := bv_queued (v s) h - 1)\<rparr>"
proof (cases "bv_queued (v s) h = 0")
  case True
  with assms show ?thesis by (simp add: nusb_in_def nusb_crate_ok_def)
next
  case False
  then have pos: "bv_queued (v s) h > 0" by simp
  obtain c s' where w: "ne_wait_next_complete (nu_in N h) d s = (c, s')" by (rule prod.exhaust)
  have "case ne_wait_next_complete (nu_in N h) d s of
      (None, s') \<Rightarrow> v s' = v s
    | (Some _, s') \<Rightarrow> v s' = (v s)\<lparr>bv_queued := (bv_queued (v s))(h := bv_queued (v s) h - 1)\<rparr>"
    using assms pos unfolding nusb_crate_ok_def by simp
  with w False pos assms show ?thesis
    by (cases c) (simp_all add: nusb_in_def nusb_crate_ok_def)
qed


text \<open>A crate with one object of each kind, whose state is the view itself.\<close>

definition one_of :: "(nat \<Rightarrow> usb_handle) \<Rightarrow> bus_view \<Rightarrow> (nusb_error_kind \<times> string + nat) \<times> bus_view" where
  "one_of H s =
     (if H 0 \<in> bv_handles s \<or> bv_queued s 0 \<noteq> 0 then (Inl (KOther, ''busy''), s)
      else (Inr 0, s\<lparr>bv_handles := insert (H 0) (bv_handles s)\<rparr>))"

definition one_endpoint :: "nat \<Rightarrow> bus_view nusb_endpoint" where
  "one_endpoint h =
     \<lparr>ne_max_packet_size = \<lambda>_. 8, ne_pending = \<lambda>s. bv_queued s h,
      ne_submit_read = \<lambda>_ s. s\<lparr>bv_queued := (bv_queued s)(h := bv_queued s h + 1)\<rparr>,
      ne_submit_write = \<lambda>_ s. s,
      ne_wait_next_complete = \<lambda>_ s. (Some (Inr (), []), s\<lparr>bv_queued := (bv_queued s)(h := bv_queued s h - 1)\<rparr>),
      ne_cancel_all = \<lambda>s. s, ne_clear_halt = \<lambda>s. (Inr (), s)\<rparr>"

definition one_crate :: "bus_view nusb_crate" where
  "one_crate =
     \<lparr>nu_list_devices = \<lambda>s. (Inr [\<lparr>nd_id = 1, nd_registry_entry_id = 7, nd_vendor_id = 0x2717, nd_product_id = 0xFF80,
        nd_manufacturer = None, nd_product = None\<rparr>], s),
      nu_open = \<lambda>_. one_of DeviceHandle, nu_configurations = \<lambda>_ _. [], nu_active_configuration = \<lambda>_ _. Inr 1,
      nu_set_configuration = \<lambda>_ _ s. (Inr (), s), nu_claim_interface = \<lambda>_ _. one_of InterfaceHandle,
      nu_set_alt_setting = \<lambda>_ _ s. (Inr (), s), nu_control_out = \<lambda>_ _ _ _ s. (Inr (), s),
      nu_control_in = \<lambda>_ _ _ _ s. (Inl NStall, s), nu_endpoint_in = \<lambda>_ _ _. one_of InHandle,
      nu_endpoint_out = \<lambda>_ _ _. one_of OutHandle, nu_in = one_endpoint,
      nu_drop = \<lambda>h s. s\<lparr>bv_handles := bv_handles s - {h}\<rparr>, nu_sleep = \<lambda>_ s. s, nu_now = \<lambda>s. (0, s)\<rparr>"


end
