(* ===== verification/Status.thy ===== *)
theory Status
  imports Tunnel
begin

text \<open>
  The status line: \<^verbatim>\<open>src/src/status.rs\<close>. The daemon keeps a \<open>Status\<close> behind a lock,
  writes it to each client as one line of tab-separated fields, and \<open>muta status\<close> splits the
  line again. Shown here: what the client prints is what the daemon holds, field by field, as long
  as no name holds a line feed; and each client of the server loop is answered with the status at
  the time of its connection.
\<close>

subsection \<open>The status and its encoding\<close>

record status =
  st_device :: "string option"
  st_link_up :: bool
  st_interface :: "string option"
  st_address :: "ipv4_addr option"
  st_gateway :: "ipv4_addr option"
  st_dns :: "ipv4_addr list"
  st_packets_in :: u64
  st_packets_out :: u64

definition status_default :: status where
  "status_default = \<lparr>st_device = None, st_link_up = False, st_interface = None, st_address = None,
     st_gateway = None, st_dns = [], st_packets_in = 0, st_packets_out = 0\<rparr>"

abbreviation TAB :: char where "TAB \<equiv> CHR 0x09"
abbreviation NEWLINE :: char where "NEWLINE \<equiv> CHR 0x0A"

definition replace_char :: "char \<Rightarrow> char \<Rightarrow> string \<Rightarrow> string" where
  "replace_char a b s = map (\<lambda>c. if c = a then b else c) s"

definition or_dash :: "string option \<Rightarrow> string" where
  "or_dash x = (case x of None \<Rightarrow> ''-'' | Some s \<Rightarrow> s)"

definition status_encode :: "status \<Rightarrow> string" where
  "status_encode st =
     (let dns = join '','' (map ip_string (st_dns st)) in
      ''state='' @ (if st_link_up st then ''connected'' else ''waiting'')
      @ TAB # ''device='' @ replace_char TAB (CHR '' '') (or_dash (st_device st))
      @ TAB # ''interface='' @ or_dash (st_interface st)
      @ TAB # ''address='' @ or_dash (map_option ip_string (st_address st))
      @ TAB # ''gateway='' @ or_dash (map_option ip_string (st_gateway st))
      @ TAB # ''dns='' @ (if dns = [] then ''-'' else dns)
      @ TAB # ''in='' @ nat_string (unat (st_packets_in st))
      @ TAB # ''out='' @ nat_string (unat (st_packets_out st)) @ [NEWLINE])"

subsection \<open>The client\<close>

text \<open>\<open>BufRead::read_line\<close>: up to and including the first line feed.\<close>

definition read_line :: "string \<Rightarrow> string" where
  "read_line s = takeWhile (\<lambda>c. c \<noteq> NEWLINE) s @ take 1 (dropWhile (\<lambda>c. c \<noteq> NEWLINE) s)"

text \<open>\<open>str::split(char)\<close> and \<open>str::split_once(char)\<close>\<close>

fun split_on :: "char \<Rightarrow> string \<Rightarrow> string list" where
  "split_on sep [] = [[]]"
| "split_on sep (c # cs) =
     (if c = sep then [] # split_on sep cs
      else (case split_on sep cs of [] \<Rightarrow> [[c]] | f # fs \<Rightarrow> (c # f) # fs))"

definition split_once :: "char \<Rightarrow> string \<Rightarrow> (string \<times> string) option" where
  "split_once sep s =
     (case dropWhile (\<lambda>c. c \<noteq> sep) s of [] \<Rightarrow> None | _ # rest \<Rightarrow> Some (takeWhile (\<lambda>c. c \<noteq> sep) s, rest))"

text \<open>\<open>println!("{key:<10} {value}")\<close> and \<open>println!("{field}")\<close>\<close>

definition print_field :: "string \<Rightarrow> string" where
  "print_field field =
     (case split_once (CHR ''='') field of
        Some (key, value) \<Rightarrow> key @ replicate (10 - length key) (CHR '' '') @ '' '' @ value
      | None \<Rightarrow> field)"

definition print_status :: "string \<Rightarrow> string list" where
  "print_status reply = map print_field (split_on TAB (trim_end reply))"

definition status_query :: "string \<Rightarrow> string list" where
  "status_query stream = print_status (read_line stream)"

subsection \<open>The server\<close>

text \<open>\<open>StatusServer::update\<close>\<close>

definition status_update :: "(status \<Rightarrow> status) \<Rightarrow> status \<Rightarrow> status" where
  "status_update f shared = f shared"

text \<open>\<open>handle\<close>: whatever the client asked, the reply is the same.\<close>

definition status_handle :: "string \<Rightarrow> status \<Rightarrow> string" where
  "status_handle line st = status_encode st"

text \<open>
  \<open>serve\<close>, turn by turn: whether shutdown was requested, what \<open>accept\<close> returned and what
  the shared status was then. The value is the replies, and whether the loop has ended. A client
  that stays connected and sends no line is waited for without a limit (the stream is blocking and
  has no timeout): no later turn takes place.
\<close>

datatype accepted = Client string | SilentClient | WouldBlock | AcceptFailed

fun serve :: "(bool \<times> accepted \<times> status) list \<Rightarrow> string list \<times> bool" where
  "serve [] = ([], False)"
| "serve ((shutdown, a, shared) # turns) =
     (if shutdown then ([], True)
      else
        (case a of
           Client line \<Rightarrow> (case serve turns of (replies, ended) \<Rightarrow> (status_handle line shared # replies, ended))
         | SilentClient \<Rightarrow> ([], False)
         | WouldBlock \<Rightarrow> serve turns
         | AcceptFailed \<Rightarrow> ([], True)))"

subsection \<open>Splitting undoes joining\<close>

lemma split_on_join_field: "sep \<notin> set f \<Longrightarrow> split_on sep (f @ sep # rest) = f # split_on sep rest"
  by (induction f) auto

lemma split_on_single: "sep \<notin> set f \<Longrightarrow> split_on sep f = [f]"
  by (induction f) auto

lemma split_once_key: "sep \<notin> set k \<Longrightarrow> split_once sep (k @ sep # v) = Some (k, v)"
  by (induction k) (auto simp: split_once_def split: list.splits)

lemma nat_string_digits: "set (nat_string n) \<subseteq> set ''0123456789''"
proof (induction n rule: nat_string.induct)
  case (1 n)
  have "''0123456789'' ! k \<in> set ''0123456789''" if "k < 10" for k
    using that by (intro nth_mem) simp
  with 1 show ?case by (subst nat_string.simps) (auto simp del: nth_Cons_numeral)
qed

lemma nat_string_not_Nil [simp]: "nat_string n \<noteq> []"
  by (subst nat_string.simps) simp

lemma ip_string_chars: "set (ip_string ip) \<subseteq> set ''.0123456789''"
  using nat_string_digits by (cases ip) fastforce

text \<open>The fields of a status, as the client is to show them.\<close>

definition status_fields :: "status \<Rightarrow> (string \<times> string) list" where
  "status_fields st =
     [(''state'', if st_link_up st then ''connected'' else ''waiting''),
      (''device'', replace_char TAB (CHR '' '') (or_dash (st_device st))),
      (''interface'', or_dash (st_interface st)),
      (''address'', or_dash (map_option ip_string (st_address st))),
      (''gateway'', or_dash (map_option ip_string (st_gateway st))),
      (''dns'', if st_dns st = [] then ''-'' else join '','' (map ip_string (st_dns st))),
      (''in'', nat_string (unat (st_packets_in st))),
      (''out'', nat_string (unat (st_packets_out st)))]"

fun field_string :: "string \<times> string \<Rightarrow> string" where
  "field_string (k, v) = k @ CHR ''='' # v"

definition clean :: "string \<Rightarrow> bool" where
  "clean s \<longleftrightarrow> TAB \<notin> set s \<and> NEWLINE \<notin> set s"

lemma clean_numbers [simp]: "clean (nat_string n)" "clean (ip_string ip)"
  using nat_string_digits [of n] ip_string_chars [of ip] by (auto simp: clean_def)

lemma not_in_join: "c \<notin> set sep \<Longrightarrow> \<forall>x\<in>set xs. c \<notin> set x \<Longrightarrow> c \<notin> set (join sep xs)"
  by (induction sep xs rule: join.induct) auto

lemma clean_join: "clean sep \<Longrightarrow> \<forall>x\<in>set xs. clean x \<Longrightarrow> clean (join sep xs)"
  by (simp add: clean_def not_in_join)

lemma join_eq_Nil: "\<forall>x\<in>set xs. x \<noteq> [] \<Longrightarrow> join sep xs = [] \<longleftrightarrow> xs = []"
  by (induction sep xs rule: join.induct) auto

lemma ip_string_not_Nil [simp]: "ip_string ip \<noteq> []"
  by (cases ip) simp

lemma status_encode_fields: "status_encode st = join [TAB] (map field_string (status_fields st)) @ [NEWLINE]"
  by (simp add: status_encode_def status_fields_def Let_def join_eq_Nil)

lemma split_on_join:
  "xs \<noteq> [] \<Longrightarrow> \<forall>x\<in>set xs. sep \<notin> set x \<Longrightarrow> split_on sep (join [sep] xs) = xs"
  by (induction "[sep]" xs rule: join.induct) (auto simp: split_on_single split_on_join_field)

lemma print_field_string: "CHR ''='' \<notin> set k \<Longrightarrow>
    print_field (field_string (k, v)) = k @ replicate (10 - length k) (CHR '' '') @ '' '' @ v"
  by (simp add: print_field_def split_once_key)

lemma clean_or_dash: "(\<And>s. x = Some s \<Longrightarrow> clean s) \<Longrightarrow> clean (or_dash x)"
  by (cases x) (auto simp: or_dash_def clean_def)

lemma clean_fields:
  assumes "NEWLINE \<notin> set (or_dash (st_device st))" and "clean (or_dash (st_interface st))"
  shows "\<forall>x\<in>set (map field_string (status_fields st)). clean x"
proof -
  have "clean (replace_char TAB (CHR '' '') (or_dash (st_device st)))"
    using assms(1) by (auto simp: clean_def replace_char_def)
  moreover have "clean (or_dash (map_option ip_string a))" for a
    by (rule clean_or_dash) auto
  moreover have "clean (join '','' (map ip_string (st_dns st)))"
    by (rule clean_join) (simp_all add: clean_def [of "'',''"])
  moreover have "clean (field_string (k, v)) \<longleftrightarrow> clean k \<and> clean v" for k v
    by (auto simp: clean_def)
  ultimately show ?thesis
    using assms(2) by (simp add: status_fields_def del: field_string.simps) (simp add: clean_def)
qed

lemma read_line_first: "NEWLINE \<notin> set s \<Longrightarrow> read_line (s @ NEWLINE # rest) = s @ [NEWLINE]"
  by (induction s) (auto simp: read_line_def)

lemma trim_end_line: "s \<noteq> [] \<Longrightarrow> \<not> is_space (last s) \<Longrightarrow> trim_end (s @ [NEWLINE]) = s"
  by (cases s rule: rev_cases) (auto simp: trim_end_def is_space_def)

lemma last_join: "xs \<noteq> [] \<Longrightarrow> last xs \<noteq> [] \<Longrightarrow> join sep xs \<noteq> [] \<and> last (join sep xs) = last (last xs)"
  by (induction sep xs rule: join.induct) auto

lemma line_end: "\<not> is_space (last (join [TAB] (map field_string (status_fields st))))"
proof -
  have "last (nat_string n) \<in> set ''0123456789''" for n
    using subsetD [OF nat_string_digits last_in_set] by simp
  moreover have "\<forall>c\<in>set ''0123456789''. \<not> is_space c" by (simp add: is_space_def)
  ultimately have "\<not> is_space (last (nat_string n))" for n by blast
  then show ?thesis
    using last_join [of "map field_string (status_fields st)" "[TAB]"] by (simp add: status_fields_def)
qed

text \<open>
  C38: \<open>muta status\<close> prints what the daemon holds. As long as the device name holds no line feed and
  the interface name neither a tab nor a line feed, the client shows exactly eight lines, one per
  field and in this order, each with its name and the value in the daemon's status (a missing value
  as a dash, tabs in the device name as spaces), whatever it asked and whatever follows the line.
\<close>

theorem status_shown:
  assumes "NEWLINE \<notin> set (or_dash (st_device st))" and "clean (or_dash (st_interface st))"
  shows "status_query (status_handle line st @ rest) =
    map (\<lambda>(k, v). k @ replicate (10 - length k) (CHR '' '') @ '' '' @ v) (status_fields st)"
proof -
  let ?fs = "map field_string (status_fields st)"
  have clean: "\<forall>x\<in>set ?fs. clean x" by (rule clean_fields [OF assms])
  have ne: "?fs \<noteq> []" "last ?fs \<noteq> []" by (simp_all add: status_fields_def)
  have "NEWLINE \<notin> set (join [TAB] ?fs)"
    using clean by (intro not_in_join) (auto simp: clean_def)
  then have "read_line (status_handle line st @ rest) = join [TAB] ?fs @ [NEWLINE]"
    by (simp add: status_handle_def status_encode_fields read_line_first)
  moreover have "trim_end (join [TAB] ?fs @ [NEWLINE]) = join [TAB] ?fs"
    using last_join [OF ne, of "[TAB]"] line_end [of st] by (intro trim_end_line) auto
  moreover have "split_on TAB (join [TAB] ?fs) = ?fs"
    using clean ne by (intro split_on_join) (auto simp: clean_def)
  ultimately have "status_query (status_handle line st @ rest) = map print_field ?fs"
    by (simp add: status_query_def print_status_def)
  also have "\<dots> = map (\<lambda>(k, v). k @ replicate (10 - length k) (CHR '' '') @ '' '' @ v) (status_fields st)"
    by (simp add: status_fields_def print_field_string del: field_string.simps)
  finally show ?thesis .
qed

theorem status_shown_witness:
  "status_query (status_handle ''status'' (status_default\<lparr>st_device := Some ''Redmi Note''\<rparr>)) =
    [''state      waiting'', ''device     Redmi Note'', ''interface  -'', ''address    -'', ''gateway    -'',
     ''dns        -'', ''in         0'', ''out        0'']"
  using status_shown [of "status_default\<lparr>st_device := Some ''Redmi Note''\<rparr>" "''status''" "[]"]
  by (simp add: status_default_def or_dash_def clean_def status_fields_def replace_char_def numeral_eq_Suc nat_string.simps)

text \<open>
  The line feed is not replaced as the tab is: a device whose descriptor holds one shows up as two
  lines, and the client, which reads one line, loses every field after the name.
\<close>

lemma status_newline_truncates:
  "status_query (status_handle ''status'' (status_default\<lparr>st_device := Some (''a'' @ [NEWLINE] @ ''b''), st_link_up := True\<rparr>))
   = [''state      connected'', ''device     a'']"
  by code_simp

text \<open>Each client gets the status of the time of its connection.\<close>

lemma serve_replies:
  "fst (serve turns) = map (\<lambda>(_, a, shared). status_encode shared)
     (filter (\<lambda>(_, a, _). \<exists>line. a = Client line)
       (takeWhile (\<lambda>(shutdown, a, _). \<not> shutdown \<and> a \<noteq> AcceptFailed \<and> a \<noteq> SilentClient) turns))"
proof (induction turns)
  case (Cons t turns)
  obtain shutdown a shared where "t = (shutdown, a, shared)" by (cases t)
  with Cons show ?case by (cases a) (simp_all add: status_handle_def split_beta)
qed simp

text \<open>
  Once a client is silent, the loop neither serves another one nor ends, also when it is asked to;
  \<open>StatusServer::drop\<close> joins this thread, so the daemon does not exit either.
\<close>

lemma serve_blocked:
  assumes "\<forall>(shutdown, a, _)\<in>set before. \<not> shutdown \<and> a \<noteq> AcceptFailed"
  shows "serve (before @ (False, SilentClient, st) # turns) = (fst (serve before), False)"
  using assms
proof (induction before)
  case (Cons t before)
  obtain shutdown a shared where "t = (shutdown, a, shared)" by (cases t)
  with Cons show ?case by (cases a) (simp_all add: split_beta)
qed simp

end
