(* ===== verification/Daemon.thy ===== *)
theory Daemon
  imports Nusb Link_Rx Status
begin

text \<open>
  The resident daemon, \<^verbatim>\<open>src/src/daemon.rs\<close>: the session loop, which holds the tunnel of one
  phone up, and the loop around it, which waits for a phone. What happens outside is given turn by
  turn: whether a signal asked to stop, what the link reported, what the clock showed, and which
  packets the receive thread delivered meanwhile. Shown here: the sink, the tunnel and the status
  agree at every turn; a session that is asked to stop ends; and however a session and the daemon
  go on, the system and the bus are left as they were found.
\<close>

subsection \<open>A session\<close>

definition KEEPALIVE_INTERVAL :: duration where "KEEPALIVE_INTERVAL = from_secs 10"
definition RETRY_DELAY :: duration where "RETRY_DELAY = from_secs 2"
definition HOTPLUG_WAIT :: duration where "HOTPLUG_WAIT = from_secs 2"

text \<open>
  What \<open>run_session\<close> keeps: the control channel with its transport and the bus, the sink (its
  consumer is the tunnel device it writes to), the tunnel, the system, the status server if there is
  one, and the time of the next keepalive.
\<close>

record ('b, 'y) daemon_session =
  ds_control :: "'b usb_control_transport rndis"
  ds_sink :: "utun switchable_sink"
  ds_tunnel :: "tunnel option"
  ds_sys :: 'y
  ds_status :: "status option"
  ds_next_keepalive :: instant

text \<open>
  One turn, as seen from outside. The packets are those the receive thread delivers while the loop
  sleeps, while the tunnel is exchanged, and after that until the counters are read.
\<close>

record turn =
  tu_requested :: bool
  tu_packets :: "bytes list"
  tu_event :: "link_event option"
  tu_exchange :: "bytes list"
  tu_after :: "bytes list"
  tu_now :: instant
  tu_now2 :: instant
  tu_sent :: u64

definition drop_tunnel :: "'y system \<Rightarrow> ('b, 'y) daemon_session \<Rightarrow> ('b, 'y) daemon_session" where
  "drop_tunnel S s =
     s\<lparr>ds_tunnel := None, ds_sys := release_slot (tunnel_drop S) (ds_tunnel s) (ds_sys s)\<rparr>"

definition update_status :: "(status \<Rightarrow> status) \<Rightarrow> ('b, 'y) daemon_session \<Rightarrow> ('b, 'y) daemon_session" where
  "update_status f s = s\<lparr>ds_status := map_option (status_update f) (ds_status s)\<rparr>"

text \<open>The receive thread delivers packets; the consumer is the device, whose contents are not part of the session.\<close>

definition deliver_all :: "bytes list \<Rightarrow> ('b, 'y) daemon_session \<Rightarrow> ('b, 'y) daemon_session" where
  "deliver_all packets s = s\<lparr>ds_sink := fold (sink_deliver (\<lambda>packet ut. ut)) packets (ds_sink s)\<rparr>"

text \<open>\<open>Some\<close> is a \<open>break\<close> with its value.\<close>

definition session_bound ::
  "'y system \<Rightarrow> bytes list \<Rightarrow> lease \<Rightarrow> ('b, 'y) daemon_session \<Rightarrow> (string + unit) option \<times> ('b, 'y) daemon_session" where
  "session_bound S packets l s =
     (if (case ds_tunnel s of None \<Rightarrow> False | Some t \<Rightarrow> le_ip (tn_lease t) = le_ip l) then (None, s)
      else
        (let s = deliver_all packets (drop_tunnel S (s\<lparr>ds_sink := sink_detach (ds_sink s)\<rparr>)) in
         case tunnel_up S l (ds_sys s) of
           (Inl e, y) \<Rightarrow> (Some (Inl (sys_error_string e)), s\<lparr>ds_sys := y\<rparr>)
         | (Inr t, y) \<Rightarrow>
             (None, update_status (\<lambda>st. st\<lparr>st_link_up := True, st_interface := Some (ut_name (tn_utun t)),
                       st_address := Some (le_ip (tn_lease t)), st_gateway := le_router (tn_lease t),
                       st_dns := le_dns (tn_lease t)\<rparr>)
                     (s\<lparr>ds_sys := y, ds_sink := sink_attach (tn_utun t) (ds_sink s), ds_tunnel := Some t\<rparr>))))"

definition session_event ::
  "'y system \<Rightarrow> bytes list \<Rightarrow> link_event option \<Rightarrow> ('b, 'y) daemon_session \<Rightarrow> (string + unit) option \<times> ('b, 'y) daemon_session" where
  "session_event S packets event s =
     (case event of
        Some (LinkBound l) \<Rightarrow> session_bound S packets l s
      | Some (LinkFailed e) \<Rightarrow> (Some (Inl (''link failed: '' @ e)), s)
      | None \<Rightarrow> (None, s))"

definition session_keepalive ::
  "'b usb_backend \<Rightarrow> turn \<Rightarrow> ('b, 'y) daemon_session \<Rightarrow> ((string + unit) option \<times> ('b, 'y) daemon_session) option" where
  "session_keepalive U tu s =
     (if ds_next_keepalive s \<le> tu_now tu then
        (let s = s\<lparr>ds_next_keepalive := tu_now2 tu + KEEPALIVE_INTERVAL\<rparr> in
         case keepalive (usb_transport U) (ds_control s) of
           None \<Rightarrow> None
         | Some (Inl e, c) \<Rightarrow> Some (Some (Inl (''keepalive failed: '' @ rndis_error_string e)), s\<lparr>ds_control := c\<rparr>)
         | Some (Inr _, c) \<Rightarrow>
             Some (None, update_status (\<lambda>st. st\<lparr>st_packets_in := sk_delivered (ds_sink s), st_packets_out := tu_sent tu\<rparr>)
                           (s\<lparr>ds_control := c\<rparr>)))
      else Some (None, s))"

text \<open>
  One turn of the loop. \<open>None\<close> is not returning.
\<close>

definition session_turn ::
  "'b usb_backend \<Rightarrow> 'y system \<Rightarrow> turn \<Rightarrow> ('b, 'y) daemon_session \<Rightarrow> ((string + unit) option \<times> ('b, 'y) daemon_session) option" where
  "session_turn U S tu s =
     (if tu_requested tu then Some (Some (Inr ()), s)
      else
        (case session_event S (tu_exchange tu) (tu_event tu) (deliver_all (tu_packets tu) s) of
           (Some r, s) \<Rightarrow> Some (Some r, s)
         | (None, s) \<Rightarrow> session_keepalive U tu (deliver_all (tu_after tu) s)))"

fun session_loop ::
  "'b usb_backend \<Rightarrow> 'y system \<Rightarrow> turn list \<Rightarrow> ('b, 'y) daemon_session \<Rightarrow> ((string + unit) option \<times> ('b, 'y) daemon_session) option" where
  "session_loop U S [] s = Some (None, s)"
| "session_loop U S (tu # turns) s =
     (case session_turn U S tu s of
        None \<Rightarrow> None
      | Some (Some r, s) \<Rightarrow> Some (Some r, s)
      | Some (None, s) \<Rightarrow> session_loop U S turns s)"

text \<open>
  The end of a session: no more deliveries, the tunnel down, HALT to the device, the link's threads
  joined (they own the bulk endpoints); then what is left of the device is dropped.
\<close>

definition session_end ::
  "'b usb_backend \<Rightarrow> 'y system \<Rightarrow> 'b rndis_device \<Rightarrow> ('b, 'y) daemon_session \<Rightarrow> ('b, 'y) daemon_session \<times> 'b" where
  "session_end U S d s =
     (let s = drop_tunnel S (s\<lparr>ds_sink := sink_detach (ds_sink s)\<rparr>);
          t = rn_transport (snd (halt (usb_transport U) (ds_control s)));
          b = ub_drop U (InHandle (rd_bulk_in d)) (ub_drop U (OutHandle (rd_bulk_out d)) (tr_bus t))
      in (s, ub_drop U (DeviceHandle (rd_device d)) (tr_drop U (t\<lparr>tr_bus := b\<rparr>))))"

definition session_start :: "'b rndis_device \<Rightarrow> instant \<Rightarrow> status option \<Rightarrow> 'y \<Rightarrow> ('b, 'y) daemon_session" where
  "session_start d now st y =
     \<lparr>ds_control = rd_control d, ds_sink = sink_new, ds_tunnel = None, ds_sys = y, ds_status = st,
      ds_next_keepalive = now + KEEPALIVE_INTERVAL\<rparr>"

text \<open>The result of a session that has ended, with the status, the system and the bus; \<open>None\<close> while it runs.\<close>

definition run_session ::
  "'b usb_backend \<Rightarrow> 'y system \<Rightarrow> device_info \<Rightarrow> rndis_function \<Rightarrow> instant \<Rightarrow> turn list \<Rightarrow> status option \<Rightarrow> 'y \<Rightarrow> 'b
   \<Rightarrow> ((string + unit) option \<times> status option \<times> 'y \<times> 'b) option" where
  "run_session U S info f now turns st y b =
     (case device_open U info f b of
        None \<Rightarrow> None
      | Some (Inl e, b) \<Rightarrow> Some (Some (Inl e), st, y, b)
      | Some (Inr d, b) \<Rightarrow>
          (case session_loop U S turns (session_start d now st y) of
             None \<Rightarrow> None
           | Some (None, s) \<Rightarrow> Some (None, ds_status s, ds_sys s, tr_bus (rn_transport (ds_control s)))
           | Some (Some r, s) \<Rightarrow>
               (case session_end U S d s of (s, b) \<Rightarrow> Some (Some r, ds_status s, ds_sys s, b))))"

subsection \<open>The daemon\<close>

text \<open>The labels to print, and the new list of reported ones.\<close>

definition report_idle :: "string list \<Rightarrow> string list \<Rightarrow> string list \<times> string list" where
  "report_idle seen reported = (if reported = seen then ([], reported) else (seen, seen))"

text \<open>A pause between two scans: a sleep, or a wait for hotplug with its limit and its outcome.\<close>

datatype pause = Slept duration | Awaited duration recv_result

text \<open>\<open>wait_for_attach\<close>: the event itself is not used.\<close>

definition wait_for_attach :: "bool \<Rightarrow> recv_result \<Rightarrow> pause" where
  "wait_for_attach watch hotplug = (if watch then Awaited HOTPLUG_WAIT hotplug else Slept HOTPLUG_WAIT)"

text \<open>
  One turn of the loop of \<open>run\<close>, as seen from outside: the time and the turns of the session it may
  start, whether a stop was requested when that session had ended, and what the hotplug channel had.
\<close>

record round =
  ro_now :: instant
  ro_turns :: "turn list"
  ro_requested :: bool
  ro_hotplug :: recv_result

record ('b, 'y) daemon =
  dm_watch :: bool
  dm_pauses :: "pause list"
  dm_status :: "status option"
  dm_reported :: "string list"
  dm_printed :: "string list"
  dm_sys :: 'y
  dm_bus :: 'b

text \<open>The boolean says that the turn is over: a session may still run.\<close>

definition daemon_turn ::
  "'b usb_backend \<Rightarrow> 'y system \<Rightarrow> round \<Rightarrow> ('b, 'y) daemon \<Rightarrow> (bool \<times> ('b, 'y) daemon) option" where
  "daemon_turn U S inp dm =
     (case device_find U (dm_bus dm) of
        None \<Rightarrow> None
      | Some (Inl e, b) \<Rightarrow> Some (True, dm\<lparr>dm_bus := b, dm_pauses := dm_pauses dm @ [Slept RETRY_DELAY]\<rparr>)
      | Some (Inr scan, b) \<Rightarrow>
          (case sc_rndis scan of
             Some (info, f) \<Rightarrow>
               (let st = map_option (status_update (\<lambda>st. st\<lparr>st_device := Some (label info)\<rparr>)) (dm_status dm) in
                case run_session U S info f (ro_now inp) (ro_turns inp) st (dm_sys dm) b of
                  None \<Rightarrow> None
                | Some (None, st, y, b) \<Rightarrow> Some (False, dm\<lparr>dm_reported := [], dm_status := st, dm_sys := y, dm_bus := b\<rparr>)
                | Some (Some r, st, y, b) \<Rightarrow>
                    Some (True, dm\<lparr>dm_reported := [], dm_status := map_option (status_update (\<lambda>_. status_default)) st,
                                   dm_sys := y, dm_bus := b,
                                   dm_pauses := dm_pauses dm @ (if ro_requested inp then [] else [Slept RETRY_DELAY])\<rparr>))
           | None \<Rightarrow>
               (case report_idle (sc_idle scan) (dm_reported dm) of
                  (printed, reported) \<Rightarrow>
                    Some (True, dm\<lparr>dm_bus := b, dm_reported := reported, dm_printed := dm_printed dm @ printed,
                                   dm_pauses := dm_pauses dm @ [wait_for_attach (dm_watch dm) (ro_hotplug inp)]\<rparr>))))"

fun daemon_run ::
  "'b usb_backend \<Rightarrow> 'y system \<Rightarrow> round list \<Rightarrow> ('b, 'y) daemon \<Rightarrow> (bool \<times> ('b, 'y) daemon) option" where
  "daemon_run U S [] dm = Some (True, dm)"
| "daemon_run U S (inp # inps) dm =
     (case daemon_turn U S inp dm of
        None \<Rightarrow> None
      | Some (False, dm) \<Rightarrow> Some (False, dm)
      | Some (True, dm) \<Rightarrow> daemon_run U S inps dm)"

subsection \<open>What agrees at every turn\<close>

text \<open>
  The state of a session, in terms of the view \<open>w\<close> of the system before it and of the
  transport \<open>t0\<close> and the view \<open>wb\<close> of the bus it started with: packets go to the
  device of the tunnel and only while there is one; taking the tunnel down leads back to \<open>w\<close>;
  the control channel is where it was.
\<close>

definition session_inv ::
  "'y system \<Rightarrow> ('y \<Rightarrow> sys_view) \<Rightarrow> sys_view \<Rightarrow> ('b \<Rightarrow> bus_view) \<Rightarrow> bus_view \<Rightarrow> 'b usb_control_transport
   \<Rightarrow> ('b, 'y) daemon_session \<Rightarrow> bool" where
  "session_inv S v w vb wb t0 s \<longleftrightarrow>
     sk_inner (ds_sink s) = map_option tn_utun (ds_tunnel s)
     \<and> v (release_slot (tunnel_drop S) (ds_tunnel s) (ds_sys s)) = w
     \<and> vb (tr_bus (rn_transport (ds_control s))) = wb
     \<and> tr_interface (rn_transport (ds_control s)) = tr_interface t0
     \<and> tr_interface_number (rn_transport (ds_control s)) = tr_interface_number t0
     \<and> tr_notify (rn_transport (ds_control s)) = tr_notify t0"

text \<open>What the status says of the tunnel.\<close>

definition status_agrees :: "tunnel option \<Rightarrow> status \<Rightarrow> bool" where
  "status_agrees t st \<longleftrightarrow>
     (st_link_up st \<longleftrightarrow> t \<noteq> None)
     \<and> st_interface st = map_option (\<lambda>t. ut_name (tn_utun t)) t
     \<and> st_address st = map_option (\<lambda>t. le_ip (tn_lease t)) t
     \<and> st_gateway st = (case t of None \<Rightarrow> None | Some t \<Rightarrow> le_router (tn_lease t))
     \<and> st_dns st = (case t of None \<Rightarrow> [] | Some t \<Rightarrow> le_dns (tn_lease t))"

definition session_status_ok :: "('b, 'y) daemon_session \<Rightarrow> bool" where
  "session_status_ok s \<longleftrightarrow> pred_option (status_agrees (ds_tunnel s)) (ds_status s)"

text \<open>The leases of the turns name networks that are not routed already, and the keys are free.\<close>

definition turns_ok :: "sys_view \<Rightarrow> turn list \<Rightarrow> bool" where
  "turns_ok w turns \<longleftrightarrow> keys_free w \<and> (\<forall>tu\<in>set turns. \<forall>l. tu_event tu = Some (LinkBound l) \<longrightarrow> lease_free l w)"

lemma deliver_keeps_consumer: "sk_inner (fold (sink_deliver (\<lambda>p ut. ut)) ps k) = sk_inner k"
  by (induction ps arbitrary: k) (auto simp: sink_deliver_def split: option.splits)

lemma deliver_all_fields [simp]:
  "ds_tunnel (deliver_all ps s) = ds_tunnel s" "ds_sys (deliver_all ps s) = ds_sys s" "ds_control (deliver_all ps s) = ds_control s"
  "ds_status (deliver_all ps s) = ds_status s" "ds_next_keepalive (deliver_all ps s) = ds_next_keepalive s"
  "sk_inner (ds_sink (deliver_all ps s)) = sk_inner (ds_sink s)"
  by (simp_all add: deliver_all_def deliver_keeps_consumer)

lemma deliver_all_inv [simp]:
  "session_inv S v w vb wb t0 (deliver_all ps s) = session_inv S v w vb wb t0 s"
  "session_status_ok (deliver_all ps s) = session_status_ok s"
  by (cases "ds_tunnel s"; simp add: session_inv_def session_status_ok_def)+

lemma update_status_inv [simp]: "session_inv S v w vb wb t0 (update_status f s) = session_inv S v w vb wb t0 s"
  by (cases "ds_tunnel s") (simp_all add: session_inv_def update_status_def)

lemma update_status_ok:
  assumes "session_status_ok s" and "\<And>st. status_agrees (ds_tunnel s) st \<Longrightarrow> status_agrees (ds_tunnel s) (f st)"
  shows "session_status_ok (update_status f s)"
  using assms by (cases "ds_status s") (simp_all add: session_status_ok_def update_status_def status_update_def)

lemma drop_tunnel_fields [simp]:
  "ds_tunnel (drop_tunnel S s) = None" "ds_sink (drop_tunnel S s) = ds_sink s" "ds_control (drop_tunnel S s) = ds_control s"
  "ds_status (drop_tunnel S s) = ds_status s"
  by (simp_all add: drop_tunnel_def)

lemma drop_tunnel_inv:
  assumes "session_inv S v w vb wb t0 s"
  shows "session_inv S v w vb wb t0 (drop_tunnel S (s\<lparr>ds_sink := sink_detach (ds_sink s)\<rparr>))"
    and "v (ds_sys (drop_tunnel S (s\<lparr>ds_sink := sink_detach (ds_sink s)\<rparr>))) = w"
  using assms by (auto simp: session_inv_def drop_tunnel_def sink_detach_def split: option.splits)

lemma session_bound_inv:
  assumes ok: "system_ok S v" and inv: "session_inv S v w vb wb t0 s" and st: "session_status_ok s"
    and new: "lease_free l w"
    and r: "session_bound S ps l s = (r, s')"
  shows "session_inv S v w vb wb t0 s' \<and> (r = None \<longrightarrow> session_status_ok s')"
proof (cases "case ds_tunnel s of None \<Rightarrow> False | Some t \<Rightarrow> le_ip (tn_lease t) = le_ip l")
  case True
  with inv st r show ?thesis by (simp add: session_bound_def)
next
  case False
  let ?s = "deliver_all ps (drop_tunnel S (s\<lparr>ds_sink := sink_detach (ds_sink s)\<rparr>))"
  note down = drop_tunnel_inv [OF inv]
  obtain x y where x: "tunnel_up S l (ds_sys ?s) = (x, y)" by fastforce
  have up: "v (release_slot (tunnel_drop S) (case x of Inl e \<Rightarrow> None | Inr t \<Rightarrow> Some t) y) = w"
    using inv x by (intro tunnel_resource.replace_restores [OF ok _ new, of "ds_tunnel s" "ds_sys s"])
      (simp_all add: session_inv_def drop_tunnel_def)
  show ?thesis
  proof (cases x)
    case (Inl e)
    with False x up r down show ?thesis
      by (auto simp: session_bound_def Let_def session_inv_def)
  next
    case (Inr t)
    with up have t: "v (tunnel_drop S t y) = w" by simp
    show ?thesis
      using False x Inr r down(1) t st
      by (auto simp: session_bound_def Let_def session_inv_def update_status_def status_update_def sink_attach_def
          session_status_ok_def status_agrees_def pred_option_def)
  qed
qed

lemma session_keepalive_inv:
  assumes ub: "usb_ok U vb" and clock: "usb_clock_ok U clk" and inv: "session_inv S v w vb wb t0 s"
    and queued: "\<And>ep. tr_notify t0 = Some ep \<Longrightarrow> bv_queued wb ep = NOTIFY_DEPTH"
  obtains r s' where "session_keepalive U tu s = Some (r, s')" "session_inv S v w vb wb t0 s'"
    "session_status_ok s \<Longrightarrow> session_status_ok s'"
proof (cases "ds_next_keepalive s \<le> tu_now tu")
  case False
  with inv that show thesis by (simp add: session_keepalive_def)
next
  case True
  obtain x c where k: "keepalive (usb_transport U) (ds_control s) = Some (x, c)"
    using rndis_ops_return(4) [OF usb_transport_clock [OF clock], of "ds_control s"] by fastforce
  have "tr_interface (rn_transport c) = tr_interface t0 \<and> tr_interface_number (rn_transport c) = tr_interface_number t0
      \<and> tr_notify (rn_transport c) = tr_notify t0"
    using inv by (intro tr_fixed.keeps_requests(4) [OF _ k]) (simp add: session_inv_def)
  moreover have "vb (tr_bus (rn_transport c)) = wb
      \<and> (\<forall>ep. tr_notify (rn_transport c) = Some ep \<longrightarrow> bv_queued wb ep = NOTIFY_DEPTH)"
    by (rule transport_invariant.keeps_requests(4) [OF tr_view_invariant [OF ub] _ k])
      (use inv queued in \<open>auto simp: session_inv_def\<close>)
  ultimately have c: "session_inv S v w vb wb t0 (s\<lparr>ds_next_keepalive := n, ds_control := c\<rparr>)" for n
    using inv by (cases "ds_tunnel s") (simp_all add: session_inv_def)
  show thesis
  proof (cases x)
    case (Inl e)
    with True k c show thesis
      by (intro that [of "Some (Inl (''keepalive failed: '' @ rndis_error_string e))"
            "s\<lparr>ds_next_keepalive := tu_now2 tu + KEEPALIVE_INTERVAL, ds_control := c\<rparr>"])
        (auto simp: session_keepalive_def Let_def session_status_ok_def)
  next
    case (Inr u)
    let ?s = "s\<lparr>ds_next_keepalive := tu_now2 tu + KEEPALIVE_INTERVAL, ds_control := c\<rparr>"
    let ?f = "\<lambda>st. st\<lparr>st_packets_in := sk_delivered (ds_sink s), st_packets_out := tu_sent tu\<rparr>"
    have "session_status_ok (update_status ?f ?s)" if "session_status_ok s"
      using that by (intro update_status_ok) (simp_all add: session_status_ok_def status_agrees_def)
    with Inr True k c show thesis
      by (intro that [of None "update_status ?f ?s"]) (simp_all add: session_keepalive_def Let_def)
  qed
qed

lemma session_turn_inv:
  assumes ok: "system_ok S v" and ub: "usb_ok U vb" and clock: "usb_clock_ok U clk"
    and inv: "session_inv S v w vb wb t0 s" and st: "session_status_ok s" and tu: "turns_ok w (tu # turns)"
    and queued: "\<And>ep. tr_notify t0 = Some ep \<Longrightarrow> bv_queued wb ep = NOTIFY_DEPTH"
  obtains r s' where "session_turn U S tu s = Some (r, s')" "session_inv S v w vb wb t0 s'"
    "r = None \<Longrightarrow> session_status_ok s'" "tu_requested tu \<Longrightarrow> r \<noteq> None"
proof (cases "tu_requested tu")
  case True
  with inv that show thesis by (simp add: session_turn_def)
next
  case False
  let ?s = "deliver_all (tu_packets tu) s"
  have s1: "session_inv S v w vb wb t0 ?s" "session_status_ok ?s" using inv st by simp_all
  obtain x s2 where e: "session_event S (tu_exchange tu) (tu_event tu) ?s = (x, s2)" by fastforce
  have s2: "session_inv S v w vb wb t0 s2 \<and> (x = None \<longrightarrow> session_status_ok s2)"
  proof (cases "tu_event tu")
    case None
    with e s1 show ?thesis by (simp add: session_event_def)
  next
    case (Some ev)
    then show ?thesis
    proof (cases ev)
      case (LinkBound l)
      with Some tu e session_bound_inv [OF ok s1, of l "tu_exchange tu" x s2] show ?thesis by (auto simp: session_event_def turns_ok_def)
    next
      case (LinkFailed m)
      with Some e s1 show ?thesis by (auto simp: session_event_def)
    qed
  qed
  show thesis
  proof (cases x)
    case (Some r)
    with False e s2 show thesis by (intro that [of "Some r" s2]) (simp_all add: session_turn_def)
  next
    case None
    have s2': "session_inv S v w vb wb t0 (deliver_all (tu_after tu) s2)" "session_status_ok (deliver_all (tu_after tu) s2)"
      using s2 None by simp_all
    obtain r s3 where "session_keepalive U tu (deliver_all (tu_after tu) s2) = Some (r, s3)"
      "session_inv S v w vb wb t0 s3" "session_status_ok s3"
      using session_keepalive_inv [OF ub clock s2'(1) queued, of tu] s2'(2) by metis
    with False e None show thesis by (intro that) (simp_all add: session_turn_def)
  qed
qed

lemma session_loop_inv:
  assumes ok: "system_ok S v" and ub: "usb_ok U vb" and clock: "usb_clock_ok U clk"
    and queued: "\<And>ep. tr_notify t0 = Some ep \<Longrightarrow> bv_queued wb ep = NOTIFY_DEPTH"
  shows "session_inv S v w vb wb t0 s \<Longrightarrow> session_status_ok s \<Longrightarrow> turns_ok w turns \<Longrightarrow>
    \<exists>r s'. session_loop U S turns s = Some (r, s') \<and> session_inv S v w vb wb t0 s'
      \<and> (r = None \<longrightarrow> session_status_ok s') \<and> ((\<exists>tu\<in>set turns. tu_requested tu) \<longrightarrow> r \<noteq> None)"
proof (induction turns arbitrary: s)
  case (Cons tu turns)
  have rest: "turns_ok w turns" using Cons.prems(3) by (simp add: turns_ok_def)
  obtain r s1 where turn: "session_turn U S tu s = Some (r, s1)" "session_inv S v w vb wb t0 s1"
    "r = None \<Longrightarrow> session_status_ok s1" "tu_requested tu \<Longrightarrow> r \<noteq> None"
    using session_turn_inv [OF ok ub clock Cons.prems queued] by metis
  show ?case
  proof (cases r)
    case None
    with turn Cons.IH [of s1] rest show ?thesis by auto
  next
    case (Some x)
    with turn show ?thesis by simp
  qed
qed auto


subsection \<open>What is left behind\<close>

lemma session_end_view:
  assumes ok: "usb_ok U vb" and inv: "session_inv S v w vb (vb b1) (rn_transport (rd_control d)) s"
    and link: "link_open vb f (insert (DeviceHandle (rd_device d)) H) d b1" and "DeviceHandle (rd_device d) \<notin> H"
    and e: "session_end U S d s = (s', b')"
  shows "v (ds_sys s') = w" and "bv_handles (vb b') = H"
proof -
  let ?s = "drop_tunnel S (s\<lparr>ds_sink := sink_detach (ds_sink s)\<rparr>)" and ?t0 = "rn_transport (rd_control d)"
  define t where "t = rn_transport (snd (halt (usb_transport U) (ds_control ?s)))"
  have "tr_interface t = tr_interface ?t0 \<and> tr_interface_number t = tr_interface_number ?t0 \<and> tr_notify t = tr_notify ?t0"
    unfolding t_def by (rule tr_fixed.keeps_halt) (use inv in \<open>simp add: session_inv_def\<close>)
  moreover have "vb (tr_bus t) = vb b1 \<and> (\<forall>ep. tr_notify t = Some ep \<longrightarrow> bv_queued (vb b1) ep = NOTIFY_DEPTH)"
    unfolding t_def by (rule transport_invariant.keeps_halt [OF tr_view_invariant [OF ok]])
      (use inv link in \<open>auto simp: session_inv_def link_open_def\<close>)
  ultimately have t: "tr_handles t = tr_handles ?t0" "vb (tr_bus t) = vb b1" by (simp_all add: tr_handles_def)
  show "v (ds_sys s') = w" using drop_tunnel_inv(2) [OF inv] e by (simp add: session_end_def Let_def)
  have "b' = ub_drop U (DeviceHandle (rd_device d)) (tr_drop U (t\<lparr>tr_bus :=
      ub_drop U (InHandle (rd_bulk_in d)) (ub_drop U (OutHandle (rd_bulk_out d)) (tr_bus t))\<rparr>))"
    using e by (auto simp: session_end_def Let_def t_def)
  then show "bv_handles (vb b') = H"
    using link assms(4) t by (auto simp: usb_okD(15) [OF ok] tr_drop_handles [OF ok] link_open_def link_handles_def)
qed

lemma run_session_restores:
  assumes ok: "system_ok S v" and ub: "usb_ok U vb" and clock: "usb_clock_ok U clk"
    and turns: "turns_ok (v y) turns" and st: "pred_option (status_agrees None) st"
  obtains r st' y' b' where "run_session U S info f now turns st y b = Some (r, st', y', b')"
    "r \<noteq> None \<Longrightarrow> v y' = v y \<and> bv_handles (vb b') = bv_handles (vb b)"
    "\<exists>tu\<in>set turns. tu_requested tu \<Longrightarrow> r \<noteq> None"
proof -
  obtain res b1 where o: "device_open U info f b = Some (res, b1)"
    and open_view: "case res of Inl e \<Rightarrow> bv_handles (vb b1) = bv_handles (vb b)
      | Inr d \<Rightarrow> DeviceHandle (rd_device d) \<notin> bv_handles (vb b)
          \<and> link_open vb f (insert (DeviceHandle (rd_device d)) (bv_handles (vb b))) d b1"
    using device_open_view [OF ub clock, of info f b] by blast
  show thesis
  proof (cases res)
    case (Inl e)
    with o open_view that show thesis by (simp add: run_session_def)
  next
    case (Inr d)
    with open_view have link: "link_open vb f (insert (DeviceHandle (rd_device d)) (bv_handles (vb b))) d b1"
      and new: "DeviceHandle (rd_device d) \<notin> bv_handles (vb b)" by simp_all
    let ?t = "rn_transport (rd_control d)" and ?s = "session_start d now st y"
    have "session_inv S v (v y) vb (vb b1) ?t ?s" "session_status_ok ?s"
      and queued: "\<And>ep. tr_notify ?t = Some ep \<Longrightarrow> bv_queued (vb b1) ep = NOTIFY_DEPTH"
      using link st by (simp_all add: session_inv_def session_start_def session_status_ok_def sink_new_def link_open_def)
    then obtain r s where loop: "session_loop U S turns ?s = Some (r, s)" and inv: "session_inv S v (v y) vb (vb b1) ?t s"
      and stop: "(\<exists>tu\<in>set turns. tu_requested tu) \<longrightarrow> r \<noteq> None"
      using session_loop_inv [OF ok ub clock queued _ _ turns] by blast
    obtain s' b' where e: "session_end U S d s = (s', b')" by fastforce
    note view = session_end_view [OF ub inv link new e]
    show thesis
    proof (cases r)
      case None
      with o Inr loop stop show thesis
        by (intro that [of None "ds_status s" "ds_sys s" "tr_bus (rn_transport (ds_control s))"]) (auto simp: run_session_def)
    next
      case (Some x)
      with o Inr loop e view show thesis
        by (intro that [of r "ds_status s'" "ds_sys s'" b']) (auto simp: run_session_def)
    qed
  qed
qed

lemma find_loop_handles:
  assumes ok: "usb_ok U vb"
  shows "\<exists>scan b'. find_loop U infos idle b = Some (scan, b') \<and> bv_handles (vb b') = bv_handles (vb b)"
proof (induction infos arbitrary: idle b)
  case (Cons info infos)
  from usb_okD(2) [OF ok, of b "di_id info"] show ?case
  proof (cases rule: acquiresE)
    case (failed e b1)
    with Cons [of idle b1] show ?thesis by simp
  next
    case (got h b1)
    obtain c b2 where c: "ud_configurations U h b1 = (c, b2)" by fastforce
    have "vb b2 = vb b1" using usb_okD(3) [OF ok, of h b1] c by simp
    with got have dropped: "bv_handles (vb (ub_drop U (DeviceHandle h) b2)) = bv_handles (vb b)"
      by (simp add: usb_okD(15) [OF ok])
    obtain r where "\<And>configs. c = Inr configs \<Longrightarrow> find_rndis configs = Some r"
      using find_rndis_no_panic by (cases c) auto
    with got c dropped Cons [of _ "ub_drop U (DeviceHandle h) b2"] show ?thesis
      by (cases c; cases r) auto
  qed
qed auto

lemma scan_view:
  assumes "usb_ok U vb"
  obtains scan b' where "device_find U b = Some (scan, b')" "bv_handles (vb b') = bv_handles (vb b)"
proof -
  obtain r b1 where l: "ub_list U b = (r, b1)" by fastforce
  have "vb b1 = vb b" using usb_okD(1) [OF assms, of b] l by simp
  show thesis
  proof (cases r)
    case (Inl e)
    with l \<open>vb b1 = vb b\<close> show thesis
      by (intro that [of "Inl ''listing USB devices''" b1]) (simp_all add: device_find_def)
  next
    case (Inr infos)
    obtain scan b' where "find_loop U infos [] b1 = Some (scan, b')" "bv_handles (vb b') = bv_handles (vb b1)"
      using find_loop_handles [OF assms] by blast
    with l Inr \<open>vb b1 = vb b\<close> show thesis by (intro that [of "Inr scan" b']) (simp_all add: device_find_def)
  qed
qed

text \<open>One turn of the daemon.\<close>

lemma daemon_turn_restores:
  assumes ok: "system_ok S v" and ub: "usb_ok U vb" and clock: "usb_clock_ok U clk"
    and turns: "turns_ok (v (dm_sys dm)) (ro_turns inp)" and st: "dm_status dm \<in> {None, Some status_default}"
  obtains idle dm' where "daemon_turn U S inp dm = Some (idle, dm')"
    "idle \<Longrightarrow> v (dm_sys dm') = v (dm_sys dm) \<and> bv_handles (vb (dm_bus dm')) = bv_handles (vb (dm_bus dm))
        \<and> dm_status dm' \<in> {None, Some status_default}"
    "\<exists>tu\<in>set (ro_turns inp). tu_requested tu \<Longrightarrow> idle"
proof -
  obtain r b where find: "device_find U (dm_bus dm) = Some (r, b)" and b: "bv_handles (vb b) = bv_handles (vb (dm_bus dm))"
    using scan_view [OF ub] by blast
  show thesis
  proof (cases "\<exists>scan info f. r = Inr scan \<and> sc_rndis scan = Some (info, f)")
    case False
    define dm' where "dm' = (case r of Inl e \<Rightarrow> dm\<lparr>dm_bus := b, dm_pauses := dm_pauses dm @ [Slept RETRY_DELAY]\<rparr> | Inr scan \<Rightarrow>
        dm\<lparr>dm_bus := b, dm_reported := snd (report_idle (sc_idle scan) (dm_reported dm)),
           dm_printed := dm_printed dm @ fst (report_idle (sc_idle scan) (dm_reported dm)),
           dm_pauses := dm_pauses dm @ [wait_for_attach (dm_watch dm) (ro_hotplug inp)]\<rparr>)"
    have "daemon_turn U S inp dm = Some (True, dm')"
      using find False by (auto simp: daemon_turn_def dm'_def split: sum.splits option.splits prod.splits)
    moreover have "dm_sys dm' = dm_sys dm" "dm_bus dm' = b" "dm_status dm' = dm_status dm"
      by (simp_all add: dm'_def split: sum.split)
    ultimately show thesis using b st by (intro that [of True dm']) simp_all
  next
    case True
    then obtain scan info f where scan: "r = Inr scan" "sc_rndis scan = Some (info, f)" by blast
    let ?st = "map_option (status_update (\<lambda>st. st\<lparr>st_device := Some (label info)\<rparr>)) (dm_status dm)"
    have "pred_option (status_agrees None) ?st"
      using st by (auto simp: status_agrees_def status_default_def status_update_def)
    then obtain x st' y' b' where "run_session U S info f (ro_now inp) (ro_turns inp) ?st (dm_sys dm) b = Some (x, st', y', b')"
      "x \<noteq> None \<Longrightarrow> v y' = v (dm_sys dm) \<and> bv_handles (vb b') = bv_handles (vb b)"
      "\<exists>tu\<in>set (ro_turns inp). tu_requested tu \<Longrightarrow> x \<noteq> None"
      using run_session_restores [OF ok ub clock turns] by metis
    with find scan b that show thesis
      by (cases x; cases st') (auto simp: daemon_turn_def Let_def status_update_def)
  qed
qed

text \<open>
  Between two scans there is a pause, except when a stop was requested. A wait for hotplug is only as
  long as the channel makes it: once its thread is gone it returns at once, and scans follow each
  other without a rest.
\<close>

lemma daemon_turn_pauses:
  assumes "daemon_turn U S inp dm = Some (True, dm')"
  shows "(ro_requested inp \<and> dm_pauses dm' = dm_pauses dm)
    \<or> (\<exists>p\<in>{Slept (from_secs 2), Awaited (from_secs 2) (ro_hotplug inp)}. dm_pauses dm' = dm_pauses dm @ [p])"
  using assms by (auto simp: daemon_turn_def Let_def wait_for_attach_def RETRY_DELAY_def HOTPLUG_WAIT_def
      split: option.splits prod.splits sum.splits if_splits)

text \<open>
  The daemon leaves no trace. Over any number of turns, with any sequence of phones found, sessions held,
  leases, failures and signals, no turn hangs or panics; and whenever no session is running, the
  open descriptors, the routes and the published keys of the system are those from before the
  daemon, so are the open handles of the bus, and the status is the initial one. If each session is
  asked to stop at some time, none is running at the end.
\<close>

lemma daemon_run_restores:
  assumes "system_ok S v" and "usb_ok U vb" and "usb_clock_ok U clk"
    and "\<forall>inp\<in>set inps. turns_ok (v (dm_sys dm)) (ro_turns inp)" and "dm_status dm \<in> {None, Some status_default}"
  shows "\<exists>idle dm'. daemon_run U S inps dm = Some (idle, dm')
    \<and> (idle \<longrightarrow> v (dm_sys dm') = v (dm_sys dm) \<and> bv_handles (vb (dm_bus dm')) = bv_handles (vb (dm_bus dm))
        \<and> dm_status dm' \<in> {None, Some status_default})
    \<and> ((\<forall>inp\<in>set inps. \<exists>tu\<in>set (ro_turns inp). tu_requested tu) \<longrightarrow> idle)"
  using assms(4,5)
proof (induction inps arbitrary: dm)
  case (Cons inp inps)
  have "turns_ok (v (dm_sys dm)) (ro_turns inp)" using Cons.prems(1) by simp
  then obtain idle dm1 where turn: "daemon_turn U S inp dm = Some (idle, dm1)"
    "idle \<Longrightarrow> v (dm_sys dm1) = v (dm_sys dm) \<and> bv_handles (vb (dm_bus dm1)) = bv_handles (vb (dm_bus dm))
        \<and> dm_status dm1 \<in> {None, Some status_default}"
    "\<exists>tu\<in>set (ro_turns inp). tu_requested tu \<Longrightarrow> idle"
    using daemon_turn_restores [OF assms(1-3) _ Cons.prems(2)] by metis
  show ?case
  proof (cases idle)
    case True
    with turn Cons.prems(1) have "\<forall>inp\<in>set inps. turns_ok (v (dm_sys dm1)) (ro_turns inp)"
      "dm_status dm1 \<in> {None, Some status_default}" by simp_all
    from Cons.IH [OF this] obtain idle' dm' where "daemon_run U S inps dm1 = Some (idle', dm')"
      "idle' \<longrightarrow> v (dm_sys dm') = v (dm_sys dm1) \<and> bv_handles (vb (dm_bus dm')) = bv_handles (vb (dm_bus dm1))
        \<and> dm_status dm' \<in> {None, Some status_default}"
      "(\<forall>inp\<in>set inps. \<exists>tu\<in>set (ro_turns inp). tu_requested tu) \<longrightarrow> idle'" by blast
    with True turn show ?thesis by (intro exI [of _ idle'] exI [of _ dm']) simp
  next
    case False
    with turn show ?thesis by (intro exI [of _ False]) auto
  qed
qed auto

text \<open>A link on the bus of the examples, and a turn that binds the example lease.\<close>

definition demo_link_bus :: demo_bus where
  "demo_link_bus = \<lparr>db_handles = [DeviceHandle 0, InterfaceHandle 1, InHandle 2, OutHandle 3], db_queue = [], db_clock = 0\<rparr>"

definition demo_device :: "demo_bus rndis_device" where
  "demo_device = \<lparr>rd_session = \<lparr>se_host_mac = [2, 0, 0, 0, 0, 1], se_device_max_transfer_size = 16384,
       se_max_packets_per_transfer = 1, se_packet_alignment = 1\<rparr>,
     rd_control = rndis_new \<lparr>tr_interface = 1, tr_interface_number = 0, tr_notify = None, tr_bus = demo_link_bus\<rparr>,
     rd_bulk_in = 2, rd_bulk_out = 3, rd_device = 0\<rparr>"

definition demo_turn :: turn where
  "demo_turn = \<lparr>tu_requested = False, tu_packets = [], tu_event = Some (LinkBound demo_lease),
     tu_exchange = [], tu_after = [], tu_now = 0, tu_now2 = 0, tu_sent = 0\<rparr>"

lemma demo_turns_ok: "turns_ok demo_view [demo_turn]"
proof -
  have "lease_destination demo_lease \<notin> fst ` sv_routes demo_view"
    unfolding demo_destination by (simp add: demo_view_def)
  moreover have "keys_free demo_view" by (simp add: keys_free_def demo_view_def)
  ultimately show ?thesis by (simp add: turns_ok_def demo_turn_def lease_free_def)
qed


end
