(* ===== verification/Session_Threads.thy ===== *)
theory Session_Threads
  imports Link_Threads Daemon
begin

text \<open>
  A session of the daemon and the threads of its link together: the loop of \<open>run_session\<close> in
  \<^verbatim>\<open>src/src/daemon.rs\<close>, action by action, interleaved with the receive thread, the transmit thread and the
  reader of the tunnel, which run on through every one of its actions. The theory \<^verbatim>\<open>Daemon\<close> takes
  a session turn by turn, with what the threads did meanwhile as an input. Shown here: whatever the
  interleaving, the session is one of those, with the events the link reported and the packets it
  received as inputs; the consumer of packets and the reader are those of the tunnel; what a tunnel
  device was written is what the phone sent while it was attached; and the end of a session leaves the
  system as it was.
\<close>

subsection \<open>The sink with its devices\<close>

text \<open>A consumer is a device with what was written to it. The session sees the device only.\<close>

definition device_deliver :: "bytes \<Rightarrow> utun \<times> bytes list \<Rightarrow> utun \<times> bytes list" where
  "device_deliver packet k = (fst k, utun_sink_deliver packet (snd k))"

definition sink_view :: "(utun \<times> bytes list) switchable_sink \<Rightarrow> utun switchable_sink" where
  "sink_view k = \<lparr>sk_inner = map_option fst (sk_inner k), sk_delivered = sk_delivered k, sk_bytes_in = sk_bytes_in k,
     sk_dropped = sk_dropped k\<rparr>"

lemma sink_view_simps [simp]:
  "sink_view sink_new = sink_new" "sink_view (sink_attach k s) = sink_attach (fst k) (sink_view s)"
  "sink_view (sink_detach s) = sink_detach (sink_view s)" "sk_delivered (sink_view s) = sk_delivered s"
  "sk_inner (sink_view s) = map_option fst (sk_inner s)"
  "sink_view (sink_deliver device_deliver p s) = sink_deliver (\<lambda>p u. u) p (sink_view s)"
  by (cases "sk_inner s"; simp add: sink_view_def sink_new_def sink_attach_def sink_detach_def sink_deliver_def device_deliver_def)+

subsection \<open>The session among the threads\<close>

text \<open>
  Where the daemon is: at the head of its loop; after the sleep; with a lease to act on, in front of
  the detach, of the drop of the old tunnel, of \<open>Tunnel::up\<close> and of the attach; in front of the keepalive, of the two
  counters; and, once the loop has ended, in front of the detach, of the drop, of the HALT and of the shutdown of the link.
  \<open>Tunnel::up\<close>, the drop of a tunnel and a keepalive are one step each, as is the attach with the
  assignments after it: of what the threads share these touch only the reader and the sink.
\<close>

datatype daemon_pc =
    AtTop | AtEvent
  | AtBound lease | AtDetached lease | AtDropped lease | AtUp tunnel
  | AtKeepalive | AtCounters | AtStatus u64
  | AtBreak "string + unit" | AtStopped "string + unit" | AtDown "string + unit" | AtHalted "string + unit"

text \<open>The sink is in the state that the threads share.\<close>

record ('b, 'y, 'e, 'w) whole =
  wh_pc :: daemon_pc
  wh_session :: "('b, 'y) daemon_session"
  wh_link :: "(utun \<times> bytes list, 'e, 'w) link"

definition session_now :: "('b, 'y, 'e, 'w) whole \<Rightarrow> ('b, 'y) daemon_session" where
  "session_now w = (wh_session w)\<lparr>ds_sink := sink_view (rx_sink (lk_shared (wh_link w)))\<rparr>"

definition renews :: "lease \<Rightarrow> ('b, 'y) daemon_session \<Rightarrow> bool" where
  "renews l s \<longleftrightarrow> (case ds_tunnel s of None \<Rightarrow> False | Some t \<Rightarrow> le_ip (tn_lease t) = le_ip l)"

text \<open>What \<open>Tunnel::up\<close> gives to the reader it spawns.\<close>

definition reader_of :: "lease \<Rightarrow> (ipv4_addr \<times> bytes) option" where
  "reader_of l =
     (case le_router l of
        None \<Rightarrow> None
      | Some gateway \<Rightarrow> Some (gateway, reader_buffer (case le_mtu l of Some m \<Rightarrow> m | None \<Rightarrow> DEFAULT_MTU)))"

definition lg_took :: "link_event \<Rightarrow> 'k link_log \<Rightarrow> 'k link_log" where
  "lg_took e lg = lg\<lparr>lg_taken := lg_taken lg @ [e]\<rparr>"

definition lg_sink :: "'k link_in \<Rightarrow> 'k link_log \<Rightarrow> 'k link_log" where
  "lg_sink i lg = lg\<lparr>lg_in := lg_in lg @ [i]\<rparr>"

inductive daemon_step ::
  "'b usb_backend \<Rightarrow> 'y system \<Rightarrow> ('b, 'y, 'e, 'w) whole \<Rightarrow> (utun \<times> bytes list) link_log
   \<Rightarrow> ('b, 'y, 'e, 'w) whole \<Rightarrow> (utun \<times> bytes list) link_log \<Rightarrow> bool" for U S w lg where
  stop_requested: "wh_pc w = AtTop \<Longrightarrow> daemon_step U S w lg (w\<lparr>wh_pc := AtBreak (Inr ())\<rparr>) lg"
| sleeps: "wh_pc w = AtTop \<Longrightarrow> daemon_step U S w lg (w\<lparr>wh_pc := AtEvent\<rparr>) lg"
| no_event: "wh_pc w = AtEvent \<Longrightarrow> daemon_take (wh_link w) = (None, k) \<Longrightarrow>
    daemon_step U S w lg (w\<lparr>wh_pc := AtKeepalive, wh_link := k\<rparr>) lg"
| lease_renewed: "wh_pc w = AtEvent \<Longrightarrow> daemon_take (wh_link w) = (Some (LinkBound l), k) \<Longrightarrow> renews l (wh_session w) \<Longrightarrow>
    daemon_step U S w lg (w\<lparr>wh_pc := AtKeepalive, wh_link := k\<rparr>) (lg_took (LinkBound l) lg)"
| lease_new: "wh_pc w = AtEvent \<Longrightarrow> daemon_take (wh_link w) = (Some (LinkBound l), k) \<Longrightarrow> \<not> renews l (wh_session w) \<Longrightarrow>
    daemon_step U S w lg (w\<lparr>wh_pc := AtBound l, wh_link := k\<rparr>) (lg_took (LinkBound l) lg)"
| link_failed: "wh_pc w = AtEvent \<Longrightarrow> daemon_take (wh_link w) = (Some (LinkFailed m), k) \<Longrightarrow>
    daemon_step U S w lg (w\<lparr>wh_pc := AtBreak (Inl (''link failed: '' @ m)), wh_link := k\<rparr>) (lg_took (LinkFailed m) lg)"
| detaches: "wh_pc w = AtBound l \<Longrightarrow>
    daemon_step U S w lg (w\<lparr>wh_pc := AtDetached l, wh_link := daemon_detach (wh_link w)\<rparr>) (lg_sink Detached lg)"
| drops_tunnel: "wh_pc w = AtDetached l \<Longrightarrow>
    daemon_step U S w lg (w\<lparr>wh_pc := AtDropped l, wh_session := drop_tunnel S (wh_session w),
                            wh_link := (wh_link w)\<lparr>lk_reader := None\<rparr>\<rparr>) lg"
| tunnel_comes_up: "wh_pc w = AtDropped l \<Longrightarrow> tunnel_up S l (ds_sys (wh_session w)) = (Inr t, y) \<Longrightarrow>
    daemon_step U S w lg (w\<lparr>wh_pc := AtUp t, wh_session := (wh_session w)\<lparr>ds_sys := y\<rparr>,
                            wh_link := (wh_link w)\<lparr>lk_reader := reader_of l\<rparr>\<rparr>) lg"
| tunnel_fails: "wh_pc w = AtDropped l \<Longrightarrow> tunnel_up S l (ds_sys (wh_session w)) = (Inl e, y) \<Longrightarrow>
    daemon_step U S w lg (w\<lparr>wh_pc := AtBreak (Inl (sys_error_string e)), wh_session := (wh_session w)\<lparr>ds_sys := y\<rparr>\<rparr>) lg"
| attaches: "wh_pc w = AtUp t \<Longrightarrow>
    daemon_step U S w lg
      (w\<lparr>wh_pc := AtKeepalive,
         wh_session := update_status (\<lambda>st. st\<lparr>st_link_up := True, st_interface := Some (ut_name (tn_utun t)),
                           st_address := Some (le_ip (tn_lease t)), st_gateway := le_router (tn_lease t),
                           st_dns := le_dns (tn_lease t)\<rparr>) ((wh_session w)\<lparr>ds_tunnel := Some t\<rparr>),
         wh_link := daemon_attach (tn_utun t, []) (wh_link w)\<rparr>)
      (lg_sink (Attached (tn_utun t, [])) lg)"
| not_due: "wh_pc w = AtKeepalive \<Longrightarrow> now < ds_next_keepalive (wh_session w) \<Longrightarrow>
    daemon_step U S w lg (w\<lparr>wh_pc := AtTop\<rparr>) lg"
| keeps_alive: "wh_pc w = AtKeepalive \<Longrightarrow> ds_next_keepalive (wh_session w) \<le> now \<Longrightarrow>
    keepalive (usb_transport U) (ds_control (wh_session w)) = Some (Inr u, c) \<Longrightarrow>
    daemon_step U S w lg (w\<lparr>wh_pc := AtCounters,
      wh_session := (wh_session w)\<lparr>ds_next_keepalive := now2 + KEEPALIVE_INTERVAL, ds_control := c\<rparr>\<rparr>) lg"
| keepalive_fails: "wh_pc w = AtKeepalive \<Longrightarrow> ds_next_keepalive (wh_session w) \<le> now \<Longrightarrow>
    keepalive (usb_transport U) (ds_control (wh_session w)) = Some (Inl e, c) \<Longrightarrow>
    daemon_step U S w lg (w\<lparr>wh_pc := AtBreak (Inl (''keepalive failed: '' @ rndis_error_string e)),
      wh_session := (wh_session w)\<lparr>ds_next_keepalive := now2 + KEEPALIVE_INTERVAL, ds_control := c\<rparr>\<rparr>) lg"
| loads_delivered: "wh_pc w = AtCounters \<Longrightarrow>
    daemon_step U S w lg (w\<lparr>wh_pc := AtStatus (sk_delivered (rx_sink (lk_shared (wh_link w))))\<rparr>) lg"
| reports: "wh_pc w = AtStatus delivered \<Longrightarrow>
    daemon_step U S w lg
      (w\<lparr>wh_pc := AtTop,
         wh_session := update_status (\<lambda>st. st\<lparr>st_packets_in := delivered, st_packets_out := tx_sent (lk_tx (wh_link w))\<rparr>)
           (wh_session w)\<rparr>) lg"
| stops_delivery: "wh_pc w = AtBreak r \<Longrightarrow>
    daemon_step U S w lg (w\<lparr>wh_pc := AtStopped r, wh_link := daemon_detach (wh_link w)\<rparr>) (lg_sink Detached lg)"
| takes_down: "wh_pc w = AtStopped r \<Longrightarrow>
    daemon_step U S w lg (w\<lparr>wh_pc := AtDown r, wh_session := drop_tunnel S (wh_session w),
                            wh_link := (wh_link w)\<lparr>lk_reader := None\<rparr>\<rparr>) lg"
| halts: "wh_pc w = AtDown r \<Longrightarrow>
    daemon_step U S w lg (w\<lparr>wh_pc := AtHalted r,
      wh_session := (wh_session w)\<lparr>ds_control := snd (halt (usb_transport U) (ds_control (wh_session w)))\<rparr>\<rparr>) lg"

inductive session_run ::
  "mac_addr \<Rightarrow> (nat \<Rightarrow> instant) \<Rightarrow> 'e in_endpoint \<Rightarrow> usize \<Rightarrow> 'w tx_env \<Rightarrow> tx_limits \<Rightarrow> 'w \<Rightarrow> 'b usb_backend \<Rightarrow> 'y system
   \<Rightarrow> ('b, 'y) daemon_session \<Rightarrow> ('b, 'y, 'e, 'w) whole \<Rightarrow> (utun \<times> bytes list) link_log \<Rightarrow> bool"
  for h clk E n V L w0 U S s0 where
  begins: "ie_pending E ep = 0 \<Longrightarrow> k = link_start (link_context h device_deliver clk) E n ep V L w0 \<Longrightarrow>
    session_run h clk E n V L w0 U S s0 \<lparr>wh_pc = AtTop, wh_session = s0, wh_link = k\<rparr> (link_log_new k)"
| thread_steps: "session_run h clk E n V L w0 U S s0 w lg \<Longrightarrow> link_step h device_deliver clk E n V (wh_link w) lg k lg' \<Longrightarrow>
    session_run h clk E n V L w0 U S s0 (w\<lparr>wh_link := k\<rparr>) lg'"
| daemon_steps: "session_run h clk E n V L w0 U S s0 w lg \<Longrightarrow> daemon_step U S w lg w' lg' \<Longrightarrow>
    session_run h clk E n V L w0 U S s0 w' lg'"

subsection \<open>The link of a session\<close>

lemma daemon_take_None: "daemon_take s = (None, k) \<Longrightarrow> k = s"
  by (cases "rx_events (lk_shared s)") (auto simp: daemon_take_def lk_put_def)

lemma link_run_reader: "link_run h deliver clk E n V L w0 s lg \<Longrightarrow> link_run h deliver clk E n V L w0 (s\<lparr>lk_reader := reader_of l\<rparr>) lg"
  by (auto simp: reader_of_def split: option.split intro: reader_starts reader_stops)

lemma link_run_daemon_step:
  assumes "daemon_step U S w lg w' lg'" and "link_run h device_deliver clk E n V L w0 (wh_link w) lg"
  shows "link_run h device_deliver clk E n V L w0 (wh_link w') lg'"
  using assms(1)
  by cases (auto simp: lg_took_def lg_sink_def dest: daemon_take_None
      intro: assms(2) daemon_takes [OF assms(2)] daemon_attaches [OF assms(2)] daemon_detaches [OF assms(2)]
        reader_stops [OF assms(2)] link_run_reader [OF assms(2)])

text \<open>All that holds of the threads with any daemon holds with this one.\<close>

lemma session_link_run:
  "session_run h clk E n V L w0 U S s0 w lg \<Longrightarrow> link_run h device_deliver clk E n V L w0 (wh_link w) lg"
proof (induction rule: session_run.induct)
  case (begins ep k)
  then show ?case by (simp add: starts)
next
  case (thread_steps w lg k lg')
  then show ?case by (simp add: threads)
next
  case (daemon_steps w lg w' lg')
  from link_run_daemon_step [OF daemon_steps(2,3)] show ?case .
qed

subsection \<open>What the threads do to the session\<close>

text \<open>The packets for the tunnel among what the link received.\<close>

fun packet_in :: "mac_addr \<Rightarrow> 'k link_in \<Rightarrow> bytes option" where
  "packet_in h (link_in.Received f) = to_tunnel h f"
| "packet_in h _ = None"

abbreviation packets_in :: "mac_addr \<Rightarrow> 'k link_in list \<Rightarrow> bytes list" where
  "packets_in h ins \<equiv> List.map_filter (packet_in h) ins"

lemma rx_wait_step_sink: "rx_wait_step E n th = Some (th', pc) \<Longrightarrow> rx_sink (th_rx th') = rx_sink (th_rx th)"
  by (auto simp: rx_wait_step_def rx_fail_def Let_def split: prod.splits option.splits sum.splits if_splits)

lemma map_filter_snoc: "List.map_filter f (xs @ [x]) = List.map_filter f xs @ (case f x of None \<Rightarrow> [] | Some y \<Rightarrow> [y])"
  by (simp add: List.map_filter_def split: option.split)

lemma deliver_all_append: "deliver_all (ps @ qs) s = deliver_all qs (deliver_all ps s)" "deliver_all [] s = s"
  by (simp_all add: deliver_all_def)

lemma link_step_session:
  assumes "link_step h device_deliver clk E n V (wh_link w) lg k lg'"
  obtains ps fs where "session_now (w\<lparr>wh_link := k\<rparr>) = deliver_all ps (session_now w)"
    "lg_in lg' = lg_in lg @ map link_in.Received fs" "packets_in h (lg_in lg') = packets_in h (lg_in lg) @ ps" "lg_taken lg' = lg_taken lg"
    "map_option fst (lk_reader k) = map_option fst (lk_reader (wh_link w))"
  using assms
proof cases
  case (rx_waits th pc)
  with rx_wait_step_sink [OF rx_waits(4)] show ?thesis
    by (intro that [of "[]" "[]"]) (simp_all add: session_now_def log_rx_def deliver_all_append(2))
next
  case (rx_frame f items st)
  have "rx_sink st = (case to_tunnel h f of None \<Rightarrow> rx_sink (lk_shared (wh_link w))
      | Some p \<Rightarrow> sink_deliver device_deliver p (rx_sink (lk_shared (wh_link w))))"
    using handle_frame_sink [OF rx_frame(4)] by (simp cong: option.case_cong)
  with rx_frame show ?thesis
    by (intro that [of "case to_tunnel h f of None \<Rightarrow> [] | Some p \<Rightarrow> [p]" "[f]"])
      (auto simp: session_now_def deliver_all_def log_rx_def map_filter_snoc split: option.split)
qed (auto simp: session_now_def log_rx_def deliver_all_append(2) intro: that [of "[]" "[]"])

subsection \<open>Every interleaving is a sequence of turns\<close>

abbreviation turn_events :: "turn list \<Rightarrow> link_event list" where
  "turn_events turns \<equiv> List.map_filter tu_event turns"

abbreviation turn_packets :: "turn list \<Rightarrow> bytes list" where
  "turn_packets turns \<equiv> concat (map (\<lambda>tu. tu_packets tu @ tu_exchange tu @ tu_after tu) turns)"

definition detached :: "('b, 'y) daemon_session \<Rightarrow> ('b, 'y) daemon_session" where
  "detached s = s\<lparr>ds_sink := sink_detach (ds_sink s)\<rparr>"

text \<open>
  The daemon is in the turn that follows \<open>turns\<close>, in which it took the events \<open>es\<close> and the threads
  received the packets \<open>ps\<close>. Once the loop has ended nothing but the consumer of the sink matters.
\<close>

inductive turn_at ::
  "'b usb_backend \<Rightarrow> 'y system \<Rightarrow> (('b, 'y) daemon_session \<Rightarrow> bool) \<Rightarrow> (string + unit \<Rightarrow> ('b, 'y) daemon_session \<Rightarrow> bool)
   \<Rightarrow> daemon_pc \<Rightarrow> link_event list \<Rightarrow> bytes list \<Rightarrow> ('b, 'y) daemon_session \<Rightarrow> bool" for U S going ended where
  at_top: "going x \<Longrightarrow> turn_at U S going ended AtTop [] ps (deliver_all ps x)"
| at_event: "going x \<Longrightarrow> turn_at U S going ended AtEvent [] ps (deliver_all ps x)"
| at_bound: "going x \<Longrightarrow> \<not> renews l x \<Longrightarrow> turn_at U S going ended (AtBound l) [LinkBound l] ps (deliver_all ps x)"
| at_detached: "going x \<Longrightarrow> \<not> renews l x \<Longrightarrow>
    turn_at U S going ended (AtDetached l) [LinkBound l] (a @ b) (deliver_all b (detached (deliver_all a x)))"
| at_dropped: "going x \<Longrightarrow> \<not> renews l x \<Longrightarrow>
    turn_at U S going ended (AtDropped l) [LinkBound l] (a @ b) (deliver_all b (drop_tunnel S (detached (deliver_all a x))))"
| at_up: "going x \<Longrightarrow> \<not> renews l x \<Longrightarrow> tunnel_up S l (ds_sys (drop_tunnel S x)) = (Inr t, y) \<Longrightarrow>
    turn_at U S going ended (AtUp t) [LinkBound l] (a @ b)
      ((deliver_all b (drop_tunnel S (detached (deliver_all a x))))\<lparr>ds_sys := y\<rparr>)"
| at_keepalive: "going x \<Longrightarrow> session_event S b ev (deliver_all a x) = (None, z) \<Longrightarrow>
    turn_at U S going ended AtKeepalive (case ev of None \<Rightarrow> [] | Some e \<Rightarrow> [e]) (a @ b @ c) (deliver_all c z)"
| at_counters: "going x \<Longrightarrow> session_event S b ev (deliver_all a x) = (None, z) \<Longrightarrow> ds_next_keepalive z \<le> now \<Longrightarrow>
    keepalive (usb_transport U) (ds_control z) = Some (Inr (), ctl) \<Longrightarrow>
    turn_at U S going ended AtCounters (case ev of None \<Rightarrow> [] | Some e \<Rightarrow> [e]) (a @ b @ c)
      (deliver_all c (z\<lparr>ds_next_keepalive := now2 + KEEPALIVE_INTERVAL, ds_control := ctl\<rparr>))"
| at_status: "going x \<Longrightarrow> session_event S b ev (deliver_all a x) = (None, z) \<Longrightarrow> ds_next_keepalive z \<le> now \<Longrightarrow>
    keepalive (usb_transport U) (ds_control z) = Some (Inr (), ctl) \<Longrightarrow>
    turn_at U S going ended (AtStatus (sk_delivered (ds_sink (deliver_all c z)))) (case ev of None \<Rightarrow> [] | Some e \<Rightarrow> [e]) (a @ b @ c @ d)
      (deliver_all d (deliver_all c (z\<lparr>ds_next_keepalive := now2 + KEEPALIVE_INTERVAL, ds_control := ctl\<rparr>)))"
| at_break: "ended r x \<Longrightarrow> sk_inner k = sk_inner (ds_sink x) \<Longrightarrow> turn_at U S going ended (AtBreak r) [] ps (x\<lparr>ds_sink := k\<rparr>)"
| at_stopped: "ended r x \<Longrightarrow> sk_inner k = None \<Longrightarrow> turn_at U S going ended (AtStopped r) [] ps (x\<lparr>ds_sink := k\<rparr>)"
| at_down: "ended r x \<Longrightarrow> sk_inner k = None \<Longrightarrow> turn_at U S going ended (AtDown r) [] ps ((drop_tunnel S x)\<lparr>ds_sink := k\<rparr>)"
| at_halted: "ended r x \<Longrightarrow> sk_inner k = None \<Longrightarrow>
    turn_at U S going ended (AtHalted r) [] ps
      ((drop_tunnel S x)\<lparr>ds_sink := k, ds_control := snd (halt (usb_transport U) (ds_control x))\<rparr>)"

inductive_cases turn_atE:
  "turn_at U S going ended AtTop es ps s" "turn_at U S going ended AtEvent es ps s" "turn_at U S going ended (AtBound l) es ps s"
  "turn_at U S going ended (AtDetached l) es ps s" "turn_at U S going ended (AtDropped l) es ps s"
  "turn_at U S going ended (AtUp t) es ps s" "turn_at U S going ended AtKeepalive es ps s" "turn_at U S going ended AtCounters es ps s"
  "turn_at U S going ended (AtStatus d) es ps s" "turn_at U S going ended (AtBreak r) es ps s"
  "turn_at U S going ended (AtStopped r) es ps s" "turn_at U S going ended (AtDown r) es ps s" "turn_at U S going ended (AtHalted r) es ps s"

lemma deliver_all_sink:
  "deliver_all qs (s\<lparr>ds_sink := k\<rparr>) = s\<lparr>ds_sink := fold (sink_deliver (\<lambda>packet ut. ut)) qs k\<rparr>"
  "deliver_all qs (s\<lparr>ds_sys := y\<rparr>) = (deliver_all qs s)\<lparr>ds_sys := y\<rparr>"
  "deliver_all qs (s\<lparr>ds_control := c\<rparr>) = (deliver_all qs s)\<lparr>ds_control := c\<rparr>"
  "deliver_all qs (s\<lparr>ds_next_keepalive := i\<rparr>) = (deliver_all qs s)\<lparr>ds_next_keepalive := i\<rparr>"
  "deliver_all qs (s\<lparr>ds_tunnel := t\<rparr>) = (deliver_all qs s)\<lparr>ds_tunnel := t\<rparr>"
  "deliver_all qs (update_status f s) = update_status f (deliver_all qs s)"
  by (simp_all add: deliver_all_def update_status_def)

text \<open>Packets received in the middle of a turn.\<close>

lemma turn_at_deliver:
  assumes "turn_at U S going ended pc es ps s"
  shows "turn_at U S going ended pc es (ps @ qs) (deliver_all qs s)"
  using assms
proof cases
  case (at_top x)
  with turn_at.at_top [of going x U S ended "ps @ qs"] show ?thesis by (simp add: deliver_all_append)
next
  case (at_event x)
  with turn_at.at_event [of going x U S ended "ps @ qs"] show ?thesis by (simp add: deliver_all_append)
next
  case (at_bound x l)
  with turn_at.at_bound [of going x l U S ended "ps @ qs"] show ?thesis by (simp add: deliver_all_append)
next
  case (at_detached x l a b)
  with turn_at.at_detached [of going x l U S ended a "b @ qs"] show ?thesis by (simp add: deliver_all_append)
next
  case (at_dropped x l a b)
  with turn_at.at_dropped [of going x l U S ended a "b @ qs"] show ?thesis by (simp add: deliver_all_append)
next
  case (at_up x l t y a b)
  with turn_at.at_up [of going x l S t y U ended a "b @ qs"] show ?thesis by (simp add: deliver_all_append deliver_all_sink)
next
  case (at_keepalive x b ev a z c)
  with turn_at.at_keepalive [of going x S b ev a z U ended "c @ qs"] show ?thesis by (simp add: deliver_all_append)
next
  case (at_counters x b ev a z now ctl c now2)
  with turn_at.at_counters [of going x S b ev a z now U ctl ended "c @ qs" now2] show ?thesis by (simp add: deliver_all_append)
next
  case (at_status x b ev a z now ctl c d now2)
  with turn_at.at_status [of going x S b ev a z now U ctl ended c "d @ qs" now2] show ?thesis by (simp add: deliver_all_append)
next
  case (at_break r x k)
  then show ?thesis by (simp add: deliver_all_sink turn_at.at_break deliver_keeps_consumer)
next
  case (at_stopped r x k)
  then show ?thesis by (simp add: deliver_all_sink turn_at.at_stopped deliver_keeps_consumer)
next
  case (at_down r x k)
  then show ?thesis by (simp add: deliver_all_sink turn_at.at_down deliver_keeps_consumer)
next
  case (at_halted r x k)
  then show ?thesis by (simp add: deliver_all_sink turn_at.at_halted deliver_keeps_consumer)
qed

definition session_refines ::
  "'b usb_backend \<Rightarrow> 'y system \<Rightarrow> mac_addr \<Rightarrow> ('b, 'y) daemon_session \<Rightarrow> ('b, 'y, 'e, 'w) whole \<Rightarrow> (utun \<times> bytes list) link_log \<Rightarrow> bool" where
  "session_refines U S h s0 w lg \<longleftrightarrow>
     (\<exists>turns es ps. lg_taken lg = turn_events turns @ es \<and> packets_in h (lg_in lg) = turn_packets turns @ ps
        \<and> turn_at U S (\<lambda>x. session_loop U S turns s0 = Some (None, x)) (\<lambda>r x. session_loop U S turns s0 = Some (Some r, x))
            (wh_pc w) es ps (session_now w))"

lemma session_loop_append:
  "session_loop U S turns s0 = Some (None, x) \<Longrightarrow> session_loop U S (turns @ ts) s0 = session_loop U S ts x"
  by (induction turns arbitrary: s0) (auto split: option.splits prod.splits)

text \<open>A turn that is complete.\<close>

lemma turns_snoc:
  assumes "session_loop U S turns s0 = Some (None, x)" and "session_turn U S tu x = Some (r, x')"
  shows "session_loop U S (turns @ [tu]) s0 = Some (r, x')"
  using session_loop_append [OF assms(1), of "[tu]"] assms(2) by (cases r) simp_all

lemma turn_logs_snoc [simp]:
  "turn_events (turns @ [tu]) = turn_events turns @ (case tu_event tu of None \<Rightarrow> [] | Some e \<Rightarrow> [e])"
  "turn_packets (turns @ [tu]) = turn_packets turns @ tu_packets tu @ tu_exchange tu @ tu_after tu"
  by (simp_all add: map_filter_snoc)

lemma session_now_pc [simp]: "session_now (w\<lparr>wh_pc := pc\<rparr>) = session_now w" "session_now (w\<lparr>wh_pc := pc, wh_link := k\<rparr>) = session_now (w\<lparr>wh_link := k\<rparr>)"
  by (simp_all add: session_now_def)

lemma session_now_take: "daemon_take (wh_link w) = (e, k) \<Longrightarrow> session_now (w\<lparr>wh_link := k\<rparr>) = session_now w"
  by (auto simp: session_now_def daemon_take_def split: prod.splits)

lemma renews_simps [simp]: "renews l (deliver_all ps s) = renews l s" "renews l (session_now w) = renews l (wh_session w)"
  by (simp_all add: renews_def session_now_def)

lemma drop_tunnel_sink: "drop_tunnel S (s\<lparr>ds_sink := k\<rparr>) = (drop_tunnel S s)\<lparr>ds_sink := k\<rparr>"
  "drop_tunnel S (deliver_all ps s) = deliver_all ps (drop_tunnel S s)"
  by (simp_all add: drop_tunnel_def deliver_all_def)

lemma session_bound_cases:
  assumes "\<not> renews l x"
  shows "session_bound S ps l x =
    (let s = deliver_all ps (drop_tunnel S (detached x)) in
     case tunnel_up S l (ds_sys (drop_tunnel S x)) of
       (Inl e, y) \<Rightarrow> (Some (Inl (sys_error_string e)), s\<lparr>ds_sys := y\<rparr>)
     | (Inr t, y) \<Rightarrow>
         (None, update_status (\<lambda>st. st\<lparr>st_link_up := True, st_interface := Some (ut_name (tn_utun t)),
                   st_address := Some (le_ip (tn_lease t)), st_gateway := le_router (tn_lease t),
                   st_dns := le_dns (tn_lease t)\<rparr>)
                 (s\<lparr>ds_sys := y, ds_sink := sink_attach (tn_utun t) (ds_sink s), ds_tunnel := Some t\<rparr>)))"
  using assms by (simp add: session_bound_def renews_def detached_def Let_def drop_tunnel_sink cong: prod.case_cong sum.case_cong)

text \<open>
  What an action of the daemon makes of a turn, with the events taken by then: the turn goes on, is complete, or is
  the last.
\<close>

abbreviation turn_inputs :: "turn \<Rightarrow> bytes list" where
  "turn_inputs tu \<equiv> tu_packets tu @ tu_exchange tu @ tu_after tu"

inductive turn_moves ::
  "'b usb_backend \<Rightarrow> 'y system \<Rightarrow> (('b, 'y) daemon_session \<Rightarrow> bool) \<Rightarrow> (string + unit \<Rightarrow> ('b, 'y) daemon_session \<Rightarrow> bool)
   \<Rightarrow> link_event list \<Rightarrow> bytes list \<Rightarrow> daemon_pc \<Rightarrow> ('b, 'y) daemon_session \<Rightarrow> bool" for U S going ended where
  inside: "turn_at U S going ended pc es ps s \<Longrightarrow> turn_moves U S going ended es ps pc s"
| complete: "going x \<Longrightarrow> session_turn U S tu x = Some (None, x') \<Longrightarrow> s = deliver_all qs x' \<Longrightarrow>
    es = (case tu_event tu of None \<Rightarrow> [] | Some e \<Rightarrow> [e]) \<Longrightarrow> ps = turn_inputs tu @ qs \<Longrightarrow> turn_moves U S going ended es ps AtTop s"
| last: "going x \<Longrightarrow> session_turn U S tu x = Some (Some r, x') \<Longrightarrow> s = x'\<lparr>ds_sink := k\<rparr> \<Longrightarrow> sk_inner k = sk_inner (ds_sink x') \<Longrightarrow>
    es = (case tu_event tu of None \<Rightarrow> [] | Some e \<Rightarrow> [e]) \<Longrightarrow> ps = turn_inputs tu @ qs \<Longrightarrow> turn_moves U S going ended es ps (AtBreak r) s"

lemma turn_moves_refines:
  assumes "lg_taken lg = turn_events turns @ es" and "packets_in h (lg_in lg) = turn_packets turns @ ps"
    and "turn_moves U S (\<lambda>x. session_loop U S turns s0 = Some (None, x)) (\<lambda>r x. session_loop U S turns s0 = Some (Some r, x))
      es ps (wh_pc w) (session_now w)"
  shows "session_refines U S h s0 w lg"
  using assms(3)
proof cases
  case inside
  with assms(1,2) show ?thesis unfolding session_refines_def by blast
next
  case (complete x tu x' qs)
  from turns_snoc [OF complete(2,3)] complete assms(1,2) show ?thesis
    unfolding session_refines_def
    by (intro exI [of _ "turns @ [tu]"] exI [of _ "[]"] exI [of _ qs]) (simp add: at_top)
next
  case (last x tu r x' k qs)
  from turns_snoc [OF last(2,3)] last assms(1,2) show ?thesis
    unfolding session_refines_def
    by (intro exI [of _ "turns @ [tu]"] exI [of _ "[]"] exI [of _ qs]) (simp add: at_break)
qed

lemmas session_turn_simps = session_turn_def session_event_def session_keepalive_def

text \<open>The head of the loop and the event.\<close>

lemma daemon_step_event:
  assumes "daemon_step U S w lg w' lg'" and "wh_pc w \<in> {AtTop, AtEvent}"
    and "turn_at U S going ended (wh_pc w) es ps (session_now w)"
  shows "\<exists>new. lg_taken lg' = lg_taken lg @ new \<and> lg_in lg' = lg_in lg \<and> turn_moves U S going ended (es @ new) ps (wh_pc w') (session_now w')"
proof -
  obtain x where x: "going x" "es = []" "session_now w = deliver_all ps x"
    using assms(2,3) by (auto elim!: turn_atE(1,2))
  let ?tu = "\<lambda>req ev. \<lparr>tu_requested = req, tu_packets = ps, tu_event = ev, tu_exchange = [], tu_after = [],
    tu_now = 0, tu_now2 = 0, tu_sent = 0\<rparr>"
  from assms(1) show ?thesis
  proof cases
    case stop_requested
    then show ?thesis
      using x by (intro exI [of _ "[]"])
        (auto simp: session_turn_def deliver_all_def deliver_keeps_consumer intro!: last [where x = x and tu = "?tu True None"])
  next
    case sleeps
    with x show ?thesis by (auto intro: inside at_event)
  next
    case (no_event k)
    have "turn_at U S going ended AtKeepalive [] ps (deliver_all ps x)"
      using at_keepalive [of going, where b = "[]" and ev = None and a = ps and c = "[]", OF x(1)]
      by (simp add: session_event_def deliver_all_append)
    with no_event x session_now_take [OF no_event(4)] show ?thesis by (intro exI [of _ "[]"]) (simp add: inside)
  next
    case (lease_renewed l k)
    have "renews l x" using lease_renewed(5) x(3) by (metis renews_simps)
    then have "session_event S [] (Some (LinkBound l)) (deliver_all ps x) = (None, deliver_all ps x)"
      by (simp add: session_event_def session_bound_def renews_def)
    from at_keepalive [of going, OF x(1) this, where c = "[]"] lease_renewed x session_now_take [OF lease_renewed(4)]
    show ?thesis by (intro exI [of _ "[LinkBound l]"]) (simp add: lg_took_def deliver_all_append inside)
  next
    case (lease_new l k)
    have "\<not> renews l x" using lease_new(5) x(3) by (metis renews_simps)
    with lease_new x session_now_take [OF lease_new(4)] show ?thesis
      by (intro exI [of _ "[LinkBound l]"]) (simp add: lg_took_def inside at_bound)
  next
    case (link_failed m k)
    with x session_now_take [OF link_failed(4)] show ?thesis
      by (intro exI [of _ "[LinkFailed m]"])
        (auto simp: lg_took_def session_turn_simps intro!: last [of going x U S "?tu False (Some (LinkFailed m))" _ _ _ "ds_sink (deliver_all ps x)"])
  qed (use assms(2) in simp_all)
qed

lemma session_now_detach:
  "session_now (w\<lparr>wh_link := daemon_detach (wh_link w)\<rparr>) = detached (session_now w)"
  by (simp add: session_now_def daemon_detach_def detached_def)

lemma session_now_session:
  "session_now (w\<lparr>wh_pc := pc, wh_session := (wh_session w)\<lparr>ds_next_keepalive := i, ds_control := c\<rparr>\<rparr>)
     = (session_now w)\<lparr>ds_next_keepalive := i, ds_control := c\<rparr>"
  "session_now (w\<lparr>wh_pc := pc, wh_session := (wh_session w)\<lparr>ds_control := c\<rparr>\<rparr>) = (session_now w)\<lparr>ds_control := c\<rparr>"
  "session_now (w\<lparr>wh_pc := pc, wh_session := update_status f (wh_session w)\<rparr>) = update_status f (session_now w)"
  by (simp_all add: session_now_def update_status_def)

text \<open>From the lease to the attached tunnel.\<close>

lemma daemon_step_lease:
  assumes "daemon_step U S w lg w' lg'" and "wh_pc w \<in> {AtBound l, AtDetached l, AtDropped l, AtUp t}"
    and "turn_at U S going ended (wh_pc w) es ps (session_now w)"
  shows "lg_taken lg' = lg_taken lg \<and> packets_in h (lg_in lg') = packets_in h (lg_in lg)
    \<and> turn_moves U S going ended es ps (wh_pc w') (session_now w')"
  using assms(1)
proof cases
  case (detaches l)
  with assms(3) obtain x where x: "going x" "\<not> renews l x" "es = [LinkBound l]" "session_now w = deliver_all ps x"
    by (auto elim!: turn_atE(3))
  with detaches session_now_detach [of w] at_detached [of going, OF x(1,2), where b = "[]" and a = ps] show ?thesis
    by (simp add: lg_sink_def map_filter_snoc deliver_all_append inside)
next
  case (drops_tunnel l)
  with assms(3) obtain x a b where x: "going x" "\<not> renews l x" "es = [LinkBound l]" "ps = a @ b"
    "session_now w = deliver_all b (detached (deliver_all a x))"
    by (auto elim!: turn_atE(4))
  have "session_now w' = drop_tunnel S (session_now w)"
    using drops_tunnel by (simp add: session_now_def drop_tunnel_def)
  with drops_tunnel x at_dropped [of going, OF x(1,2)] show ?thesis by (simp add: drop_tunnel_sink inside)
next
  case (tunnel_comes_up l t y)
  with assms(3) obtain x a b where x: "going x" "\<not> renews l x" "es = [LinkBound l]" "ps = a @ b"
    "session_now w = deliver_all b (drop_tunnel S (detached (deliver_all a x)))"
    by (auto elim!: turn_atE(5))
  have "session_now w' = (session_now w)\<lparr>ds_sys := y\<rparr>" "ds_sys (wh_session w) = ds_sys (session_now w)"
    using tunnel_comes_up by (simp_all add: session_now_def)
  moreover have "ds_sys (session_now w) = ds_sys (drop_tunnel S x)"
    using x(5) by (simp add: detached_def drop_tunnel_sink)
  ultimately show ?thesis
    using tunnel_comes_up x at_up [of going, OF x(1,2)] by (simp add: inside)
next
  case (tunnel_fails l e y)
  with assms(3) obtain x a b where x: "going x" "\<not> renews l x" "es = [LinkBound l]" "ps = a @ b"
    "session_now w = deliver_all b (drop_tunnel S (detached (deliver_all a x)))"
    by (auto elim!: turn_atE(5))
  have now: "session_now w' = (session_now w)\<lparr>ds_sys := y\<rparr>" "ds_sys (wh_session w) = ds_sys (session_now w)"
    using tunnel_fails by (simp_all add: session_now_def)
  have up: "tunnel_up S l (ds_sys (drop_tunnel S (deliver_all a x))) = (Inl e, y)"
    using tunnel_fails(4) now(2) x(5) by (simp add: detached_def drop_tunnel_sink)
  let ?tu = "\<lparr>tu_requested = False, tu_packets = a, tu_event = Some (LinkBound l), tu_exchange = b, tu_after = [],
    tu_now = 0, tu_now2 = 0, tu_sent = 0\<rparr>"
  have "session_turn U S ?tu x = Some (Some (Inl (sys_error_string e)), session_now w')"
    using x now up by (simp add: session_turn_simps session_bound_cases)
  from last [of going, OF x(1) this, where k = "ds_sink (session_now w')" and qs = "[]"] tunnel_fails x show ?thesis
    by simp
next
  case (attaches t)
  with assms(3) obtain x a b l y where x: "going x" "\<not> renews l x" "tunnel_up S l (ds_sys (drop_tunnel S x)) = (Inr t, y)"
    "es = [LinkBound l]" "ps = a @ b" "session_now w = (deliver_all b (drop_tunnel S (detached (deliver_all a x))))\<lparr>ds_sys := y\<rparr>"
    by (auto elim!: turn_atE(6))
  have "session_now w' = update_status (\<lambda>st. st\<lparr>st_link_up := True, st_interface := Some (ut_name (tn_utun t)),
      st_address := Some (le_ip (tn_lease t)), st_gateway := le_router (tn_lease t), st_dns := le_dns (tn_lease t)\<rparr>)
      ((session_now w)\<lparr>ds_sink := sink_attach (tn_utun t) (ds_sink (session_now w)), ds_tunnel := Some t\<rparr>)"
    using attaches by (simp add: session_now_def update_status_def daemon_attach_def)
  with x have "session_event S b (Some (LinkBound l)) (deliver_all a x) = (None, session_now w')"
    by (simp add: session_event_def session_bound_cases drop_tunnel_sink Let_def)
  from at_keepalive [of going, OF x(1) this, where c = "[]"] attaches x show ?thesis
    by (simp add: lg_sink_def map_filter_snoc deliver_all_append inside)
qed (use assms(2) in simp_all)

text \<open>The keepalive and the counters.\<close>

lemma daemon_step_keepalive:
  assumes "daemon_step U S w lg w' lg'" and "wh_pc w \<in> {AtKeepalive, AtCounters, AtStatus d}"
    and "turn_at U S going ended (wh_pc w) es ps (session_now w)"
  shows "lg' = lg \<and> turn_moves U S going ended es ps (wh_pc w') (session_now w')"
proof -
  have same: "ds_next_keepalive (wh_session w) = ds_next_keepalive (session_now w)" "ds_control (wh_session w) = ds_control (session_now w)"
    "sk_delivered (rx_sink (lk_shared (wh_link w))) = sk_delivered (ds_sink (session_now w))"
    by (simp_all add: session_now_def)
  let ?tu = "\<lambda>a ev b c now now2 sent. \<lparr>tu_requested = False, tu_packets = a, tu_event = ev, tu_exchange = b, tu_after = c,
    tu_now = now, tu_now2 = now2, tu_sent = sent\<rparr>"
  from assms(1) show ?thesis
  proof cases
    case (not_due now)
    with assms(3) obtain x a b c ev z where x: "going x" "session_event S b ev (deliver_all a x) = (None, z)"
      "es = (case ev of None \<Rightarrow> [] | Some e \<Rightarrow> [e])" "ps = a @ b @ c" "session_now w = deliver_all c z"
      by (auto elim!: turn_atE(7))
    have "session_turn U S (?tu a ev b [] now 0 0) x = Some (None, z)"
      using x(2,5) not_due(4) same(1) by (simp add: session_turn_def session_keepalive_def deliver_all_append)
    from complete [of going, OF x(1) this, where qs = c] not_due x show ?thesis by simp
  next
    case (keeps_alive now u c' now2)
    with assms(3) obtain x a b c ev z where x: "going x" "session_event S b ev (deliver_all a x) = (None, z)"
      "es = (case ev of None \<Rightarrow> [] | Some e \<Rightarrow> [e])" "ps = a @ b @ c" "session_now w = deliver_all c z"
      by (auto elim!: turn_atE(7))
    have "session_now w' = deliver_all c (z\<lparr>ds_next_keepalive := now2 + KEEPALIVE_INTERVAL, ds_control := c'\<rparr>)"
      using keeps_alive x(5) by (simp add: session_now_session deliver_all_sink)
    with keeps_alive x same at_counters [of going, OF x(1,2), where ctl = c' and now = now] show ?thesis by (simp add: inside)
  next
    case (keepalive_fails now e c' now2)
    with assms(3) obtain x a b c ev z where x: "going x" "session_event S b ev (deliver_all a x) = (None, z)"
      "es = (case ev of None \<Rightarrow> [] | Some e \<Rightarrow> [e])" "ps = a @ b @ c" "session_now w = deliver_all c z"
      by (auto elim!: turn_atE(7))
    have "session_now w' = (deliver_all c z)\<lparr>ds_next_keepalive := now2 + KEEPALIVE_INTERVAL, ds_control := c'\<rparr>"
      using keepalive_fails x(5) by (simp add: session_now_session)
    then have "session_turn U S (?tu a ev b c now now2 0) x
        = Some (Some (Inl (''keepalive failed: '' @ rndis_error_string e)), session_now w')"
      using x(2,5) keepalive_fails(4,5) same by (simp add: session_turn_def session_keepalive_def)
    from last [of going, OF x(1) this, where k = "ds_sink (session_now w')" and qs = "[]"] keepalive_fails x show ?thesis by simp
  next
    case loads_delivered
    with assms(3) obtain x a b c ev z now ctl now2 where x: "going x" "session_event S b ev (deliver_all a x) = (None, z)"
      "ds_next_keepalive z \<le> now" "keepalive (usb_transport U) (ds_control z) = Some (Inr (), ctl)"
      "es = (case ev of None \<Rightarrow> [] | Some e \<Rightarrow> [e])" "ps = a @ b @ c"
      "session_now w = deliver_all c (z\<lparr>ds_next_keepalive := now2 + KEEPALIVE_INTERVAL, ds_control := ctl\<rparr>)"
      by (auto elim!: turn_atE(8))
    with at_status [of going, OF x(1-4), where c = c and d = "[]"] loads_delivered same(3) show ?thesis
      by (simp add: deliver_all_append deliver_all_sink inside)
  next
    case (reports delivered)
    with assms(3) obtain x a b c e ev z now ctl now2 where x: "going x" "session_event S b ev (deliver_all a x) = (None, z)"
      "ds_next_keepalive z \<le> now" "keepalive (usb_transport U) (ds_control z) = Some (Inr (), ctl)"
      "delivered = sk_delivered (ds_sink (deliver_all c z))" "es = (case ev of None \<Rightarrow> [] | Some e \<Rightarrow> [e])" "ps = a @ b @ c @ e"
      "session_now w = deliver_all e (deliver_all c (z\<lparr>ds_next_keepalive := now2 + KEEPALIVE_INTERVAL, ds_control := ctl\<rparr>))"
      by (auto elim!: turn_atE(9))
    let ?f = "\<lambda>st. st\<lparr>st_packets_in := delivered, st_packets_out := tx_sent (lk_tx (wh_link w))\<rparr>"
    let ?x = "update_status ?f (deliver_all c (z\<lparr>ds_next_keepalive := now2 + KEEPALIVE_INTERVAL, ds_control := ctl\<rparr>))"
    have turn: "session_turn U S (?tu a ev b c now now2 (tx_sent (lk_tx (wh_link w)))) x = Some (None, ?x)"
      using x(2-5) by (simp add: session_turn_def session_keepalive_def deliver_all_sink)
    have "session_now w' = deliver_all e ?x"
      using reports x(8) by (simp add: session_now_session deliver_all_sink)
    from complete [of going, OF x(1) turn this, of es ps ended] reports x show ?thesis by simp
  qed (use assms(2) in simp_all)
qed

text \<open>The end.\<close>

lemma daemon_step_end:
  assumes "daemon_step U S w lg w' lg'" and "wh_pc w \<in> {AtBreak r, AtStopped r, AtDown r, AtHalted r}"
    and "turn_at U S going ended (wh_pc w) es ps (session_now w)"
  shows "lg_taken lg' = lg_taken lg \<and> packets_in h (lg_in lg') = packets_in h (lg_in lg)
    \<and> turn_moves U S going ended es ps (wh_pc w') (session_now w')"
  using assms(1)
proof cases
  case (stops_delivery r)
  with assms(3) obtain x k where x: "ended r x" "es = []" "session_now w = x\<lparr>ds_sink := k\<rparr>"
    by (auto elim!: turn_atE(10))
  with stops_delivery session_now_detach [of w] at_stopped [of ended, OF x(1), where k = "sink_detach k"] show ?thesis
    by (simp add: lg_sink_def map_filter_snoc detached_def sink_detach_def inside)
next
  case (takes_down r)
  with assms(3) obtain x k where x: "ended r x" "es = []" "session_now w = x\<lparr>ds_sink := k\<rparr>" "sk_inner k = None"
    by (auto elim!: turn_atE(11))
  have "session_now w' = drop_tunnel S (session_now w)"
    using takes_down by (simp add: session_now_def drop_tunnel_def)
  with takes_down x at_down [of ended, OF x(1,4)] show ?thesis by (simp add: drop_tunnel_sink inside)
next
  case (halts r)
  with assms(3) obtain x k where x: "ended r x" "es = []" "session_now w = (drop_tunnel S x)\<lparr>ds_sink := k\<rparr>" "sk_inner k = None"
    by (auto elim!: turn_atE(12))
  have "ds_control (wh_session w) = ds_control (session_now w)" by (simp add: session_now_def)
  with x(3) have "session_now w' = (drop_tunnel S x)\<lparr>ds_sink := k, ds_control := snd (halt (usb_transport U) (ds_control x))\<rparr>"
    using halts by (simp add: session_now_session)
  with halts x at_halted [of ended, OF x(1,4)] show ?thesis by (simp add: inside)
qed (use assms(2) in simp_all)

lemma daemon_step_refines:
  assumes "daemon_step U S w lg w' lg'" and "session_refines U S h s0 w lg"
  shows "session_refines U S h s0 w' lg'"
proof -
  obtain turns es ps where logs: "lg_taken lg = turn_events turns @ es" "packets_in h (lg_in lg) = turn_packets turns @ ps"
    and turn: "turn_at U S (\<lambda>x. session_loop U S turns s0 = Some (None, x)) (\<lambda>r x. session_loop U S turns s0 = Some (Some r, x))
      (wh_pc w) es ps (session_now w)"
    using assms(2) unfolding session_refines_def by blast
  consider "wh_pc w \<in> {AtTop, AtEvent}" | l t where "wh_pc w \<in> {AtBound l, AtDetached l, AtDropped l, AtUp t}"
    | d where "wh_pc w \<in> {AtKeepalive, AtCounters, AtStatus d}" | r where "wh_pc w \<in> {AtBreak r, AtStopped r, AtDown r, AtHalted r}"
    by (cases "wh_pc w") auto
  then show ?thesis
  proof cases
    case 1
    from daemon_step_event [OF assms(1) this turn] logs turn_moves_refines [of lg' turns "es @ _" h ps U S s0 w'] show ?thesis by auto
  next
    case (2 l t)
    from daemon_step_lease [OF assms(1) this turn, of h] logs turn_moves_refines [of lg' turns es h ps U S s0 w'] show ?thesis by simp
  next
    case (3 d)
    from daemon_step_keepalive [OF assms(1) this turn] logs turn_moves_refines [of lg' turns es h ps U S s0 w'] show ?thesis by simp
  next
    case (4 r)
    from daemon_step_end [OF assms(1) this turn, of h] logs turn_moves_refines [of lg' turns es h ps U S s0 w'] show ?thesis by simp
  qed
qed

lemma session_run_refines:
  assumes "session_run h clk E n V L w0 U S s0 w lg" and "ds_sink s0 = sink_new"
  shows "session_refines U S h s0 w lg"
  using assms(1)
proof induction
  case (begins ep k)
  then have "rx_sink (lk_shared k) = sink_new"
    by (simp add: link_start_def rx_start_def send_dhcp_def Let_def split: prod.split)
  then have now: "session_now \<lparr>wh_pc = AtTop, wh_session = s0, wh_link = k\<rparr> = deliver_all [] s0"
    using assms(2) by (simp add: session_now_def deliver_all_append)
  have "turn_at U S (\<lambda>x. session_loop U S [] s0 = Some (None, x)) (\<lambda>r x. session_loop U S [] s0 = Some (Some r, x))
      AtTop [] [] (deliver_all [] s0)"
    by (rule at_top) simp
  with now show ?case
    unfolding session_refines_def
    by (intro exI [of _ "[]"]) (simp add: link_log_new_def List.map_filter_simps)
next
  case (thread_steps w lg k lg')
  from link_step_session [OF thread_steps(2)] obtain qs where qs: "session_now (w\<lparr>wh_link := k\<rparr>) = deliver_all qs (session_now w)"
    "packets_in h (lg_in lg') = packets_in h (lg_in lg) @ qs" "lg_taken lg' = lg_taken lg" by metis
  from thread_steps(3) obtain turns es ps where "lg_taken lg = turn_events turns @ es" "packets_in h (lg_in lg) = turn_packets turns @ ps"
    "turn_at U S (\<lambda>x. session_loop U S turns s0 = Some (None, x)) (\<lambda>r x. session_loop U S turns s0 = Some (Some r, x))
      (wh_pc w) es ps (session_now w)"
    unfolding session_refines_def by blast
  with turn_at_deliver [OF this(3), of qs] qs show ?case
    unfolding session_refines_def by (intro exI [of _ turns] exI [of _ es] exI [of _ "ps @ qs"]) simp
next
  case (daemon_steps w lg w' lg')
  from daemon_step_refines [OF daemon_steps(2,3)] show ?case .
qed

text \<open>
  C7: Whatever the interleaving of the daemon with the threads of the link, the session is one that the loop of
  turns makes. At the head of the loop the state is that of the loop after some turns, with the packets
  received since delivered to the sink; the events of these turns are exactly the events taken from the link, and
  their packets exactly the ones for the tunnel that the link received. When the loop has ended it ended with
  the result of the loop of turns, and the teardown leaves the system, the status and the control channel that \<open>session_end\<close> leaves.
\<close>

theorem session_threads_refine:
  assumes "session_run h clk E n V L w0 U S (session_start d now st y) w lg"
  shows "\<exists>turns ps.
    (wh_pc w = AtTop \<longrightarrow>
      (\<exists>x. session_loop U S turns (session_start d now st y) = Some (None, x) \<and> session_now w = deliver_all ps x
        \<and> turn_events turns = lg_taken lg \<and> turn_packets turns @ ps = packets_in h (lg_in lg)))
    \<and> (\<forall>r. wh_pc w = AtBreak r \<longrightarrow>
      (\<exists>x k. session_loop U S turns (session_start d now st y) = Some (Some r, x) \<and> session_now w = x\<lparr>ds_sink := k\<rparr>
        \<and> sk_inner k = sk_inner (ds_sink x) \<and> turn_events turns = lg_taken lg))
    \<and> (\<forall>r. wh_pc w = AtHalted r \<longrightarrow>
      (\<exists>x. session_loop U S turns (session_start d now st y) = Some (Some r, x) \<and> turn_events turns = lg_taken lg
        \<and> (let (s, b) = session_end U S d x in
            ds_sys (session_now w) = ds_sys s \<and> ds_status (session_now w) = ds_status s \<and> ds_tunnel (session_now w) = None
            \<and> ds_control (session_now w) = snd (halt (usb_transport U) (ds_control x)))))"
proof -
  obtain turns es ps where taken: "lg_taken lg = turn_events turns @ es" and packets: "packets_in h (lg_in lg) = turn_packets turns @ ps"
    and turn: "turn_at U S (\<lambda>x. session_loop U S turns (session_start d now st y) = Some (None, x))
      (\<lambda>r x. session_loop U S turns (session_start d now st y) = Some (Some r, x)) (wh_pc w) es ps (session_now w)"
    using session_run_refines [OF assms] unfolding session_refines_def by (auto simp: session_start_def)
  show ?thesis
  proof (intro exI [of _ turns] exI [of _ ps] conjI impI allI)
    assume pc: "wh_pc w = AtTop"
    from turn [unfolded pc] taken packets
    show "\<exists>x. session_loop U S turns (session_start d now st y) = Some (None, x) \<and> session_now w = deliver_all ps x
        \<and> turn_events turns = lg_taken lg \<and> turn_packets turns @ ps = packets_in h (lg_in lg)"
      by (auto elim!: turn_atE(1))
  next
    fix r assume pc: "wh_pc w = AtBreak r"
    from turn [unfolded pc] taken
    show "\<exists>x k. session_loop U S turns (session_start d now st y) = Some (Some r, x) \<and> session_now w = x\<lparr>ds_sink := k\<rparr>
        \<and> sk_inner k = sk_inner (ds_sink x) \<and> turn_events turns = lg_taken lg"
      by (auto elim!: turn_atE(10))
  next
    fix r assume pc: "wh_pc w = AtHalted r"
    from turn [unfolded pc] obtain x k where x: "session_loop U S turns (session_start d now st y) = Some (Some r, x)" "es = []"
      "session_now w = (drop_tunnel S x)\<lparr>ds_sink := k, ds_control := snd (halt (usb_transport U) (ds_control x))\<rparr>"
      by (auto elim!: turn_atE(13))
    with taken show "\<exists>x. session_loop U S turns (session_start d now st y) = Some (Some r, x) \<and> turn_events turns = lg_taken lg
        \<and> (let (s, b) = session_end U S d x in
            ds_sys (session_now w) = ds_sys s \<and> ds_status (session_now w) = ds_status s \<and> ds_tunnel (session_now w) = None
            \<and> ds_control (session_now w) = snd (halt (usb_transport U) (ds_control x)))"
      by (intro exI [of _ x]) (simp add: session_end_def Let_def drop_tunnel_sink)
  qed
qed

subsection \<open>The tunnel and the threads\<close>

definition connected :: "daemon_pc \<Rightarrow> bool" where
  "connected pc \<longleftrightarrow> (case pc of AtDetached _ \<Rightarrow> False | AtDropped _ \<Rightarrow> False | AtUp _ \<Rightarrow> False
     | AtStopped _ \<Rightarrow> False | AtDown _ \<Rightarrow> False | AtHalted _ \<Rightarrow> False | _ \<Rightarrow> True)"

text \<open>The tunnel there is, also while the daemon is about to attach it.\<close>

definition tunnel_of :: "('b, 'y, 'e, 'w) whole \<Rightarrow> tunnel option" where
  "tunnel_of w = (case wh_pc w of AtUp t \<Rightarrow> Some t | _ \<Rightarrow> ds_tunnel (wh_session w))"

definition whole_inv :: "('b, 'y, 'e, 'w) whole \<Rightarrow> (utun \<times> bytes list) link_log \<Rightarrow> bool" where
  "whole_inv w lg \<longleftrightarrow>
     map_option fst (sk_inner (rx_sink (lk_shared (wh_link w)))) = (if connected (wh_pc w) then map_option tn_utun (ds_tunnel (wh_session w)) else None)
     \<and> map_option fst (lk_reader (wh_link w)) = Option.bind (tunnel_of w) (\<lambda>t. le_router (tn_lease t))
     \<and> (\<forall>t. tunnel_of w = Some t \<longrightarrow> le_router (tn_lease t) \<noteq> None)
     \<and> ((\<exists>l. wh_pc w = AtDropped l) \<or> (\<exists>t. wh_pc w = AtUp t) \<or> (\<exists>r. wh_pc w \<in> {AtDown r, AtHalted r}) \<longrightarrow> ds_tunnel (wh_session w) = None)
     \<and> (\<forall>k. Attached k \<in> set (lg_in lg) \<longrightarrow> snd k = [])"

lemma tunnel_up_lease: "tunnel_up S l y = (Inr t, y') \<Longrightarrow> tn_lease t = l \<and> le_router l \<noteq> None"
  by (auto simp: tunnel_up_def trys_def Let_def split: option.splits prod.splits sum.splits)

lemma daemon_take_link:
  "daemon_take s = (e, k) \<Longrightarrow> rx_sink (lk_shared k) = rx_sink (lk_shared s)"
  "daemon_take s = (e, k) \<Longrightarrow> lk_reader k = lk_reader s"
  by (auto simp: daemon_take_def split: prod.splits)

lemma whole_inv_daemon:
  assumes "daemon_step U S w lg w' lg'" and "whole_inv w lg"
  shows "whole_inv w' lg'"
  using assms(1)
proof cases
  case (tunnel_comes_up l t y)
  with assms(2) tunnel_up_lease [OF tunnel_comes_up(4)] show ?thesis
    by (auto simp: whole_inv_def tunnel_of_def connected_def reader_of_def)
qed (use assms(2) in \<open>auto simp: whole_inv_def tunnel_of_def connected_def daemon_take_link lg_took_def lg_sink_def
      daemon_attach_def daemon_detach_def sink_attach_def sink_detach_def update_status_def split: option.splits\<close>)

lemma whole_inv_threads:
  assumes "link_step h device_deliver clk E n V (wh_link w) lg k lg'" and "whole_inv w lg"
  shows "whole_inv (w\<lparr>wh_link := k\<rparr>) lg'"
proof -
  obtain ps fs where step: "session_now (w\<lparr>wh_link := k\<rparr>) = deliver_all ps (session_now w)"
    "lg_in lg' = lg_in lg @ map link_in.Received fs" "map_option fst (lk_reader k) = map_option fst (lk_reader (wh_link w))"
    using link_step_session [OF assms(1)] by metis
  have "sk_inner (ds_sink (session_now (w\<lparr>wh_link := k\<rparr>))) = sk_inner (ds_sink (session_now w))"
    using step(1) by simp
  then have "map_option fst (sk_inner (rx_sink (lk_shared k))) = map_option fst (sk_inner (rx_sink (lk_shared (wh_link w))))"
    by (simp add: session_now_def)
  moreover have "Attached x \<in> set (lg_in lg') \<longleftrightarrow> Attached x \<in> set (lg_in lg)" for x using step(2) by auto
  moreover have "tunnel_of (w\<lparr>wh_link := k\<rparr>) = tunnel_of w" by (cases "wh_pc w") (simp_all add: tunnel_of_def)
  ultimately show ?thesis using step(3) assms(2) by (simp add: whole_inv_def)
qed

lemma whole_inv_run:
  assumes "session_run h clk E n V L w0 U S (session_start d now st y) w lg"
  shows "whole_inv w lg"
  using assms
proof induction
  case (begins ep k)
  then have "rx_sink (lk_shared k) = sink_new" "lk_reader k = None"
    by (simp_all add: link_start_def rx_start_def send_dhcp_def Let_def split: prod.split)
  then show ?case by (simp add: whole_inv_def connected_def tunnel_of_def session_start_def sink_new_def link_log_new_def)
next
  case (thread_steps w lg k lg')
  from whole_inv_threads [OF thread_steps(2,3)] show ?case .
next
  case (daemon_steps w lg w' lg')
  from whole_inv_daemon [OF daemon_steps(2,3)] show ?case .
qed

text \<open>What the consumer of a sink was given: the packets since it was attached.\<close>

abbreviation since_attached :: "mac_addr \<Rightarrow> utun \<Rightarrow> (utun \<times> bytes list) link_in list \<Rightarrow> bytes list \<Rightarrow> bool" where
  "since_attached h u ins written \<equiv>
     (\<exists>before frames. ins = before @ Attached (u, []) # map link_in.Received frames
        \<and> written = List.map_filter utun_write (List.map_filter (to_tunnel h) frames))"

lemma device_deliver_eq: "device_deliver p k = (u, written) \<longleftrightarrow> (\<exists>w. k = (u, w) \<and> written = utun_sink_deliver p w)"
  by (cases k) (auto simp: device_deliver_def)

lemma sink_since_attached:
  assumes "\<forall>k. Attached k \<in> set ins \<longrightarrow> snd k = []"
    and "sk_inner (fold (sink_step device_deliver) (concat (map (sink_calls h) ins)) sink_new) = Some (u, written)"
  shows "since_attached h u ins written"
  using assms
proof (induction ins arbitrary: written rule: rev_induct)
  case Nil
  then show ?case by (simp add: sink_new_def)
next
  case (snoc i ins)
  let ?s = "fold (sink_step device_deliver) (concat (map (sink_calls h) ins)) sink_new"
  show ?case
  proof (cases i)
    case (Attached k)
    with snoc.prems show ?thesis
      by (intro exI [of _ ins] exI [of _ "[]"]) (auto simp: sink_attach_def List.map_filter_simps)
  next
    case Detached
    with snoc.prems show ?thesis by (simp add: sink_detach_def)
  next
    case (Received f)
    obtain w1 where w1: "sk_inner ?s = Some (u, w1)" "written = (case to_tunnel h f of None \<Rightarrow> w1 | Some p \<Rightarrow> utun_sink_deliver p w1)"
      using snoc.prems(2) Received by (auto simp: sink_deliver_def device_deliver_eq split: option.splits)
    obtain before frames where "ins = before @ Attached (u, []) # map link_in.Received frames"
      "w1 = List.map_filter utun_write (List.map_filter (to_tunnel h) frames)"
      using snoc.IH [OF _ w1(1)] snoc.prems(1) by auto
    with Received w1(2) show ?thesis
      by (intro exI [of _ before] exI [of _ "frames @ [f]"])
        (auto simp: map_filter_snoc utun_sink_deliver_def split: option.splits)
  qed
qed

text \<open>
  C8: At every point of a session, whatever the interleaving, the consumer attached to the sink is the device of the
  tunnel, but for the steps between a detach and the attach that follows, when there is none; the reader runs exactly while
  there is a tunnel, with the gateway of its lease; and what was written to the attached device is, in order, what the phone sent
  to it since it was attached, each packet with the header of its address family.
\<close>

theorem tunnel_and_threads_agree:
  assumes "in_endpoint_ok E" and "session_run h clk E n V L w0 U S (session_start d now st y) w lg"
  shows "map_option fst (sk_inner (rx_sink (lk_shared (wh_link w)))) =
      (if connected (wh_pc w) then map_option tn_utun (ds_tunnel (wh_session w)) else None)
    \<and> map_option fst (lk_reader (wh_link w)) = map_option (\<lambda>t. the (le_router (tn_lease t))) (tunnel_of w)
    \<and> (\<forall>u written. sk_inner (rx_sink (lk_shared (wh_link w))) = Some (u, written) \<longrightarrow>
        (\<exists>before frames. lg_in lg = before @ Attached (u, []) # map link_in.Received frames
          \<and> written = List.map_filter utun_write (List.map_filter (to_tunnel h) frames)))"
proof (intro conjI allI impI)
  note inv = whole_inv_run [OF assms(2), unfolded whole_inv_def]
  show "map_option fst (sk_inner (rx_sink (lk_shared (wh_link w)))) =
      (if connected (wh_pc w) then map_option tn_utun (ds_tunnel (wh_session w)) else None)"
    using inv by blast
  show "map_option fst (lk_reader (wh_link w)) = map_option (\<lambda>t. the (le_router (tn_lease t))) (tunnel_of w)"
    using inv by (cases "tunnel_of w") auto
  fix u written assume "sk_inner (rx_sink (lk_shared (wh_link w))) = Some (u, written)"
  with link_rx_inv_run [OF session_link_run [OF assms(2)] assms(1)] inv
  show "since_attached h u (lg_in lg) written"
    by (intro sink_since_attached) (auto simp: link_rx_inv_def)
qed


subsection \<open>A frame of the phone\<close>

definition phone_frame :: "mac_addr \<Rightarrow> mac_addr \<Rightarrow> ipv4_addr \<Rightarrow> ipv4_addr \<Rightarrow> bytes \<Rightarrow> bytes" where
  "phone_frame dst phone srv ip msg =
     ethernet_build dst phone ETHERTYPE_IPV4
       (build_udp \<lparr>ud_src_ip = srv, ud_dst_ip = ip, ud_src_port = SERVER_PORT, ud_dst_port = CLIENT_PORT, ud_payload = msg\<rparr> 0)"

lemma packet_decode_single:
  assumes "length f < 70000"
  shows "packet_decode (packet_append [] f 1) = Some [Inr f]"
proof -
  have "packet_len 1 f < 2 ^ 32" using packet_len_less [of 1 f] assms by simp
  then show ?thesis using packet_decode_msgs [of "[f]" 1 "[]"] by (simp add: packet_append_eq)
qed

lemma handle_frame_phone:
  assumes "length msg \<le> 65507" and "dst = rc_host_mac X \<or> is_multicast dst" and "dhcp_handle (rx_dhcp st) msg = Some (r, c)"
  shows "handle_frame X (phone_frame dst phone srv ip msg) st = Some (handle_dhcp_event X phone srv r (st\<lparr>rx_dhcp := c\<rparr>))"
proof -
  have "length (phone_frame dst phone srv ip msg) < 70000"
    using assms(1) by (simp add: phone_frame_def length_ethernet_build length_build_udp)
  from packet_decode_single [OF this] handle_transfer_phone [OF assms, of phone srv ip] show ?thesis
    by (simp add: handle_transfer_def phone_transfer_def phone_frame_def)
     (cases "handle_frame X (phone_frame dst phone srv ip msg) st"; simp add: phone_frame_def)
qed

lemma threads_go_on:
  assumes "session_run h clk E n V L w0 U S s0 (w\<lparr>wh_link := k\<rparr>) lg" and "link_step h device_deliver clk E n V k lg k' lg'"
  shows "session_run h clk E n V L w0 U S s0 (w\<lparr>wh_link := k'\<rparr>) lg'"
  using thread_steps [OF assms(1), of k' lg'] assms(2) by simp

text \<open>The receive thread takes a transfer of one frame, handles it and looks at its timer.\<close>

lemma session_receives:
  assumes "session_run h clk E n V L w0 U S s0 w lg" and "lk_pc (wh_link w) = RxWait"
    and "ie_wait E TICK (th_in (lk_rx (wh_link w))) = (Some (Inr data), ep)" and "packet_decode data = Some [Inr f]"
    and "handle_frame (link_context h device_deliver clk) f (lk_shared (wh_link w)) = Some st"
  obtains w' lg' where "session_run h clk E n V L w0 U S s0 w' lg'" "wh_pc w' = wh_pc w" "wh_session w' = wh_session w"
    "lk_pc (wh_link w') = RxWait" "th_in (lk_rx (wh_link w')) = ie_submit E n ep"
    "lk_shared (wh_link w') = rx_due (link_context h device_deliver clk) st"
    "lg_in lg' = lg_in lg @ [link_in.Received f]" "lg_taken lg' = lg_taken lg" "lk_reader (wh_link w') = lk_reader (wh_link w)"
proof -
  let ?X = "link_context h device_deliver clk" and ?k = "wh_link w"
  let ?th = "(lk_rx ?k)\<lparr>th_stalls := 0, th_in := ie_submit E n ep\<rparr>"
  define k1 where "k1 = ?k\<lparr>lk_rx := ?th, lk_pc := RxItems [Inr f]\<rparr>"
  define k2 where "k2 = lk_put st k1\<lparr>lk_pc := RxItems []\<rparr>"
  define k3 where "k3 = k2\<lparr>lk_pc := RxTimer\<rparr>"
  define k4 where "k4 = lk_put (rx_due ?X st) k3\<lparr>lk_pc := RxWait\<rparr>"
  have "rx_wait_step E n (lk_rx ?k) = Some (?th, RxItems [Inr f])"
    using assms(3,4) by (simp add: rx_wait_step_def Let_def)
  note r1 = thread_steps [OF assms(1) rx_waits [OF assms(2) this], folded k1_def]
  have "lk_pc k1 = RxItems (Inr f # [])" "handle_frame ?X f (lk_shared k1) = Some st"
    using assms(5) by (simp_all add: k1_def)
  note r2 = threads_go_on [OF r1 rx_frame [OF this], folded k2_def]
  have "lk_pc k2 = RxItems []" by (simp add: k2_def)
  note r3 = threads_go_on [OF r2 rx_transfer_done [OF this], folded k3_def]
  have "lk_pc k3 = RxTimer" "rx_due ?X st = rx_due ?X (lk_shared k3)" by (simp_all add: k3_def k2_def)
  note r4 = threads_go_on [OF r3 rx_timer [OF this], folded k4_def]
  show thesis by (rule that [OF r4]) (simp_all add: k4_def k3_def k2_def k1_def lk_put_def log_rx_def)
qed

subsection \<open>A session with a phone\<close>

text \<open>
  A bulk IN endpoint that completes the reads with a given script, and the script of a phone that
  offers and grants a lease and then sends a packet. The clock stands still.
\<close>

definition scripted :: "(nat \<times> bytes list) in_endpoint" where
  "scripted =
     \<lparr>ie_submit = \<lambda>n (p, q). (Suc p, q),
      ie_wait = \<lambda>d (p, q). (case (p, q) of (Suc p', data # q') \<Rightarrow> (Some (Inr data), (p', q')) | _ \<Rightarrow> (None, (p, q))),
      ie_pending = fst, ie_cancel_all = \<lambda>s. s, ie_clear_halt = \<lambda>s. (Inr (), s)\<rparr>"

lemma scripted_ok: "in_endpoint_ok scripted"
  by (auto simp: in_endpoint_ok_def scripted_def split: list.split nat.split list.splits nat.splits)

abbreviation demo_mac :: mac_addr where "demo_mac \<equiv> MacAddr 2 0 0 0 0 2"
abbreviation demo_phone_mac :: mac_addr where "demo_phone_mac \<equiv> MacAddr 2 0 0 0 0 9"
abbreviation demo_gateway :: ipv4_addr where "demo_gateway \<equiv> Ipv4Addr 192 168 42 129"

abbreviation demo_client :: dhcp_client where
  "demo_client \<equiv> snd (dhcp_discover (dhcp_new demo_mac (mac_xid demo_mac)))"

definition demo_reply :: "u8 \<Rightarrow> bytes" where
  "demo_reply t = server_reply demo_client t (Ipv4Addr 192 168 42 130)
     (server_options demo_gateway 3600 (Ipv4Addr 255 255 255 0) demo_gateway [])"

definition demo_packet :: bytes where "demo_packet = 0x45 # replicate 45 0"

definition demo_frame :: bytes where "demo_frame = ethernet_build demo_mac demo_phone_mac ETHERTYPE_IPV4 demo_packet"

definition demo_script :: "bytes list" where
  "demo_script =
     [phone_transfer MAC_BROADCAST demo_phone_mac demo_gateway IP_BROADCAST (demo_reply OFFER),
      phone_transfer MAC_BROADCAST demo_phone_mac demo_gateway IP_BROADCAST (demo_reply ACK),
      packet_append [] demo_frame 1]"

abbreviation demo_tunnel :: tunnel where
  "demo_tunnel \<equiv> \<lparr>tn_utun = \<lparr>ut_fd = 3, ut_name = ''utun0''\<rparr>, tn_lease = demo_lease, tn_routes = [''192.168.42.0/24''],
     tn_dns = [IPV4_KEY]\<rparr>"

lemma demo_frame_to_tunnel: "to_tunnel demo_mac demo_frame = Some demo_packet"
  by (simp add: demo_frame_def demo_packet_def to_tunnel_def ethernet_build_def) (code_simp)

lemma demo_packet_written: "utun_write demo_packet = Some ([0, 0, 0, 2] @ demo_packet)"
  by (simp add: demo_packet_def utun_write_def) (code_simp)

abbreviation demo_X :: "(utun \<times> bytes list) switchable_sink rx_context" where
  "demo_X \<equiv> link_context demo_mac device_deliver (\<lambda>_. 0)"

abbreviation demo_run :: "(demo_bus, sys_view, nat \<times> bytes list, nat) whole \<Rightarrow> (utun \<times> bytes list) link_log \<Rightarrow> bool" where
  "demo_run \<equiv> session_run demo_mac (\<lambda>_. 0) scripted 16384 prompt_env demo_limits 0 demo_usb demo_system
     (session_start demo_device 0 (Some status_default) demo_view)"

lemma rx_due_early:
  "0 < dt_next (rx_timer st) \<Longrightarrow> rx_due demo_X st = st\<lparr>rx_reads := Suc (Suc (rx_reads st))\<rparr>"
  by (simp add: rx_due_def rx_now_def timer_due_def)

lemma scripted_simps [simp]:
  "ie_submit scripted n (p, q) = (Suc p, q)" "ie_wait scripted d (Suc p, data # q) = (Some (Inr data), (p, q))"
  by (simp_all add: scripted_def)

lemma demo_reply_length: "length (demo_reply t) \<le> 65507"
  unfolding demo_reply_def by (rule le_trans [OF length_server_reply]) simp_all

lemma demo_decode:
  "packet_decode (phone_transfer MAC_BROADCAST demo_phone_mac demo_gateway IP_BROADCAST (demo_reply t)) =
     Some [Inr (phone_frame MAC_BROADCAST demo_phone_mac demo_gateway IP_BROADCAST (demo_reply t))]"
proof -
  have "length (phone_frame MAC_BROADCAST demo_phone_mac demo_gateway IP_BROADCAST (demo_reply t)) < 70000"
    using demo_reply_length [of t] by (simp add: phone_frame_def length_ethernet_build length_build_udp)
  from packet_decode_single [OF this] show ?thesis by (simp add: phone_transfer_def phone_frame_def)
qed

definition demo_requesting :: dhcp_client where
  "demo_requesting = demo_client\<lparr>dc_offered := Some (Ipv4Addr 192 168 42 130), dc_server_id := Some demo_gateway, dc_state := Requesting\<rparr>"

lemma demo_offer: "\<exists>req. dhcp_handle demo_client (demo_reply OFFER) = Some (Inr (EvSend req), demo_requesting)"
proof -
  have "dc_state demo_client = Selecting" by (simp add: dhcp_discover_def Let_def)
  from dhcp_offer_handled [OF this, of "[]" _ _ _ _ _ "[]"] show ?thesis
    by (simp add: demo_reply_def demo_requesting_def Let_def)
qed

lemma demo_ack: "\<exists>c. dhcp_handle demo_requesting (demo_reply ACK) = Some (Inr (EvBound demo_lease), c)"
  using dhcp_ack_handled [of demo_requesting "Ipv4Addr 192 168 42 130" "[]" demo_gateway 3600 "Ipv4Addr 255 255 255 0" demo_gateway "[]"]
  by (simp add: demo_reply_def server_reply_def demo_requesting_def IP_UNSPECIFIED_def)

lemma demo_receives:
  assumes "demo_run w lg" and "lk_pc (wh_link w) = RxWait"
    and "th_in (lk_rx (wh_link w)) = (16, phone_transfer MAC_BROADCAST demo_phone_mac demo_gateway IP_BROADCAST (demo_reply t) # q)"
    and "dhcp_handle (rx_dhcp (lk_shared (wh_link w))) (demo_reply t) = Some (r, c)"
  obtains w' lg' where "demo_run w' lg'" "wh_pc w' = wh_pc w" "wh_session w' = wh_session w" "lk_pc (wh_link w') = RxWait"
    "th_in (lk_rx (wh_link w')) = (16, q)" "lg_taken lg' = lg_taken lg"
    "lk_shared (wh_link w') = rx_due demo_X (handle_dhcp_event demo_X demo_phone_mac demo_gateway r ((lk_shared (wh_link w))\<lparr>rx_dhcp := c\<rparr>))"
proof -
  have "is_multicast MAC_BROADCAST" by (simp add: MAC_BROADCAST_def)
  then have f: "handle_frame demo_X (phone_frame MAC_BROADCAST demo_phone_mac demo_gateway IP_BROADCAST (demo_reply t)) (lk_shared (wh_link w))
      = Some (handle_dhcp_event demo_X demo_phone_mac demo_gateway r ((lk_shared (wh_link w))\<lparr>rx_dhcp := c\<rparr>))"
    by (intro handle_frame_phone [OF demo_reply_length _ assms(4)]) simp
  have "ie_wait scripted TICK (th_in (lk_rx (wh_link w))) =
      (Some (Inr (phone_transfer MAC_BROADCAST demo_phone_mac demo_gateway IP_BROADCAST (demo_reply t))), (15, q))"
    by (simp add: assms(3) scripted_def eval_nat_numeral)
  then show thesis
    by (rule session_receives [OF assms(1,2) _ demo_decode f]) (rule that, assumption, simp_all)
qed

lemma demo_session_lease:
  obtains w lg where "demo_run w lg" "wh_pc w = AtTop" "wh_session w = session_start demo_device 0 (Some status_default) demo_view"
    "lk_pc (wh_link w) = RxWait" "th_in (lk_rx (wh_link w)) = (16, [packet_append [] demo_frame 1])"
    "rx_events (lk_shared (wh_link w)) = [LinkBound demo_lease]" "rx_sink (lk_shared (wh_link w)) = sink_new"
    "0 < dt_next (rx_timer (lk_shared (wh_link w)))" "lg_taken lg = []"
proof -
  define k where "k = link_start demo_X scripted 16384 (0, demo_script) prompt_env demo_limits 0"
  let ?w = "\<lparr>wh_pc = AtTop, wh_session = session_start demo_device 0 (Some status_default) demo_view, wh_link = k\<rparr>"
  have "ie_pending scripted (0, demo_script) = 0" by (simp add: scripted_def)
  from begins [OF this k_def] have r0: "demo_run ?w (link_log_new k)" .
  have pend: "(ie_submit scripted n ^^ i) (p, q) = (i + p, q)" for i n p q by (induction i) simp_all
  have k: "lk_pc k = RxWait" "th_in (lk_rx k) = (16, demo_script)" "rx_dhcp (lk_shared k) = demo_client"
    "rx_events (lk_shared k) = []" "rx_sink (lk_shared k) = sink_new" "0 < dt_next (rx_timer (lk_shared k))"
    by (simp_all add: k_def link_start_def rx_start_def send_dhcp_def submit_reads_def RX_DEPTH_def pend timer_new_def
        DHCP_RETRY_MIN_def from_secs_def Let_def split: prod.split)
  obtain req where req: "dhcp_handle (rx_dhcp (lk_shared (wh_link ?w))) (demo_reply OFFER) = Some (Inr (EvSend req), demo_requesting)"
    using demo_offer k(3) by auto
  obtain w1 lg1 where w1: "demo_run w1 lg1" "wh_pc w1 = AtTop" "wh_session w1 = wh_session ?w" "lk_pc (wh_link w1) = RxWait"
    "th_in (lk_rx (wh_link w1)) = (16, tl demo_script)" "lg_taken lg1 = []"
    "lk_shared (wh_link w1) = rx_due demo_X (handle_dhcp_event demo_X demo_phone_mac demo_gateway (Inr (EvSend req)) ((lk_shared k)\<lparr>rx_dhcp := demo_requesting\<rparr>))"
    by (rule demo_receives [OF r0 _ _ req, of "tl demo_script"]) (use k(1,2) in \<open>simp_all add: demo_script_def link_log_new_def\<close>)
  have st1: "rx_dhcp (lk_shared (wh_link w1)) = demo_requesting" "rx_events (lk_shared (wh_link w1)) = []"
    "rx_sink (lk_shared (wh_link w1)) = sink_new"
    using k by (simp_all add: w1(7) rx_due_early handle_dhcp_event_def send_dhcp_def)
  then obtain c where ack: "dhcp_handle (rx_dhcp (lk_shared (wh_link w1))) (demo_reply ACK) = Some (Inr (EvBound demo_lease), c)"
    using demo_ack by auto
  obtain w2 lg2 where w2: "demo_run w2 lg2" "wh_pc w2 = AtTop" "wh_session w2 = wh_session ?w" "lk_pc (wh_link w2) = RxWait"
    "th_in (lk_rx (wh_link w2)) = (16, [packet_append [] demo_frame 1])" "lg_taken lg2 = []"
    "lk_shared (wh_link w2) = rx_due demo_X (handle_dhcp_event demo_X demo_phone_mac demo_gateway (Inr (EvBound demo_lease)) ((lk_shared (wh_link w1))\<lparr>rx_dhcp := c\<rparr>))"
    by (rule demo_receives [OF w1(1,4) _ ack, of "tl (tl demo_script)"]) (use w1(2-6) in \<open>simp_all add: demo_script_def\<close>)
  have "0 < le_renewal_time demo_lease" by (simp add: server_lease_def from_secs_def)
  with w2 st1 show thesis
    by (intro that [of w2 lg2]) (simp_all add: rx_due_early handle_dhcp_event_def rx_now_def timer_bound_def)
qed

lemma demo_session_tunnel:
  obtains w lg where "demo_run w lg" "wh_pc w = AtKeepalive" "ds_tunnel (wh_session w) = Some demo_tunnel"
    "ds_next_keepalive (wh_session w) = from_secs 10" "lk_pc (wh_link w) = RxWait"
    "th_in (lk_rx (wh_link w)) = (16, [packet_append [] demo_frame 1])"
    "sk_inner (rx_sink (lk_shared (wh_link w))) = Some (tn_utun demo_tunnel, [])" "0 < dt_next (rx_timer (lk_shared (wh_link w)))"
    "lg_taken lg = [LinkBound demo_lease]"
proof -
  obtain w lg where w: "demo_run w lg" "wh_pc w = AtTop" "wh_session w = session_start demo_device 0 (Some status_default) demo_view"
    "lk_pc (wh_link w) = RxWait" "th_in (lk_rx (wh_link w)) = (16, [packet_append [] demo_frame 1])"
    "rx_events (lk_shared (wh_link w)) = [LinkBound demo_lease]" "rx_sink (lk_shared (wh_link w)) = sink_new"
    "0 < dt_next (rx_timer (lk_shared (wh_link w)))" "lg_taken lg = []"
    by (rule demo_session_lease)
  define k where "k = lk_put ((lk_shared (wh_link w))\<lparr>rx_events := []\<rparr>) (wh_link w)"
  define w1 where "w1 = w\<lparr>wh_pc := AtEvent\<rparr>"
  define w2 where "w2 = w1\<lparr>wh_pc := AtBound demo_lease, wh_link := k\<rparr>"
  define w3 where "w3 = w2\<lparr>wh_pc := AtDetached demo_lease, wh_link := daemon_detach (wh_link w2)\<rparr>"
  define w4 where "w4 = w3\<lparr>wh_pc := AtDropped demo_lease, wh_session := drop_tunnel demo_system (wh_session w3),
    wh_link := (wh_link w3)\<lparr>lk_reader := None\<rparr>\<rparr>"
  note defs = w1_def w2_def w3_def w4_def k_def daemon_detach_def drop_tunnel_def session_start_def
  note r1 = daemon_steps [OF w(1) sleeps [OF w(2)], folded w1_def]
  have "daemon_take (wh_link w1) = (Some (LinkBound demo_lease), k)" "wh_pc w1 = AtEvent" "\<not> renews demo_lease (wh_session w1)"
    by (simp_all add: daemon_take_def w1_def k_def w renews_def session_start_def)
  note r2 = daemon_steps [OF r1 lease_new [OF this(2,1,3)], folded w2_def]
  have "wh_pc w2 = AtBound demo_lease" by (simp add: w2_def)
  note r3 = daemon_steps [OF r2 detaches [OF this], folded w3_def]
  have "wh_pc w3 = AtDetached demo_lease" by (simp add: w3_def)
  note r4 = daemon_steps [OF r3 drops_tunnel [OF this], folded w4_def]
  obtain y where y: "tunnel_up demo_system demo_lease demo_view = (Inr demo_tunnel, y)" using demo_up by blast
  have "wh_pc w4 = AtDropped demo_lease" "tunnel_up demo_system demo_lease (ds_sys (wh_session w4)) = (Inr demo_tunnel, y)"
    using y by (simp_all add: defs w(3))
  note r5 = daemon_steps [OF r4 tunnel_comes_up [OF this]]
  note r6 = daemon_steps [OF r5 attaches [of _ demo_tunnel]]
  show thesis
    by (rule that, rule r6)
      (simp_all add: defs w update_status_def daemon_attach_def sink_attach_def lg_took_def lg_sink_def KEEPALIVE_INTERVAL_def)
qed

lemma demo_session:
  obtains w lg where "demo_run w lg" "wh_pc w = AtTop" "ds_tunnel (wh_session w) = Some demo_tunnel"
    "sk_inner (rx_sink (lk_shared (wh_link w))) = Some (tn_utun demo_tunnel, [[0, 0, 0, 2] @ demo_packet])"
    "lg_taken lg = [LinkBound demo_lease]"
proof -
  obtain w lg where w: "demo_run w lg" "wh_pc w = AtKeepalive" "ds_tunnel (wh_session w) = Some demo_tunnel"
    "ds_next_keepalive (wh_session w) = from_secs 10" "lk_pc (wh_link w) = RxWait"
    "th_in (lk_rx (wh_link w)) = (16, [packet_append [] demo_frame 1])"
    "sk_inner (rx_sink (lk_shared (wh_link w))) = Some (tn_utun demo_tunnel, [])" "0 < dt_next (rx_timer (lk_shared (wh_link w)))"
    "lg_taken lg = [LinkBound demo_lease]"
    by (rule demo_session_tunnel)
  obtain st where st: "handle_frame demo_X demo_frame (lk_shared (wh_link w)) = Some st"
    using handle_frame_no_panic by blast
  have sink: "sk_inner (rx_sink st) = Some (tn_utun demo_tunnel, [[0, 0, 0, 2] @ demo_packet])"
    using handle_frame_sink [OF st] w(7) demo_packet_written
    by (simp add: demo_frame_to_tunnel sink_deliver_def device_deliver_def utun_sink_deliver_def)
  have "length demo_frame < 70000" by (simp add: demo_frame_def demo_packet_def length_ethernet_build)
  note dec = packet_decode_single [OF this]
  have "ie_wait scripted TICK (th_in (lk_rx (wh_link w))) = (Some (Inr (packet_append [] demo_frame 1)), (15, []))"
    by (simp add: w(6) scripted_def eval_nat_numeral)
  then obtain w1 lg1 where w1: "demo_run w1 lg1" "wh_pc w1 = AtKeepalive" "wh_session w1 = wh_session w"
    "lk_shared (wh_link w1) = rx_due demo_X st" "lg_taken lg1 = [LinkBound demo_lease]"
    by (rule session_receives [OF w(1,5) _ dec st]) (use w(2,9) in auto)
  have "0 < ds_next_keepalive (wh_session w1)" by (simp add: w1(3) w(4) from_secs_def)
  note r2 = daemon_steps [OF w1(1) not_due [OF w1(2) this]]
  show thesis by (rule that, rule r2) (simp_all add: w1 w sink)
qed

theorem session_threads_refine_witness:
  "\<exists>(w :: (demo_bus, sys_view, nat \<times> bytes list, nat) whole) turns ps x.
     session_loop demo_usb demo_system turns (session_start demo_device 0 (Some status_default) demo_view) = Some (None, x)
     \<and> session_now w = deliver_all ps x \<and> turn_events turns = [LinkBound demo_lease] \<and> ds_tunnel (wh_session w) = Some demo_tunnel"
proof -
  obtain w lg where w: "demo_run w lg" "wh_pc w = AtTop" "ds_tunnel (wh_session w) = Some demo_tunnel"
    "lg_taken lg = [LinkBound demo_lease]"
    by (rule demo_session)
  from session_threads_refine [OF w(1)] w(2-4) show ?thesis by (intro exI [of _ w]) auto
qed

theorem tunnel_and_threads_agree_witness:
  "\<exists>w lg. demo_run w lg \<and> wh_pc w = AtTop \<and> map_option fst (lk_reader (wh_link w)) = Some demo_gateway
     \<and> (\<exists>before frames. lg_in lg = before @ Attached (tn_utun demo_tunnel, []) # map link_in.Received frames
          \<and> [[0, 0, 0, 2] @ demo_packet] = List.map_filter utun_write (List.map_filter (to_tunnel demo_mac) frames))"
proof -
  obtain w lg where w: "demo_run w lg" "wh_pc w = AtTop" "ds_tunnel (wh_session w) = Some demo_tunnel"
    "sk_inner (rx_sink (lk_shared (wh_link w))) = Some (tn_utun demo_tunnel, [[0, 0, 0, 2] @ demo_packet])"
    by (rule demo_session)
  note agree = tunnel_and_threads_agree [OF scripted_ok w(1)]
  have "map_option fst (lk_reader (wh_link w)) = Some demo_gateway"
    using agree w(2,3) by (simp add: tunnel_of_def server_lease_def)
  with w(1,2) agree [THEN conjunct2, THEN conjunct2, rule_format, OF w(4)] show ?thesis by blast
qed


end
