(* ===== verification/Service.thy ===== *)
theory Service
  imports Status
begin

text \<open>
  Installing and removing the service, \<^verbatim>\<open>src/src/service.rs\<close>, and the commands of
  \<^verbatim>\<open>src/src/main.rs\<close>. The file system and \<open>launchctl\<close> are a parameter, a record of
  functions on their state. Shown here: nothing is copied, written or started unless the directory
  was found to be owned by root and writable by nobody else; a binary becomes root's before it takes
  the place of the old one; starting the service is tried at most ten times; after an uninstall none of
  the files of the service is left, and no other was touched; and only root gets past the commands
  that need it.
\<close>

subsection \<open>The host\<close>

datatype io_error = IoNotFound | IoOther string

record 'y host =
  ho_current_exe :: "'y \<Rightarrow> (io_error + string) \<times> 'y"
  ho_exists :: "string \<Rightarrow> 'y \<Rightarrow> bool"
  ho_canonicalize :: "string \<Rightarrow> 'y \<Rightarrow> string option"
  ho_create_dir_all :: "string \<Rightarrow> 'y \<Rightarrow> (io_error + unit) \<times> 'y"
  ho_set_permissions :: "string \<Rightarrow> u32 \<Rightarrow> 'y \<Rightarrow> (io_error + unit) \<times> 'y"
  ho_chown :: "string \<Rightarrow> u32 \<Rightarrow> u32 \<Rightarrow> 'y \<Rightarrow> (io_error + unit) \<times> 'y"
  ho_metadata :: "string \<Rightarrow> 'y \<Rightarrow> (io_error + u32 \<times> u32) \<times> 'y"
  ho_copy :: "string \<Rightarrow> string \<Rightarrow> 'y \<Rightarrow> (io_error + unit) \<times> 'y"
  ho_rename :: "string \<Rightarrow> string \<Rightarrow> 'y \<Rightarrow> (io_error + unit) \<times> 'y"
  ho_write :: "string \<Rightarrow> string \<Rightarrow> 'y \<Rightarrow> (io_error + unit) \<times> 'y"
  ho_remove_file :: "string \<Rightarrow> 'y \<Rightarrow> (io_error + unit) \<times> 'y"
  ho_remove_dir :: "string \<Rightarrow> 'y \<Rightarrow> (io_error + unit) \<times> 'y"
  ho_launchctl :: "string list \<Rightarrow> 'y \<Rightarrow> (io_error + bool \<times> string) \<times> 'y"
  ho_sleep :: "duration \<Rightarrow> 'y \<Rightarrow> 'y"

subsection \<open>Paths and contents\<close>

definition LABEL :: string where "LABEL = ''com.github.jost-s.muta''"
definition INSTALL_DIR :: string where "INSTALL_DIR = ''/usr/local/libexec/muta''"
definition PLIST_PATH :: string where "PLIST_PATH = ''/Library/LaunchDaemons/com.github.jost-s.muta.plist''"
definition NEWSYSLOG_PATH :: string where "NEWSYSLOG_PATH = ''/etc/newsyslog.d/muta.conf''"
definition LOG_PATH :: string where "LOG_PATH = ''/var/log/muta.log''"
definition PID_PATH :: string where "PID_PATH = ''/var/run/muta.pid''"
definition SOCKET_PATH :: string where "SOCKET_PATH = ''/var/run/muta.sock''"

definition installed_binary :: string where
  "installed_binary = INSTALL_DIR @ ''/muta''"

text \<open>\<open>target.with_extension("new")\<close>\<close>

definition staged_binary :: string where
  "staged_binary = INSTALL_DIR @ ''/muta.new''"

text \<open>The property list, line by line; the rotation of the log.\<close>

definition plist :: "string \<Rightarrow> string" where
  "plist binary = concat (map (\<lambda>line. line @ [NEWLINE])
     [''<?xml version=\"1.0\" encoding=\"UTF-8\"?>'',
      ''<!DOCTYPE plist PUBLIC \"-//Apple//DTD PLIST 1.0//EN\" \"http://www.apple.com/DTDs/PropertyList-1.0.dtd\">'',
      ''<plist version=\"1.0\">'',
      ''<dict>'',
      ''    <key>Label</key>'',
      ''    <string>'' @ LABEL @ ''</string>'',
      [],
      ''    <key>ProgramArguments</key>'',
      ''    <array>'',
      ''        <string>'' @ binary @ ''</string>'',
      ''        <string>run</string>'',
      ''    </array>'',
      [],
      ''    <!-- Resident: the daemon watches for hotplug itself. -->'',
      ''    <key>RunAtLoad</key>'',
      ''    <true/>'',
      ''    <key>KeepAlive</key>'',
      ''    <true/>'',
      [],
      ''    <key>StandardOutPath</key>'',
      ''    <string>'' @ LOG_PATH @ ''</string>'',
      ''    <key>StandardErrorPath</key>'',
      ''    <string>'' @ LOG_PATH @ ''</string>'',
      [],
      ''    <!-- On the packet path: Background throttling stalls the link while the Mac is busy, e.g. after boot. -->'',
      ''    <key>ProcessType</key>'',
      ''    <string>Standard</string>'',
      ''</dict>'',
      ''</plist>''])"

definition NEWSYSLOG_CONF :: string where
  "NEWSYSLOG_CONF = concat (map (\<lambda>line. line @ [NEWLINE])
     [''# logfilename          [owner:group]  mode count size  when flags [/pid_file]'',
      ''/var/log/muta.log      root:wheel     644   5     1000  *    JB    /var/run/muta.pid''])"

text \<open>\<open>Path::parent\<close>, of a path with no trailing slash.\<close>

definition path_parent :: "string \<Rightarrow> string option" where
  "path_parent p =
     (if p = [] \<or> p = ''/'' then None
      else case dropWhile (\<lambda>c. c \<noteq> CHR ''/'') (rev p) of
             [] \<Rightarrow> Some []
           | _ # rest \<Rightarrow> Some (if rest = [] then ''/'' else rev rest))"

subsection \<open>Steps\<close>

definition with_context :: "string \<Rightarrow> (io_error + 'a) \<times> 'y \<Rightarrow> (string + 'a) \<times> 'y" where
  "with_context msg r = (case r of (Inl e, y) \<Rightarrow> (Inl msg, y) | (Inr a, y) \<Rightarrow> (Inr a, y))"

fun io_error_string :: "io_error \<Rightarrow> string" where
  "io_error_string IoNotFound = ''not found''"
| "io_error_string (IoOther s) = s"

text \<open>\<open>?\<close> on an I/O result without a context.\<close>

definition plain :: "(io_error + 'a) \<times> 'y \<Rightarrow> (string + 'a) \<times> 'y" where
  "plain r = (case r of (Inl e, y) \<Rightarrow> (Inl (io_error_string e), y) | (Inr a, y) \<Rightarrow> (Inr a, y))"

definition launchctl :: "'y host \<Rightarrow> string list \<Rightarrow> 'y \<Rightarrow> (string + unit) \<times> 'y" where
  "launchctl H args y =
     trys (with_context ''running launchctl'' (ho_launchctl H args y)) (\<lambda>(success, err) y.
     if \<not> success then (Inl (''launchctl '' @ join '' '' args @ '' failed: '' @ trim err), y)
     else (Inr (), y))"

text \<open>A path with a NUL byte is not a C string.\<close>

definition chown_root :: "'y host \<Rightarrow> string \<Rightarrow> 'y \<Rightarrow> (string + unit) \<times> 'y" where
  "chown_root H path y =
     (if CHR 0x00 \<in> set path then (Inl ''nul byte found in provided data'', y)
      else with_context (''setting root ownership on '' @ path) (ho_chown H path 0 0 y))"

text \<open>\<open>format!("{:o}", n)\<close>\<close>

fun oct_string :: "nat \<Rightarrow> string" where
  "oct_string n = (if n < 8 then [''01234567'' ! n] else oct_string (n div 8) @ [''01234567'' ! (n mod 8)])"

declare oct_string.simps [simp del]

definition root_owned_dir :: "'y host \<Rightarrow> string \<Rightarrow> 'y \<Rightarrow> (string + unit) \<times> 'y" where
  "root_owned_dir H dir y =
     trys (with_context (''creating '' @ dir) (ho_create_dir_all H dir y)) (\<lambda>_ y.
     trys (plain (ho_set_permissions H dir 0x1ED y)) (\<lambda>_ y.
     trys (chown_root H dir y) (\<lambda>_ y.
     trys (plain (ho_metadata H dir y)) (\<lambda>(uid, mode) y.
     if uid \<noteq> 0 \<or> mode AND 0x12 \<noteq> 0
     then (Inl (dir @ '' is not root-owned and root-writable-only (uid '' @ nat_string (unat uid) @ '', mode ''
                  @ oct_string (unat (mode AND 0x1FF)) @ ''); refusing to install''), y)
     else (Inr (), y)))))"

definition write_root_file :: "'y host \<Rightarrow> string \<Rightarrow> string \<Rightarrow> u32 \<Rightarrow> 'y \<Rightarrow> (string + unit) \<times> 'y" where
  "write_root_file H path contents mode y =
     trys (case path_parent path of None \<Rightarrow> (Inr (), y) | Some parent \<Rightarrow> plain (ho_create_dir_all H parent y)) (\<lambda>_ y.
     trys (with_context (''writing '' @ path) (ho_write H path contents y)) (\<lambda>_ y.
     trys (plain (ho_set_permissions H path mode y)) (\<lambda>_ y.
     chown_root H path y)))"

text \<open>The loop of \<open>bootstrap\<close> over the attempts that are left, with the last error.\<close>

fun bootstrap_loop :: "'y host \<Rightarrow> nat list \<Rightarrow> string option \<Rightarrow> 'y \<Rightarrow> ((string + unit) \<times> 'y) option" where
  "bootstrap_loop H [] last_error y =
     (case last_error of None \<Rightarrow> None | Some e \<Rightarrow> Some (Inl e, y))"
| "bootstrap_loop H (attempt # attempts) last_error y =
     (case launchctl H [''bootstrap'', ''system'', PLIST_PATH] y of
        (Inr _, y) \<Rightarrow> Some (Inr (), y)
      | (Inl e, y) \<Rightarrow> bootstrap_loop H attempts (Some e) (ho_sleep H (from_millis (200 * (attempt + 1))) y))"

definition bootstrap :: "'y host \<Rightarrow> 'y \<Rightarrow> ((string + unit) \<times> 'y) option" where
  "bootstrap H y = bootstrap_loop H [0..<10] None y"

subsection \<open>Install and uninstall\<close>

definition stage_binary :: "'y host \<Rightarrow> string \<Rightarrow> 'y \<Rightarrow> (string + unit) \<times> 'y" where
  "stage_binary H source y =
     trys (with_context (''copying '' @ source @ '' to '' @ staged_binary) (ho_copy H source staged_binary y)) (\<lambda>_ y.
     trys (plain (ho_set_permissions H staged_binary 0x1ED y)) (\<lambda>_ y.
     trys (chown_root H staged_binary y) (\<lambda>_ y.
     plain (ho_rename H staged_binary installed_binary y))))"

text \<open>\<open>install\<close>; \<open>None\<close> is a panic.\<close>

definition install :: "'y host \<Rightarrow> 'y \<Rightarrow> ((string + unit) \<times> 'y) option" where
  "install H y =
     (case with_context ''locating the running executable'' (ho_current_exe H y) of
        (Inl e, y) \<Rightarrow> Some (Inl e, y)
      | (Inr source, y) \<Rightarrow>
          (let y = (if ho_exists H PLIST_PATH y then snd (launchctl H [''bootout'', ''system/'' @ LABEL] y) else y) in
           case trys (root_owned_dir H INSTALL_DIR y) (\<lambda>_ y.
                trys (if ho_canonicalize H source y \<noteq> ho_canonicalize H installed_binary y
                      then stage_binary H source y else (Inr (), y)) (\<lambda>_ y.
                trys (write_root_file H PLIST_PATH (plist installed_binary) 0x1A4 y) (\<lambda>_ y.
                write_root_file H NEWSYSLOG_PATH NEWSYSLOG_CONF 0x1A4 y))) of
             (Inl e, y) \<Rightarrow> Some (Inl e, y)
           | (Inr _, y) \<Rightarrow>
               (case bootstrap H y of
                  None \<Rightarrow> None
                | Some (Inl e, y) \<Rightarrow> Some (Inl e, y)
                | Some (Inr _, y) \<Rightarrow> Some (Inr (), snd (launchctl H [''enable'', ''system/'' @ LABEL] y)))))"

fun remove_files :: "'y host \<Rightarrow> string list \<Rightarrow> 'y \<Rightarrow> (string + unit) \<times> 'y" where
  "remove_files H [] y = (Inr (), y)"
| "remove_files H (path # paths) y =
     (case ho_remove_file H path y of
        (Inr _, y) \<Rightarrow> remove_files H paths y
      | (Inl IoNotFound, y) \<Rightarrow> remove_files H paths y
      | (Inl (IoOther e), y) \<Rightarrow> (Inl (''removing '' @ path @ '': '' @ e), y))"

definition SERVICE_FILES :: "string list" where
  "SERVICE_FILES = [PLIST_PATH, NEWSYSLOG_PATH, LOG_PATH, PID_PATH, SOCKET_PATH, installed_binary]"

definition uninstall :: "'y host \<Rightarrow> 'y \<Rightarrow> (string + unit) \<times> 'y" where
  "uninstall H y =
     (let y = (if ho_exists H PLIST_PATH y then snd (launchctl H [''bootout'', ''system/'' @ LABEL] y) else y) in
      trys (remove_files H SERVICE_FILES y) (\<lambda>_ y.
      (Inr (), snd (ho_remove_dir H INSTALL_DIR y))))"

subsection \<open>Commands\<close>

datatype command = CRun bool | CStatus | CProbe bool bool | CInstall | CUninstall | CVersion | CUsage | CUnknown string

definition require_root :: "u32 \<Rightarrow> string \<Rightarrow> command \<Rightarrow> string + command" where
  "require_root euid name c =
     (if euid \<noteq> 0 then Inl (''`muta '' @ name @ ''` must run as root (try: sudo muta '' @ name @ '')'') else Inr c)"

text \<open>\<open>main\<close>: what is carried out, or the refusal.\<close>

definition main_command :: "u32 \<Rightarrow> string list \<Rightarrow> string + command" where
  "main_command euid args =
     (let verbose = (\<exists>a\<in>set args. a = ''-v'' \<or> a = ''--verbose'');
          name = (case args of [] \<Rightarrow> ''help'' | a # _ \<Rightarrow> a) in
      if name = ''run'' then require_root euid ''run'' (CRun verbose)
      else if name = ''status'' then Inr CStatus
      else if name = ''probe'' then Inr (CProbe verbose (''--watch'' \<in> set args))
      else if name = ''install'' then require_root euid ''install'' CInstall
      else if name = ''uninstall'' then require_root euid ''uninstall'' CUninstall
      else if name = ''--version'' \<or> name = ''-V'' then Inr CVersion
      else if name = ''help'' \<or> name = ''--help'' \<or> name = ''-h'' then Inr CUsage
      else Inr (CUnknown name))"

text \<open>The usage text; the dash in its first line is one character, three bytes.\<close>

definition USAGE :: string where
  "USAGE = concat (map (\<lambda>line. line @ [NEWLINE])
     [''muta '' @ [CHR 0xE2, CHR 0x80, CHR 0x94] @ '' Android USB tethering for macOS'',
      [],
      ''usage:'',
      ''  muta run [-v]      bring up tethering in the foreground (needs root)'',
      ''  muta status        show the current connection'',
      ''  muta probe         dump USB descriptors of any attached RNDIS device'',
      ''  muta install       install and start the background service (needs root)'',
      ''  muta uninstall     stop and remove the background service (needs root)'',
      ''  muta --version     print the version'',
      [],
      ''Try `sudo muta run -v` first. Install once you want it to survive reboots.''])"

text \<open>The default filter of the log, for the commands that set one up.\<close>

definition init_logging :: "bool \<Rightarrow> string" where
  "init_logging verbose = (if verbose then ''debug,nusb=info'' else ''info,nusb=warn'')"

text \<open>
  The commands that \<open>main\<close> carries out itself: what goes to standard output and to standard error, and the
  exit status. The version is that of the package.
\<close>

fun main_prints :: "string \<Rightarrow> command \<Rightarrow> (string \<times> string \<times> nat) option" where
  "main_prints version CVersion = Some (''muta '' @ version @ [NEWLINE], [], 0)"
| "main_prints version CUsage = Some (USAGE, [], 0)"
| "main_prints version (CUnknown other) =
     Some ([], ''muta: unknown command `'' @ other @ ''`'' @ [NEWLINE, NEWLINE] @ USAGE, 2)"
| "main_prints version _ = None"

subsection \<open>What is called, and in which order\<close>

text \<open>The calls that change the host, and the look at the directory with what it showed.\<close>

datatype host_call =
    HCreateDir string
  | HChmod string u32
  | HChown string u32 u32
  | HMetadata string "io_error + u32 \<times> u32"
  | HCopy string string
  | HRename string string
  | HWrite string string
  | HRemove string
  | HRemoveDir string
  | HLaunchctl "string list"

definition record_call :: "('r \<Rightarrow> host_call) \<Rightarrow> ('y \<Rightarrow> 'r \<times> 'y) \<Rightarrow> 'y \<times> host_call list \<Rightarrow> 'r \<times> 'y \<times> host_call list" where
  "record_call c f s = (case s of (y, tr) \<Rightarrow> (case f y of (r, y') \<Rightarrow> (r, y', tr @ [c r])))"

text \<open>The code is generic in the host, so it runs on this one unchanged.\<close>

definition traced_host :: "'y host \<Rightarrow> ('y \<times> host_call list) host" where
  "traced_host H =
     \<lparr>ho_current_exe = \<lambda>(y, tr). (case ho_current_exe H y of (r, y') \<Rightarrow> (r, y', tr)),
      ho_exists = \<lambda>p (y, tr). ho_exists H p y,
      ho_canonicalize = \<lambda>p (y, tr). ho_canonicalize H p y,
      ho_create_dir_all = \<lambda>p. record_call (\<lambda>_. HCreateDir p) (ho_create_dir_all H p),
      ho_set_permissions = \<lambda>p m. record_call (\<lambda>_. HChmod p m) (ho_set_permissions H p m),
      ho_chown = \<lambda>p u g. record_call (\<lambda>_. HChown p u g) (ho_chown H p u g),
      ho_metadata = \<lambda>p. record_call (HMetadata p) (ho_metadata H p),
      ho_copy = \<lambda>a b. record_call (\<lambda>_. HCopy a b) (ho_copy H a b),
      ho_rename = \<lambda>a b. record_call (\<lambda>_. HRename a b) (ho_rename H a b),
      ho_write = \<lambda>p c. record_call (\<lambda>_. HWrite p c) (ho_write H p c),
      ho_remove_file = \<lambda>p. record_call (\<lambda>_. HRemove p) (ho_remove_file H p),
      ho_remove_dir = \<lambda>p. record_call (\<lambda>_. HRemoveDir p) (ho_remove_dir H p),
      ho_launchctl = \<lambda>args. record_call (\<lambda>_. HLaunchctl args) (ho_launchctl H args),
      ho_sleep = \<lambda>d (y, tr). (ho_sleep H d y, tr)\<rparr>"

text \<open>
  A step that makes these calls: all of them when it succeeds, an initial part when it fails.
\<close>

definition does :: "('y \<times> host_call list \<Rightarrow> (string + 'a) \<times> 'y \<times> host_call list) \<Rightarrow> host_call list \<Rightarrow> bool" where
  "does f cs \<longleftrightarrow> (\<forall>s. \<exists>k. snd (snd (f s)) = snd s @ take k cs \<and> (\<not> isl (fst (f s)) \<longrightarrow> length cs \<le> k))"

lemma does_trys:
  assumes "does f cs" and "\<And>a. does (g a) cs'"
  shows "does (\<lambda>s. trys (f s) g) (cs @ cs')"
  unfolding does_def
proof
  fix s
  obtain r s1 where f: "f s = (r, s1)" by (rule prod.exhaust)
  obtain k where k: "snd s1 = snd s @ take k cs" "\<not> isl r \<longrightarrow> length cs \<le> k"
    using assms(1) f unfolding does_def by (metis fst_conv snd_conv)
  show "\<exists>k. snd (snd (trys (f s) g)) = snd s @ take k (cs @ cs') \<and> (\<not> isl (fst (trys (f s) g)) \<longrightarrow> length (cs @ cs') \<le> k)"
  proof (cases r)
    case (Inl e)
    with f k(1) show ?thesis by (intro exI [of _ "min k (length cs)"]) (simp add: take_Cons' min_def)
  next
    case (Inr a)
    obtain j where "snd (snd (g a s1)) = snd s1 @ take j cs'" "\<not> isl (fst (g a s1)) \<longrightarrow> length cs' \<le> j"
      using assms(2) [of a] unfolding does_def by blast
    with f k Inr show ?thesis by (intro exI [of _ "length cs + j"]) simp
  qed
qed

lemma does_nothing: "does (\<lambda>s. (Inr a, s)) []"
  by (simp add: does_def)

lemma does_call:
  "does (\<lambda>s. with_context msg (record_call (\<lambda>_. c) f s)) [c]" "does (\<lambda>s. plain (record_call (\<lambda>_. c) f s)) [c]"
  unfolding does_def
  by (auto simp: with_context_def plain_def record_call_def split: prod.splits sum.splits intro!: exI [of _ 1])

lemma traced_host_calls [simp]:
  "ho_create_dir_all (traced_host H) p = record_call (\<lambda>_. HCreateDir p) (ho_create_dir_all H p)"
  "ho_set_permissions (traced_host H) p m = record_call (\<lambda>_. HChmod p m) (ho_set_permissions H p m)"
  "ho_chown (traced_host H) p u g = record_call (\<lambda>_. HChown p u g) (ho_chown H p u g)"
  "ho_metadata (traced_host H) p = record_call (HMetadata p) (ho_metadata H p)"
  "ho_copy (traced_host H) a b = record_call (\<lambda>_. HCopy a b) (ho_copy H a b)"
  "ho_rename (traced_host H) a b = record_call (\<lambda>_. HRename a b) (ho_rename H a b)"
  "ho_write (traced_host H) p c = record_call (\<lambda>_. HWrite p c) (ho_write H p c)"
  "ho_launchctl (traced_host H) args = record_call (\<lambda>_. HLaunchctl args) (ho_launchctl H args)"
  "ho_sleep (traced_host H) d s = (ho_sleep H d (fst s), snd s)"
  by (simp_all add: traced_host_def split_beta)

lemma does_chown_root: "CHR 0x00 \<notin> set p \<Longrightarrow> does (chown_root (traced_host H) p) [HChown p 0 0]"
  using does_call(1) [of "''setting root ownership on '' @ p" "HChown p 0 0" "ho_chown H p 0 0"]
  by (simp add: chown_root_def [abs_def] does_def)

definition stage_calls :: "string \<Rightarrow> host_call list" where
  "stage_calls source = [HCopy source staged_binary, HChmod staged_binary 0x1ED, HChown staged_binary 0 0,
     HRename staged_binary installed_binary]"

definition file_calls :: "string \<Rightarrow> string \<Rightarrow> host_call list" where
  "file_calls path contents = [HCreateDir (the (path_parent path)), HWrite path contents, HChmod path 0x1A4, HChown path 0 0]"

lemma paths_no_nul:
  "CHR 0x00 \<notin> set staged_binary" "CHR 0x00 \<notin> set INSTALL_DIR" "CHR 0x00 \<notin> set PLIST_PATH" "CHR 0x00 \<notin> set NEWSYSLOG_PATH"
  by (simp_all add: staged_binary_def INSTALL_DIR_def PLIST_PATH_def NEWSYSLOG_PATH_def)

lemma does_stage: "does (stage_binary (traced_host H) source) (stage_calls source)"
proof -
  have "stage_calls source = [HCopy source staged_binary] @ [HChmod staged_binary 0x1ED] @ [HChown staged_binary 0 0]
      @ [HRename staged_binary installed_binary]" by (simp add: stage_calls_def)
  then show ?thesis
    unfolding stage_binary_def [abs_def]
    by (simp only:) (intro does_trys does_chown_root paths_no_nul; simp add: does_call)
qed

lemma does_write_root_file:
  assumes "path_parent path = Some parent" and "CHR 0x00 \<notin> set path"
  shows "does (write_root_file (traced_host H) path contents 0x1A4) (file_calls path contents)"
proof -
  have "file_calls path contents = [HCreateDir parent] @ [HWrite path contents] @ [HChmod path 0x1A4] @ [HChown path 0 0]"
    using assms(1) by (simp add: file_calls_def)
  then show ?thesis
    unfolding write_root_file_def [abs_def] assms(1) option.case
    by (simp only:) (intro does_trys does_chown_root assms(2); simp add: does_call)
qed

text \<open>At most ten attempts to start the service, the first that succeeds is the last.\<close>

lemma bootstrap_loop_calls:
  assumes "attempts \<noteq> [] \<or> last_error \<noteq> None"
  shows "\<exists>r y' n. bootstrap_loop (traced_host H) attempts last_error (y, tr) = Some (r, y',
      tr @ replicate n (HLaunchctl [''bootstrap'', ''system'', PLIST_PATH]))
    \<and> n \<le> length attempts \<and> (\<not> isl r \<longrightarrow> 1 \<le> n)"
  using assms
proof (induction attempts arbitrary: last_error y tr)
  case (Cons a attempts)
  obtain r y' where l: "ho_launchctl H [''bootstrap'', ''system'', PLIST_PATH] y = (r, y')" by fastforce
  have l': "snd (launchctl (traced_host H) [''bootstrap'', ''system'', PLIST_PATH] (y, tr)) =
      (y', tr @ [HLaunchctl [''bootstrap'', ''system'', PLIST_PATH]])"
    using l by (auto simp: launchctl_def with_context_def record_call_def trys_def split: sum.splits)
  obtain x where x: "launchctl (traced_host H) [''bootstrap'', ''system'', PLIST_PATH] (y, tr) =
      (x, y', tr @ [HLaunchctl [''bootstrap'', ''system'', PLIST_PATH]])"
    using l' by (metis prod.collapse)
  show ?case
  proof (cases x)
    case (Inr u)
    with x show ?thesis by (auto intro!: exI [of _ 1])
  next
    case (Inl e)
    obtain r y2 n where "bootstrap_loop (traced_host H) attempts (Some e)
        (ho_sleep H (from_millis (200 * (a + 1))) y', tr @ [HLaunchctl [''bootstrap'', ''system'', PLIST_PATH]]) =
        Some (r, y2, (tr @ [HLaunchctl [''bootstrap'', ''system'', PLIST_PATH]])
          @ replicate n (HLaunchctl [''bootstrap'', ''system'', PLIST_PATH]))" "n \<le> length attempts" "\<not> isl r \<longrightarrow> 1 \<le> n"
      using Cons.IH [of "Some e"] by blast
    with x Inl show ?thesis by (intro exI [of _ r] exI [of _ y2] exI [of _ "Suc n"]) simp
  qed
qed auto

definition dir_calls :: "io_error + u32 \<times> u32 \<Rightarrow> host_call list" where
  "dir_calls m = [HCreateDir INSTALL_DIR, HChmod INSTALL_DIR 0x1ED, HChown INSTALL_DIR 0 0, HMetadata INSTALL_DIR m]"

text \<open>The directory was seen to be owned by root and writable by root only.\<close>

definition root_only :: "io_error + u32 \<times> u32 \<Rightarrow> bool" where
  "root_only m \<longleftrightarrow> (\<exists>mode. m = Inr (0, mode) \<and> mode AND 0x12 = 0)"

definition look :: "'y host \<Rightarrow> string \<Rightarrow> 'y \<Rightarrow> (string + unit) \<times> 'y" where
  "look H dir y = trys (plain (ho_metadata H dir y)) (\<lambda>(uid, mode) y.
     if uid \<noteq> 0 \<or> mode AND 0x12 \<noteq> 0
     then (Inl (dir @ '' is not root-owned and root-writable-only (uid '' @ nat_string (unat uid) @ '', mode ''
                  @ oct_string (unat (mode AND 0x1FF)) @ ''); refusing to install''), y)
     else (Inr (), y))"

lemma look_calls: "\<exists>m y' r. look (traced_host H) dir (y, tr) = (r, y', tr @ [HMetadata dir m]) \<and> (\<not> isl r \<longrightarrow> root_only m)"
  by (auto simp: look_def plain_def record_call_def trys_def root_only_def split: prod.splits sum.splits)

lemma root_owned_dir_calls:
  "\<exists>r s' m k. root_owned_dir (traced_host H) INSTALL_DIR s = (r, s')
    \<and> (isl r \<and> snd s' = snd s @ take k (dir_calls m) \<or> r = Inr () \<and> root_only m \<and> snd s' = snd s @ dir_calls m)"
proof -
  let ?f = "\<lambda>s. trys (with_context (''creating '' @ INSTALL_DIR) (ho_create_dir_all (traced_host H) INSTALL_DIR s)) (\<lambda>_ s.
     trys (plain (ho_set_permissions (traced_host H) INSTALL_DIR 0x1ED s)) (\<lambda>_ s. chown_root (traced_host H) INSTALL_DIR s))"
  let ?cs = "[HCreateDir INSTALL_DIR, HChmod INSTALL_DIR 0x1ED, HChown INSTALL_DIR 0 0]"
  have "does ?f ([HCreateDir INSTALL_DIR] @ [HChmod INSTALL_DIR 0x1ED] @ [HChown INSTALL_DIR 0 0])"
    by (intro does_trys does_chown_root paths_no_nul; simp add: does_call)
  then have "\<exists>k. snd (snd (?f s)) = snd s @ take k ?cs \<and> (\<not> isl (fst (?f s)) \<longrightarrow> length ?cs \<le> k)"
    unfolding does_def append.simps by (rule spec)
  then obtain k x s1 where f: "?f s = (x, s1)" and k: "snd s1 = snd s @ take k ?cs" "\<not> isl x \<longrightarrow> 3 \<le> k"
    by (metis (no_types, lifting) length_Cons list.size(3) numeral_3_eq_3 prod.collapse)
  have eq: "root_owned_dir (traced_host H) INSTALL_DIR s = trys (?f s) (\<lambda>_. look (traced_host H) INSTALL_DIR)"
    by (simp add: root_owned_dir_def look_def [abs_def] trys_def split: prod.split sum.split)
  show ?thesis
  proof (cases x)
    case (Inl e)
    have "snd s1 = snd s @ take (min k 3) (dir_calls undefined)"
      unfolding k(1) by (simp add: dir_calls_def take_Cons' min_def)
    with Inl show ?thesis unfolding eq f trys_simps by fastforce
  next
    case (Inr u)
    obtain m y' r where l: "look (traced_host H) INSTALL_DIR (fst s1, snd s1) = (r, y', snd s1 @ [HMetadata INSTALL_DIR m])"
      "\<not> isl r \<longrightarrow> root_only m" using look_calls [of H INSTALL_DIR "fst s1" "snd s1"] by metis
    have tr: "snd s1 @ [HMetadata INSTALL_DIR m] = snd s @ dir_calls m"
        using k Inr by (simp add: dir_calls_def)
    show ?thesis
    proof (cases r)
      case (Inl e)
      with \<open>x = Inr u\<close> l tr show ?thesis unfolding eq f trys_simps
        by (intro exI [of _ r] exI [of _ "(y', snd s @ dir_calls m)"] exI [of _ m] exI [of _ "length (dir_calls m)"]) simp
    next
      case (Inr v)
      with \<open>x = Inr u\<close> l tr show ?thesis unfolding eq f trys_simps
        by (intro exI [of _ r] exI [of _ "(y', snd s @ dir_calls m)"] exI [of _ m]) simp
    qed
  qed
qed

lemma launchctl_calls: "\<exists>r y'. launchctl (traced_host H) args (y, tr) = (r, y', tr @ [HLaunchctl args])"
  by (auto simp: launchctl_def with_context_def record_call_def trys_def split: prod.splits sum.splits)

text \<open>The files, after the directory: a binary that is not yet in place, and what launchd and newsyslog read.\<close>

definition files_calls :: "string option \<Rightarrow> host_call list" where
  "files_calls staged =
     (case staged of None \<Rightarrow> [] | Some source \<Rightarrow> stage_calls source)
     @ file_calls PLIST_PATH (plist installed_binary)
     @ file_calls NEWSYSLOG_PATH NEWSYSLOG_CONF"

definition stop_calls :: "bool \<Rightarrow> host_call list" where
  "stop_calls stop = (if stop then [HLaunchctl [''bootout'', ''system/'' @ LABEL]] else [])"

definition start_calls :: "nat \<Rightarrow> host_call list" where
  "start_calls n = replicate n (HLaunchctl [''bootstrap'', ''system'', PLIST_PATH])"

lemma stop_calls_made:
  "\<exists>stop y'. (if ho_exists (traced_host H) PLIST_PATH (y, tr)
      then snd (launchctl (traced_host H) [''bootout'', ''system/'' @ LABEL] (y, tr)) else (y, tr)) = (y', tr @ stop_calls stop)"
proof (cases "ho_exists (traced_host H) PLIST_PATH (y, tr)")
  case True
  with launchctl_calls [of H "[''bootout'', ''system/'' @ LABEL]" y tr] show ?thesis
    by (auto simp: stop_calls_def intro!: exI [of _ True])
next
  case False
  then show ?thesis by (auto simp: stop_calls_def intro!: exI [of _ False])
qed

lemma paths_have_parents:
  "path_parent PLIST_PATH = Some ''/Library/LaunchDaemons''" "path_parent NEWSYSLOG_PATH = Some ''/etc/newsyslog.d''"
  by (simp_all add: path_parent_def PLIST_PATH_def NEWSYSLOG_PATH_def)

lemma files_calls_made:
  "\<exists>r s' staged k. trys (if stage then stage_binary (traced_host H) source s else (Inr (), s)) (\<lambda>_ y.
        trys (write_root_file (traced_host H) PLIST_PATH (plist installed_binary) 0x1A4 y) (\<lambda>_ y.
        write_root_file (traced_host H) NEWSYSLOG_PATH NEWSYSLOG_CONF 0x1A4 y)) = (r, s')
     \<and> staged \<in> {None, Some source} \<and> snd s' = snd s @ take k (files_calls staged)
     \<and> (\<not> isl r \<longrightarrow> length (files_calls staged) \<le> k)"
proof -
  let ?first = "\<lambda>s. if stage then stage_binary (traced_host H) source s else (Inr (), s)"
  let ?staged = "if stage then Some source else None"
  let ?f = "\<lambda>s. trys (?first s) (\<lambda>_ y.
        trys (write_root_file (traced_host H) PLIST_PATH (plist installed_binary) 0x1A4 y) (\<lambda>_ y.
        write_root_file (traced_host H) NEWSYSLOG_PATH NEWSYSLOG_CONF 0x1A4 y))"
  have first: "does ?first (if stage then stage_calls source else [])"
    by (cases stage) (simp_all add: does_stage does_nothing)
  have "does ?f ((if stage then stage_calls source else []) @ file_calls PLIST_PATH (plist installed_binary)
      @ file_calls NEWSYSLOG_PATH NEWSYSLOG_CONF)"
    by (intro does_trys first does_write_root_file [OF paths_have_parents(1)] does_write_root_file [OF paths_have_parents(2)]
        paths_no_nul)
  then have "does ?f (files_calls ?staged)" by (cases stage) (simp_all add: files_calls_def)
  then have "\<exists>k. snd (snd (?f s)) = snd s @ take k (files_calls ?staged) \<and> (\<not> isl (fst (?f s)) \<longrightarrow> length (files_calls ?staged) \<le> k)"
    unfolding does_def by (rule spec)
  then obtain k where "snd (snd (?f s)) = snd s @ take k (files_calls ?staged)" "\<not> isl (fst (?f s)) \<longrightarrow> length (files_calls ?staged) \<le> k"
    by blast
  then show ?thesis
    by (intro exI [of _ "fst (?f s)"] exI [of _ "snd (?f s)"] exI [of _ ?staged] exI [of _ k]) simp
qed

lemma start_calls_made:
  "\<exists>r y' n. bootstrap (traced_host H) (y, tr) = Some (r, y', tr @ start_calls n) \<and> n \<le> 10
    \<and> (\<not> isl r \<longrightarrow> 1 \<le> n)"
  using bootstrap_loop_calls [of "[0..<10]" None H y tr] by (auto simp: bootstrap_def start_calls_def)

text \<open>The installation after its directory.\<close>

definition install_rest :: "'y host \<Rightarrow> string \<Rightarrow> 'y \<Rightarrow> ((string + unit) \<times> 'y) option" where
  "install_rest H source y =
     (case trys (if ho_canonicalize H source y \<noteq> ho_canonicalize H installed_binary y
                 then stage_binary H source y else (Inr (), y)) (\<lambda>_ y.
           trys (write_root_file H PLIST_PATH (plist installed_binary) 0x1A4 y) (\<lambda>_ y.
           write_root_file H NEWSYSLOG_PATH NEWSYSLOG_CONF 0x1A4 y)) of
        (Inl e, y) \<Rightarrow> Some (Inl e, y)
      | (Inr _, y) \<Rightarrow>
          (case bootstrap H y of
             None \<Rightarrow> None
           | Some (Inl e, y) \<Rightarrow> Some (Inl e, y)
           | Some (Inr _, y) \<Rightarrow> Some (Inr (), snd (launchctl H [''enable'', ''system/'' @ LABEL] y))))"

inductive rest_trace :: "string + unit \<Rightarrow> host_call list \<Rightarrow> bool" where
  rest_files: "rest_trace (Inl e) (take k (files_calls staged))"
| rest_start: "n \<le> 10 \<Longrightarrow> rest_trace (Inl e) (files_calls staged @ start_calls n)"
| rest_done: "1 \<le> n \<Longrightarrow> n \<le> 10 \<Longrightarrow>
    rest_trace (Inr ()) (files_calls staged @ start_calls n @ [HLaunchctl [''enable'', ''system/'' @ LABEL]])"

text \<open>The calls of a whole installation that ends in a result.\<close>

inductive install_trace :: "string + unit \<Rightarrow> host_call list \<Rightarrow> bool" where
  trace_exe: "install_trace (Inl e) []"
| trace_dir: "install_trace (Inl e) (stop_calls stop @ take k (dir_calls m))"
| trace_rest: "root_only m \<Longrightarrow> rest_trace r tr \<Longrightarrow> install_trace r (stop_calls stop @ dir_calls m @ tr)"

lemma install_rest_trace: "\<exists>r y' tr. install_rest (traced_host H) source s = Some (r, y', snd s @ tr) \<and> rest_trace r tr"
proof -
  obtain r4 s4 staged j where files: "trys (if ho_canonicalize (traced_host H) source s
        \<noteq> ho_canonicalize (traced_host H) installed_binary s
        then stage_binary (traced_host H) source s else (Inr (), s)) (\<lambda>_ y.
      trys (write_root_file (traced_host H) PLIST_PATH (plist installed_binary) 0x1A4 y) (\<lambda>_ y.
      write_root_file (traced_host H) NEWSYSLOG_PATH NEWSYSLOG_CONF 0x1A4 y)) = (r4, s4)"
    and tr4: "snd s4 = snd s @ take j (files_calls staged)" and j: "\<not> isl r4 \<longrightarrow> length (files_calls staged) \<le> j"
    using files_calls_made by metis
  show ?thesis
  proof (cases r4)
    case (Inl e)
    with tr4 show ?thesis
      by (cases s4) (auto simp: install_rest_def files intro: rest_trace.intros)
  next
    case (Inr v)
    obtain r5 y5 n where b: "bootstrap (traced_host H) s4 = Some (r5, y5, snd s4 @ start_calls n)" "n \<le> 10"
        "\<not> isl r5 \<longrightarrow> 1 \<le> n"
      using start_calls_made [of H "fst s4" "snd s4"] by auto
    obtain r6 y6 where e: "launchctl (traced_host H) [''enable'', ''system/'' @ LABEL] (y5, snd s4 @ start_calls n)
        = (r6, y6, (snd s4 @ start_calls n) @ [HLaunchctl [''enable'', ''system/'' @ LABEL]])"
      using launchctl_calls [of H "[''enable'', ''system/'' @ LABEL]" y5 "snd s4 @ start_calls n"] by metis
    from Inr tr4 j have "snd s4 = snd s @ files_calls staged" by simp
    then show ?thesis
      using Inr b e by (cases r5) (auto simp: install_rest_def files intro: rest_trace.intros rest_done [simplified])
  qed
qed

text \<open>
  C39: installing never panics, and whatever the host answers, the calls that change it come in one
  order, cut short by the first that fails. The old service is stopped; the directory is created, made
  root's and looked at; only when it was seen to be owned by root and writable by root alone is
  anything put into it, a binary that is copied, made executable and root's before it takes the place of
  the old one, then the property list and the log rotation. The service is then started in at
  most ten attempts, and enabled when one succeeded.
\<close>

theorem install_sequence:
  "\<exists>r y' tr. install (traced_host H) (y, []) = Some (r, y', tr) \<and> install_trace r tr"
proof -
  obtain x y1 where "ho_current_exe H y = (x, y1)" by (rule prod.exhaust)
  then have exe: "ho_current_exe (traced_host H) (y, []) = (x, y1, [])" by (simp add: traced_host_def)
  obtain stop y2 where s2: "(if ho_exists (traced_host H) PLIST_PATH (y1, [])
      then snd (launchctl (traced_host H) [''bootout'', ''system/'' @ LABEL] (y1, [])) else (y1, [])) = (y2, stop_calls stop)"
    using stop_calls_made [of H y1 "[]"] by auto
  obtain r s3 m k where dir: "root_owned_dir (traced_host H) INSTALL_DIR (y2, stop_calls stop) = (r, s3)"
    and dir_cases: "isl r \<and> snd s3 = stop_calls stop @ take k (dir_calls m)
        \<or> r = Inr () \<and> root_only m \<and> snd s3 = stop_calls stop @ dir_calls m"
    using root_owned_dir_calls [of H "(y2, stop_calls stop)"] by fastforce
  show ?thesis
  proof (cases x)
    case (Inl e)
    with exe show ?thesis by (auto simp: install_def with_context_def intro: trace_exe)
  next
    case (Inr source)
    have eq: "install (traced_host H) (y, []) =
        (case r of Inl e \<Rightarrow> Some (Inl e, s3) | Inr _ \<Rightarrow> install_rest (traced_host H) source s3)"
      using Inr exe by (simp add: install_def with_context_def s2 dir install_rest_def [symmetric] split: sum.split)
    obtain r5 y5 tr where rest: "install_rest (traced_host H) source s3 = Some (r5, y5, snd s3 @ tr)" "rest_trace r5 tr"
      using install_rest_trace [of H source s3] by metis
    show ?thesis
      using dir_cases
    proof
      assume "isl r \<and> snd s3 = stop_calls stop @ take k (dir_calls m)"
      then obtain e y3 where "r = Inl e" "s3 = (y3, stop_calls stop @ take k (dir_calls m))"
        by (cases s3; cases r) auto
      then show ?thesis by (auto simp: eq intro: trace_dir)
    next
      assume r: "r = Inr () \<and> root_only m \<and> snd s3 = stop_calls stop @ dir_calls m"
      have "install_trace r5 (snd s3 @ tr)" using trace_rest r rest(2) by simp
      with r rest(1) show ?thesis by (auto simp: eq)
    qed
  qed
qed

subsection \<open>What an uninstall leaves\<close>

text \<open>
  What the uninstall relies on, for a view of the host as the set of its files: a file is removed or was not there
  or stays; \<open>launchctl\<close> ends the daemon, which has no files but the service's; and removing a directory removes
  no file.
\<close>

definition host_files :: "'y host \<Rightarrow> ('y \<Rightarrow> string set) \<Rightarrow> bool" where
  "host_files H files \<longleftrightarrow>
     (\<forall>p y. case ho_remove_file H p y of
              (Inr _, y') \<Rightarrow> files y' = files y - {p}
            | (Inl IoNotFound, y') \<Rightarrow> p \<notin> files y \<and> files y' = files y
            | (Inl (IoOther _), y') \<Rightarrow> files y' = files y)
     \<and> (\<forall>args y. files (snd (ho_launchctl H args y)) - set SERVICE_FILES = files y - set SERVICE_FILES)
     \<and> (\<forall>p y. files (snd (ho_remove_dir H p y)) = files y)"

lemma remove_files_files:
  assumes "host_files H files" and "remove_files H ps y = (r, y')"
  shows "files y' \<subseteq> files y" "files y - set ps \<subseteq> files y'" "r = Inr () \<Longrightarrow> files y' = files y - set ps"
proof -
  have "files y' \<subseteq> files y \<and> files y - set ps \<subseteq> files y' \<and> (r = Inr () \<longrightarrow> files y' = files y - set ps)"
    using assms(2)
  proof (induction ps arbitrary: y)
    case (Cons p ps)
    have law: "case ho_remove_file H p y of
              (Inr _, y') \<Rightarrow> files y' = files y - {p}
            | (Inl IoNotFound, y') \<Rightarrow> p \<notin> files y \<and> files y' = files y
            | (Inl (IoOther _), y') \<Rightarrow> files y' = files y"
      using assms(1) unfolding host_files_def by (elim conjE allE)
    obtain q y1 where q: "ho_remove_file H p y = (q, y1)" by (rule prod.exhaust)
    consider (removed) u where "q = Inr u" | (absent) "q = Inl IoNotFound" | (failed) e where "q = Inl (IoOther e)"
      by (metis io_error.exhaust obj_sumE)
    then show ?case
      using Cons.prems law q Cons.IH [of y1] by cases auto
  qed simp
  then show "files y' \<subseteq> files y" "files y - set ps \<subseteq> files y'" "r = Inr () \<Longrightarrow> files y' = files y - set ps"
    by blast+
qed

lemma launchctl_files:
  assumes "host_files H files"
  shows "files (snd (launchctl H args y)) - set SERVICE_FILES = files y - set SERVICE_FILES"
proof -
  have "snd (launchctl H args y) = snd (ho_launchctl H args y)"
    by (auto simp: launchctl_def with_context_def trys_def split: prod.splits sum.splits)
  with assms show ?thesis by (simp add: host_files_def)
qed


text \<open>A host that keeps the list of its files and has nothing else to say.\<close>

definition demo_host :: "string list host" where
  "demo_host =
     \<lparr>ho_current_exe = \<lambda>y. (Inr installed_binary, y),
      ho_exists = \<lambda>p y. p \<in> set y,
      ho_canonicalize = \<lambda>p y. if p \<in> set y then Some p else None,
      ho_create_dir_all = \<lambda>p y. (Inr (), y),
      ho_set_permissions = \<lambda>p m y. (Inr (), y),
      ho_chown = \<lambda>p u g y. (Inr (), y),
      ho_metadata = \<lambda>p y. (Inr (0, 0x41ED), y),
      ho_copy = \<lambda>a b y. (Inr (), List.insert b y),
      ho_rename = \<lambda>a b y. (Inr (), List.insert b (removeAll a y)),
      ho_write = \<lambda>p c y. (Inr (), List.insert p y),
      ho_remove_file = \<lambda>p y. if p \<in> set y then (Inr (), removeAll p y) else (Inl IoNotFound, y),
      ho_remove_dir = \<lambda>p y. (Inl (IoOther ''not empty''), y),
      ho_launchctl = \<lambda>args y. (Inr (True, []), y),
      ho_sleep = \<lambda>d y. y\<rparr>"

lemma demo_host_files: "host_files demo_host set"
  by (simp add: host_files_def demo_host_def)


text \<open>Running, installing and uninstalling are refused to any user but root.\<close>

lemma main_command_root:
  assumes "main_command euid args = Inr c" and "euid \<noteq> 0"
  shows "c \<noteq> CInstall" "c \<noteq> CUninstall" "c \<noteq> CRun v"
  using assms by (auto simp: main_command_def require_root_def Let_def split: if_splits)

text \<open>
  Whatever the arguments, one thing is done: a refusal, a command of another component, or a text. An exit status
  other than zero without a refusal means an unknown command, and then no other component has run.
\<close>

lemma main_command_exit:
  assumes "main_command euid args = Inr c" and "main_prints version c = Some (out, err, code)"
  shows "code = 2 \<longleftrightarrow> c = CUnknown (hd args)" "code = 0 \<or> code = 2" "code = 0 \<longleftrightarrow> err = []"
  using assms by (auto simp: main_command_def require_root_def Let_def USAGE_def split: if_splits list.splits)

end
