(* ===== verification/Signals.thy ===== *)
theory Signals
  imports Service
begin

text \<open>
  The process and its signals, \<^verbatim>\<open>src/src/signals.rs\<close>, and the log rotation of
  \<^verbatim>\<open>src/src/service.rs\<close>. The system calls are a parameter: the host of the service with the
  calls on descriptors added. Shown here: reopening the log moves standard output and standard error to
  the file that the log's path names and leaks no descriptor, whichever call fails; a rotation is
  followed; and which signals the daemon survives, which ask it to stop, and which one kills it.
\<close>

subsection \<open>The process\<close>

type_synonym fd = int
type_synonym file_id = "u64 \<times> u64"

abbreviation STDOUT_FILENO :: fd where "STDOUT_FILENO \<equiv> 1"
abbreviation STDERR_FILENO :: fd where "STDERR_FILENO \<equiv> 2"

datatype open_flag = O_WRONLY | O_APPEND | O_CREAT

text \<open>
  The calls on descriptors, as the C library has them (a negative value is a failure), the metadata
  (device and inode) of an open file and of a path, and what the status server needs of sockets and threads.
\<close>

record 'y os = "'y host" +
  os_open :: "string \<Rightarrow> open_flag list \<Rightarrow> u32 \<Rightarrow> 'y \<Rightarrow> fd \<times> 'y"
  os_dup2 :: "fd \<Rightarrow> fd \<Rightarrow> 'y \<Rightarrow> int \<times> 'y"
  os_close :: "fd \<Rightarrow> 'y \<Rightarrow> int \<times> 'y"
  os_try_clone :: "fd \<Rightarrow> 'y \<Rightarrow> (io_error + fd) \<times> 'y"
  os_fstat :: "fd \<Rightarrow> 'y \<Rightarrow> (io_error + file_id) \<times> 'y"
  os_stat :: "string \<Rightarrow> 'y \<Rightarrow> (io_error + file_id) \<times> 'y"
  os_pid :: "'y \<Rightarrow> nat"
  os_bind :: "string \<Rightarrow> 'y \<Rightarrow> (io_error + unit) \<times> 'y"
  os_set_nonblocking :: "'y \<Rightarrow> (io_error + unit) \<times> 'y"
  os_spawn :: "'y \<Rightarrow> (io_error + unit) \<times> 'y"

datatype signal = SIGHUP | SIGINT | SIGPIPE | SIGTERM

text \<open>The two handlers of the source are \<open>handler\<close> and \<open>reopen_log\<close>.\<close>

datatype disposition = SIG_DFL | SIG_IGN | HandlerShutdown | HandlerReopenLog

text \<open>What the kernel keeps of the process, the static \<open>SHUTDOWN\<close>, and the rest of the system.\<close>

record 'y process =
  pc_disposition :: "signal \<Rightarrow> disposition"
  pc_shutdown :: bool
  pc_alive :: bool
  pc_os :: 'y

subsection \<open>Signals\<close>

definition signals_install :: "'y process \<Rightarrow> 'y process" where
  "signals_install p =
     p\<lparr>pc_disposition := (pc_disposition p)(SIGINT := HandlerShutdown, SIGTERM := HandlerShutdown, SIGPIPE := SIG_IGN)\<rparr>"

definition handler :: "'y process \<Rightarrow> 'y process" where
  "handler p = p\<lparr>pc_shutdown := True\<rparr>"

definition requested :: "'y process \<Rightarrow> bool" where
  "requested p = pc_shutdown p"

definition reopen_log_on_hangup :: "'y process \<Rightarrow> 'y process" where
  "reopen_log_on_hangup p = p\<lparr>pc_disposition := (pc_disposition p)(SIGHUP := HandlerReopenLog)\<rparr>"

definition reopen_log :: "'y os \<Rightarrow> 'y \<Rightarrow> 'y" where
  "reopen_log OS y =
     (case os_open OS LOG_PATH [O_WRONLY, O_APPEND, O_CREAT] 0x1A4 y of
        (fd, y) \<Rightarrow>
          if 0 \<le> fd then
            (case os_dup2 OS fd STDOUT_FILENO y of
               (_, y) \<Rightarrow> (case os_dup2 OS fd STDERR_FILENO y of (_, y) \<Rightarrow> snd (os_close OS fd y)))
          else y)"

text \<open>
  The arrival of a signal. The default of all four is to end the process; a handler stays installed,
  as \<open>signal\<close> on macOS has it.
\<close>

definition signal_arrives :: "'y os \<Rightarrow> signal \<Rightarrow> 'y process \<Rightarrow> 'y process" where
  "signal_arrives OS sig p =
     (if pc_alive p then
        (case pc_disposition p sig of
           SIG_DFL \<Rightarrow> p\<lparr>pc_alive := False\<rparr>
         | SIG_IGN \<Rightarrow> p
         | HandlerShutdown \<Rightarrow> handler p
         | HandlerReopenLog \<Rightarrow> p\<lparr>pc_os := reopen_log OS (pc_os p)\<rparr>)
      else p)"

subsection \<open>The log of the service\<close>

text \<open>The clone of standard error is closed at the end of the function.\<close>

definition stderr_is_log :: "'y os \<Rightarrow> 'y \<Rightarrow> bool \<times> 'y" where
  "stderr_is_log OS y =
     (case os_try_clone OS STDERR_FILENO y of
        (Inl e, y) \<Rightarrow> (False, y)
      | (Inr stderr, y) \<Rightarrow>
          (case os_fstat OS stderr y of
             (a, y) \<Rightarrow>
               (case os_stat OS LOG_PATH y of
                  (b, y) \<Rightarrow>
                    ((case (a, b) of (Inr a, Inr b) \<Rightarrow> a = b | _ \<Rightarrow> False), snd (os_close OS stderr y)))))"

definition follow_log_rotation :: "'y os \<Rightarrow> 'y process \<Rightarrow> bool \<times> 'y process" where
  "follow_log_rotation OS p =
     (case stderr_is_log OS (pc_os p) of
        (False, y) \<Rightarrow> (False, p\<lparr>pc_os := y\<rparr>)
      | (True, y) \<Rightarrow>
          (True, (reopen_log_on_hangup p)
                   \<lparr>pc_os := snd (ho_write OS PID_PATH (nat_string (os_pid OS y) @ [NEWLINE]) y)\<rparr>))"

definition release_log :: "'y os \<Rightarrow> 'y \<Rightarrow> 'y" where
  "release_log OS y = snd (ho_remove_file OS PID_PATH y)"

subsection \<open>What the calls do\<close>

text \<open>The open descriptors, and the files that the paths name.\<close>

record proc_view =
  pv_fds :: "fd \<Rightarrow> file_id option"
  pv_names :: "string \<Rightarrow> file_id option"

text \<open>A call that opens a descriptor for the file \<open>i\<close> takes a free one.\<close>

definition opens_fd :: "('y \<Rightarrow> proc_view) \<Rightarrow> file_id \<Rightarrow> fd \<Rightarrow> 'y \<Rightarrow> 'y \<Rightarrow> bool" where
  "opens_fd v i fd y y' \<longleftrightarrow> 0 \<le> fd \<and> pv_fds (v y) fd = None \<and> pv_fds (v y') = (pv_fds (v y))(fd \<mapsto> i)"

text \<open>
  What the calls are documented to do: \<open>open\<close> gives a free descriptor of the file the path names, which it
  may create; \<open>dup2\<close> makes a descriptor refer to the file of another; \<open>close\<close> frees one; a call that
  fails changes nothing; and writing a file leaves no descriptor open.
\<close>

definition open_ok :: "'y os \<Rightarrow> ('y \<Rightarrow> proc_view) \<Rightarrow> bool" where
  "open_ok OS v \<longleftrightarrow> (\<forall>p fl m y. case os_open OS p fl m y of
     (fd, y') \<Rightarrow> (fd < 0 \<and> v y' = v y)
       \<or> (\<exists>i. opens_fd v i fd y y' \<and> pv_names (v y') = (pv_names (v y))(p \<mapsto> i)
              \<and> (\<forall>j. pv_names (v y) p = Some j \<longrightarrow> i = j)))"

definition dup2_ok :: "'y os \<Rightarrow> ('y \<Rightarrow> proc_view) \<Rightarrow> bool" where
  "dup2_ok OS v \<longleftrightarrow> (\<forall>a b y. case os_dup2 OS a b y of
     (r, y') \<Rightarrow> (r < 0 \<and> v y' = v y)
       \<or> (r = b \<and> (\<exists>i. pv_fds (v y) a = Some i \<and> v y' = (v y)\<lparr>pv_fds := (pv_fds (v y))(b \<mapsto> i)\<rparr>)))"

definition clone_ok :: "'y os \<Rightarrow> ('y \<Rightarrow> proc_view) \<Rightarrow> bool" where
  "clone_ok OS v \<longleftrightarrow> (\<forall>a y. case os_try_clone OS a y of
     (Inl e, y') \<Rightarrow> v y' = v y
   | (Inr fd, y') \<Rightarrow> \<exists>i. pv_fds (v y) a = Some i \<and> opens_fd v i fd y y' \<and> pv_names (v y') = pv_names (v y))"

definition stat_ok :: "'y os \<Rightarrow> ('y \<Rightarrow> proc_view) \<Rightarrow> bool" where
  "stat_ok OS v \<longleftrightarrow>
     (\<forall>a y. v (snd (os_fstat OS a y)) = v y \<and> (\<forall>i. fst (os_fstat OS a y) = Inr i \<longrightarrow> pv_fds (v y) a = Some i))
     \<and> (\<forall>p y. v (snd (os_stat OS p y)) = v y \<and> (\<forall>i. fst (os_stat OS p y) = Inr i \<longrightarrow> pv_names (v y) p = Some i))"

definition os_ok :: "'y os \<Rightarrow> ('y \<Rightarrow> proc_view) \<Rightarrow> bool" where
  "os_ok OS v \<longleftrightarrow> open_ok OS v \<and> dup2_ok OS v \<and> clone_ok OS v \<and> stat_ok OS v
     \<and> (\<forall>a y. v (snd (os_close OS a y)) = (v y)\<lparr>pv_fds := (pv_fds (v y))(a := None)\<rparr>)
     \<and> (\<forall>p c y. pv_fds (v (snd (ho_write OS p c y))) = pv_fds (v y))"

lemma os_open_law:
  assumes "os_ok OS v" and "os_open OS p fl m y = (fd, y')"
  shows "(fd < 0 \<and> v y' = v y) \<or> (\<exists>i. opens_fd v i fd y y' \<and> pv_names (v y') = (pv_names (v y))(p \<mapsto> i))"
proof -
  have "open_ok OS v" using assms(1) by (simp add: os_ok_def)
  then show ?thesis unfolding open_ok_def using assms(2) by (elim allE [of _ p] allE [of _ fl] allE [of _ m] allE [of _ y]) auto
qed

lemma os_dup2_law:
  assumes "os_ok OS v" and "os_dup2 OS a b y = (r, y')"
  shows "(r < 0 \<and> v y' = v y)
    \<or> (r = b \<and> (\<exists>i. pv_fds (v y) a = Some i \<and> v y' = (v y)\<lparr>pv_fds := (pv_fds (v y))(b \<mapsto> i)\<rparr>))"
proof -
  have "dup2_ok OS v" using assms(1) by (simp add: os_ok_def)
  then show ?thesis unfolding dup2_ok_def using assms(2) by (elim allE [of _ a] allE [of _ b] allE [of _ y]) simp
qed

lemma os_try_clone_law:
  assumes "os_ok OS v"
  shows "os_try_clone OS a y = (Inl e, y') \<Longrightarrow> v y' = v y"
    and "os_try_clone OS a y = (Inr fd, y') \<Longrightarrow>
      \<exists>i. pv_fds (v y) a = Some i \<and> opens_fd v i fd y y' \<and> pv_names (v y') = pv_names (v y)"
proof -
  have "clone_ok OS v" using assms(1) by (simp add: os_ok_def)
  then show "os_try_clone OS a y = (Inl e, y') \<Longrightarrow> v y' = v y"
    and "os_try_clone OS a y = (Inr fd, y') \<Longrightarrow>
      \<exists>i. pv_fds (v y) a = Some i \<and> opens_fd v i fd y y' \<and> pv_names (v y') = pv_names (v y)"
    unfolding clone_ok_def by (elim allE [of _ a] allE [of _ y], simp)+
qed

lemma os_view_law:
  assumes "os_ok OS v"
  shows "v (snd (os_fstat OS a y)) = v y" and "fst (os_fstat OS a y) = Inr i \<Longrightarrow> pv_fds (v y) a = Some i"
    and "v (snd (os_stat OS p y)) = v y" and "fst (os_stat OS p y) = Inr i \<Longrightarrow> pv_names (v y) p = Some i"
    and "v (snd (os_close OS a y)) = (v y)\<lparr>pv_fds := (pv_fds (v y))(a := None)\<rparr>"
    and "pv_fds (v (snd (ho_write OS p c y))) = pv_fds (v y)"
  using assms by (simp_all add: os_ok_def stat_ok_def del: split_paired_All)

subsection \<open>Reopening the log\<close>

text \<open>No call of \<open>reopen_log\<close> fails.\<close>

definition reopen_succeeds :: "'y os \<Rightarrow> 'y \<Rightarrow> bool" where
  "reopen_succeeds OS y =
     (case os_open OS LOG_PATH [O_WRONLY, O_APPEND, O_CREAT] 0x1A4 y of
        (fd, y) \<Rightarrow> 0 \<le> fd \<and> (case os_dup2 OS fd STDOUT_FILENO y of
          (r, y) \<Rightarrow> 0 \<le> r \<and> 0 \<le> fst (os_dup2 OS fd STDERR_FILENO y)))"

definition fds_besides :: "proc_view \<Rightarrow> fd \<Rightarrow> file_id option" where
  "fds_besides w = (pv_fds w)(STDOUT_FILENO := None, STDERR_FILENO := None)"

text \<open>
  The standard descriptors are open before and after, everything else is as it was, and they refer to the log
  when no call failed.
\<close>

definition std_open :: "proc_view \<Rightarrow> bool" where
  "std_open w \<longleftrightarrow> pv_fds w STDOUT_FILENO \<noteq> None \<and> pv_fds w STDERR_FILENO \<noteq> None"

definition std_to_log :: "proc_view \<Rightarrow> bool" where
  "std_to_log w \<longleftrightarrow> pv_names w LOG_PATH \<noteq> None
     \<and> pv_fds w STDOUT_FILENO = pv_names w LOG_PATH \<and> pv_fds w STDERR_FILENO = pv_names w LOG_PATH"

lemma reopen_log_view:
  assumes ok: "os_ok OS v" and std: "std_open (v y)"
  shows "std_open (v (reopen_log OS y))" and "fds_besides (v (reopen_log OS y)) = fds_besides (v y)"
    and "reopen_succeeds OS y \<Longrightarrow> std_to_log (v (reopen_log OS y))"
proof -
  obtain fd y1 where o: "os_open OS LOG_PATH [O_WRONLY, O_APPEND, O_CREAT] 0x1A4 y = (fd, y1)" by (rule prod.exhaust)
  obtain r1 y2 where d1: "os_dup2 OS fd STDOUT_FILENO y1 = (r1, y2)" by (rule prod.exhaust)
  obtain r2 y3 where d2: "os_dup2 OS fd STDERR_FILENO y2 = (r2, y3)" by (rule prod.exhaust)
  note o_law = os_open_law [OF ok o] and d1_law = os_dup2_law [OF ok d1] and d2_law = os_dup2_law [OF ok d2]
  have "std_open (v (reopen_log OS y)) \<and> fds_besides (v (reopen_log OS y)) = fds_besides (v y)
      \<and> (reopen_succeeds OS y \<longrightarrow> std_to_log (v (reopen_log OS y)))"
  proof (cases "0 \<le> fd")
    case False
    with o o_law std show ?thesis by (auto simp: reopen_log_def reopen_succeeds_def opens_fd_def)
  next
    case True
    with o_law obtain i where i: "pv_fds (v y) fd = None" "pv_fds (v y1) = (pv_fds (v y))(fd \<mapsto> i)"
      "pv_names (v y1) = (pv_names (v y))(LOG_PATH \<mapsto> i)" by (auto simp: opens_fd_def)
    with std have fd: "fd \<noteq> STDOUT_FILENO" "fd \<noteq> STDERR_FILENO" by (auto simp: std_open_def)
    have eq: "v (reopen_log OS y) = (v y3)\<lparr>pv_fds := (pv_fds (v y3))(fd := None)\<rparr>"
      using True by (simp add: reopen_log_def o d1 d2 os_view_law(5) [OF ok])
    have s: "reopen_succeeds OS y \<longleftrightarrow> 0 \<le> r1 \<and> 0 \<le> r2" using True by (simp add: reopen_succeeds_def o d1 d2)
    show ?thesis
      using d1_law d2_law i fd std unfolding eq s std_open_def std_to_log_def
      by (elim disjE) (auto simp: fds_besides_def fun_eq_iff)
  qed
  then show "std_open (v (reopen_log OS y))" and "fds_besides (v (reopen_log OS y)) = fds_besides (v y)"
    and "reopen_succeeds OS y \<Longrightarrow> std_to_log (v (reopen_log OS y))" by blast+
qed

lemma stderr_is_log_view:
  assumes ok: "os_ok OS v" and r: "stderr_is_log OS y = (b, y')"
  shows "v y' = v y" and "b \<Longrightarrow> pv_names (v y) LOG_PATH \<noteq> None \<and> pv_fds (v y) STDERR_FILENO = pv_names (v y) LOG_PATH"
proof -
  obtain c y1 where c: "os_try_clone OS STDERR_FILENO y = (c, y1)" by (rule prod.exhaust)
  have "v y' = v y \<and> (b \<longrightarrow> pv_names (v y) LOG_PATH \<noteq> None \<and> pv_fds (v y) STDERR_FILENO = pv_names (v y) LOG_PATH)"
  proof (cases c)
    case (Inl e)
    with r c os_try_clone_law(1) [OF ok] show ?thesis by (auto simp: stderr_is_log_def)
  next
    case (Inr fd)
    obtain i where i: "pv_fds (v y) STDERR_FILENO = Some i" "pv_fds (v y) fd = None" "pv_fds (v y1) = (pv_fds (v y))(fd \<mapsto> i)"
      "pv_names (v y1) = pv_names (v y)"
      using os_try_clone_law(2) [OF ok] c Inr unfolding opens_fd_def by blast
    obtain a y2 where a: "os_fstat OS fd y1 = (a, y2)" by (rule prod.exhaust)
    obtain n y3 where n: "os_stat OS LOG_PATH y2 = (n, y3)" by (rule prod.exhaust)
    have views: "v y2 = v y1" "v y3 = v y1"
      using os_view_law(1) [OF ok, of fd y1] os_view_law(3) [OF ok, of LOG_PATH y2] a n by simp_all
    have ai: "a = Inr j \<Longrightarrow> j = i" for j using os_view_law(2) [OF ok, of fd y1 j] a i by simp
    have nj: "n = Inr j \<Longrightarrow> pv_names (v y) LOG_PATH = Some j" for j
      using os_view_law(4) [OF ok, of LOG_PATH y2 j] n views i by simp
    have "y' = snd (os_close OS fd y3)" and b: "b = (case (a, n) of (Inr a, Inr b) \<Rightarrow> a = b | _ \<Rightarrow> False)"
      using r by (simp_all add: stderr_is_log_def c Inr a n)
    then have "v y' = (v y1)\<lparr>pv_fds := (pv_fds (v y1))(fd := None)\<rparr>" by (simp add: os_view_law(5) [OF ok] views)
    then have "v y' = v y" using i by (intro proc_view.equality) (auto simp: fun_eq_iff)
    with b ai nj i show ?thesis by (cases a; cases n) auto
  qed
  then show "v y' = v y" and "b \<Longrightarrow> pv_names (v y) LOG_PATH \<noteq> None \<and> pv_fds (v y) STDERR_FILENO = pv_names (v y) LOG_PATH"
    by blast+
qed

lemma follow_log_rotation_view:
  assumes ok: "os_ok OS v" and r: "follow_log_rotation OS p = (rotating, p')"
  shows "pv_fds (v (pc_os p')) = pv_fds (v (pc_os p))"
    and "pc_disposition p' = (if rotating then (pc_disposition p)(SIGHUP := HandlerReopenLog) else pc_disposition p)"
    and "pc_alive p' = pc_alive p" and "pc_shutdown p' = pc_shutdown p"
proof -
  obtain b y where "stderr_is_log OS (pc_os p) = (b, y)" by (rule prod.exhaust)
  with r stderr_is_log_view(1) [OF ok this] show "pv_fds (v (pc_os p')) = pv_fds (v (pc_os p))"
    and "pc_disposition p' = (if rotating then (pc_disposition p)(SIGHUP := HandlerReopenLog) else pc_disposition p)"
    and "pc_alive p' = pc_alive p" and "pc_shutdown p' = pc_shutdown p"
    by (auto simp: follow_log_rotation_def reopen_log_on_hangup_def os_view_law(6) [OF ok] split: bool.splits)
qed

text \<open>
  C36: A rotation of the log is followed. When the daemon has found that it runs as the service, then
  whatever was done to the files since, by \<open>newsyslog\<close> or anyone else, a SIGHUP does not end it; standard output
  and standard error stay open and every other descriptor is as it was before the daemon looked, none
  leaked, whichever calls fail; and if none fails, both refer to the file that now has the name of the log.
\<close>

theorem log_rotation_followed:
  assumes "os_ok OS v" and "std_open (v (pc_os p))" and "pc_alive p"
    and "follow_log_rotation OS p = (True, p1)" and "pv_fds (v y) = pv_fds (v (pc_os p1))"
  shows "\<exists>p2. signal_arrives OS SIGHUP (p1\<lparr>pc_os := y\<rparr>) = p2 \<and> pc_alive p2 \<and> std_open (v (pc_os p2))
    \<and> fds_besides (v (pc_os p2)) = fds_besides (v (pc_os p))
    \<and> (reopen_succeeds OS y \<longrightarrow> std_to_log (v (pc_os p2)))"
proof -
  note view = follow_log_rotation_view [OF assms(1,4)]
  have "std_open (v y)" using assms(2,5) view(1) by (simp add: std_open_def)
  note re = reopen_log_view [OF assms(1) this]
  have "signal_arrives OS SIGHUP (p1\<lparr>pc_os := y\<rparr>) = p1\<lparr>pc_os := reopen_log OS y\<rparr>"
    using assms(3) view(2,3) by (simp add: signal_arrives_def)
  with re assms(3,5) view(1,3) show ?thesis by (simp add: fds_besides_def)
qed

subsection \<open>Which signals the daemon survives\<close>

text \<open>
  The daemon has its handlers, with that for SIGHUP when it follows the log.
\<close>

definition signals_set :: "bool \<Rightarrow> 'y process \<Rightarrow> bool" where
  "signals_set rotating p \<longleftrightarrow> pc_disposition p SIGINT = HandlerShutdown \<and> pc_disposition p SIGTERM = HandlerShutdown
     \<and> pc_disposition p SIGPIPE = SIG_IGN \<and> pc_disposition p SIGHUP = (if rotating then HandlerReopenLog else SIG_DFL)"

lemma signal_arrives_view:
  assumes ok: "os_ok OS v" and "signals_set rotating p" and "std_open (v (pc_os p))" and "pc_alive p"
    and p': "p' = signal_arrives OS sig p"
  shows "signals_set rotating p'" "std_open (v (pc_os p'))" "fds_besides (v (pc_os p')) = fds_besides (v (pc_os p))"
    "pc_alive p' \<longleftrightarrow> rotating \<or> sig \<noteq> SIGHUP" "requested p' \<longleftrightarrow> requested p \<or> sig = SIGINT \<or> sig = SIGTERM"
  using assms(2-4) reopen_log_view [OF ok assms(3)] unfolding p'
  by (cases sig; cases rotating; simp add: signal_arrives_def signals_set_def handler_def requested_def)+

lemma signals_dead: "\<not> pc_alive p \<Longrightarrow> fold (signal_arrives OS) sigs p = p"
  by (induction sigs) (simp_all add: signal_arrives_def)

lemma signals_fold:
  assumes ok: "os_ok OS v" and "signals_set rotating p" and "std_open (v (pc_os p))" and "pc_alive p"
    and "p' = fold (signal_arrives OS) sigs p"
  shows "(pc_alive p' \<longleftrightarrow> rotating \<or> SIGHUP \<notin> set sigs)
    \<and> std_open (v (pc_os p')) \<and> fds_besides (v (pc_os p')) = fds_besides (v (pc_os p))
    \<and> (pc_alive p' \<longrightarrow> (requested p' \<longleftrightarrow> requested p \<or> SIGINT \<in> set sigs \<or> SIGTERM \<in> set sigs))"
  using assms(2-)
proof (induction sigs arbitrary: p)
  case (Cons sig sigs)
  let ?p = "signal_arrives OS sig p"
  note one = signal_arrives_view [OF ok Cons.prems(1-3) refl, of sig]
  show ?case
  proof (cases "pc_alive ?p")
    case True
    from Cons.IH [OF one(1,2) True] Cons.prems(4) one True show ?thesis by auto
  next
    case False
    with signals_dead [OF False, of OS sigs] one Cons.prems(4) show ?thesis by auto
  qed
qed simp

text \<open>
  C35: The daemon survives every signal but one. From the point where \<open>run\<close> has installed its handlers, over any sequence of
  signals, SIGINT, SIGTERM and SIGPIPE never end the process; a stop is requested, for good, exactly when a
  SIGINT or a SIGTERM has come; and the descriptors are kept. SIGHUP is harmless when the process
  runs as the service. In the foreground it is not handled and ends the process on the spot, without the
  teardown that restores routes and DNS.
\<close>

theorem signals_handled:
  assumes "os_ok OS v" and "std_open (v (pc_os p))" and "pc_alive p" and "pc_disposition p SIGHUP = SIG_DFL"
    and "follow_log_rotation OS (signals_install p) = (rotating, p1)"
  shows "\<exists>p'. fold (signal_arrives OS) sigs p1 = p' \<and> (pc_alive p' \<longleftrightarrow> rotating \<or> SIGHUP \<notin> set sigs)
    \<and> std_open (v (pc_os p')) \<and> fds_besides (v (pc_os p')) = fds_besides (v (pc_os p))
    \<and> (pc_alive p' \<longrightarrow> (requested p' \<longleftrightarrow> requested p \<or> SIGINT \<in> set sigs \<or> SIGTERM \<in> set sigs))"
proof -
  note view = follow_log_rotation_view [OF assms(1,5)]
  have "signals_set rotating p1" "pc_alive p1" "std_open (v (pc_os p1))"
    using assms(2-4) view by (simp_all add: signals_set_def signals_install_def std_open_def)
  from signals_fold [OF assms(1) this(1,3,2) refl, of sigs] view show ?thesis
    by (simp add: requested_def signals_install_def fds_besides_def)
qed

subsection \<open>An example\<close>

text \<open>A system whose state is what is seen of it; the descriptor 3 is the only one it gives out.\<close>

definition demo_fd :: "file_id \<Rightarrow> proc_view \<Rightarrow> fd \<times> proc_view" where
  "demo_fd i w = (if pv_fds w 3 = None then (3, w\<lparr>pv_fds := (pv_fds w)(3 \<mapsto> i)\<rparr>) else (-1, w))"

definition demo_file :: "string \<Rightarrow> proc_view \<Rightarrow> file_id" where
  "demo_file p w = (case pv_names w p of None \<Rightarrow> (1, 7) | Some i \<Rightarrow> i)"

definition demo_name :: "string \<Rightarrow> proc_view \<Rightarrow> proc_view" where
  "demo_name p w = w\<lparr>pv_names := (pv_names w)(p \<mapsto> demo_file p w)\<rparr>"

definition demo_os :: "proc_view os" where
  "demo_os =
     \<lparr>ho_current_exe = \<lambda>w. (Inr installed_binary, w),
      ho_exists = \<lambda>p w. pv_names w p \<noteq> None,
      ho_canonicalize = \<lambda>p w. if pv_names w p = None then None else Some p,
      ho_create_dir_all = \<lambda>p w. (Inr (), w),
      ho_set_permissions = \<lambda>p m w. (Inr (), w),
      ho_chown = \<lambda>p u g w. (Inr (), w),
      ho_metadata = \<lambda>p w. (Inr (0, 0x41ED), w),
      ho_copy = \<lambda>a b w. (Inr (), demo_name b w),
      ho_rename = \<lambda>a b w. (Inr (), w\<lparr>pv_names := (pv_names w)(b := pv_names w a, a := None)\<rparr>),
      ho_write = \<lambda>p c w. (Inr (), demo_name p w),
      ho_remove_file = \<lambda>p w. if pv_names w p = None then (Inl IoNotFound, w)
        else (Inr (), w\<lparr>pv_names := (pv_names w)(p := None)\<rparr>),
      ho_remove_dir = \<lambda>p w. (Inl (IoOther ''not empty''), w),
      ho_launchctl = \<lambda>args w. (Inr (True, []), w),
      ho_sleep = \<lambda>d w. w,
      os_open = \<lambda>p fl m w. if pv_fds w 3 = None then demo_fd (demo_file p w) (demo_name p w) else (-1, w),
      os_dup2 = \<lambda>a b w. case pv_fds w a of None \<Rightarrow> (-1, w) | Some i \<Rightarrow> (b, w\<lparr>pv_fds := (pv_fds w)(b \<mapsto> i)\<rparr>),
      os_close = \<lambda>a w. (0, w\<lparr>pv_fds := (pv_fds w)(a := None)\<rparr>),
      os_try_clone = \<lambda>a w. (case pv_fds w a of None \<Rightarrow> (Inl (IoOther ''bad descriptor''), w)
        | Some i \<Rightarrow> (case demo_fd i w of (fd, w') \<Rightarrow> if fd < 0 then (Inl (IoOther ''too many''), w') else (Inr fd, w'))),
      os_fstat = \<lambda>a w. (case pv_fds w a of None \<Rightarrow> Inl (IoOther ''bad descriptor'') | Some i \<Rightarrow> Inr i, w),
      os_stat = \<lambda>p w. (case pv_names w p of None \<Rightarrow> Inl IoNotFound | Some i \<Rightarrow> Inr i, w),
      os_pid = \<lambda>w. 80,
      os_bind = \<lambda>p w. if pv_names w p = None then (Inr (), demo_name p w) else (Inl (IoOther ''in use''), w),
      os_set_nonblocking = \<lambda>w. (Inr (), w),
      os_spawn = \<lambda>w. (Inr (), w)\<rparr>"

lemma demo_os_ok: "os_ok demo_os (\<lambda>w. w)"
proof -
  have "open_ok demo_os (\<lambda>w. w)"
    unfolding open_ok_def
  proof (intro allI)
    fix p fl m and w :: proc_view
    show "case os_open demo_os p fl m w of (fd, y') \<Rightarrow> (fd < 0 \<and> y' = w)
        \<or> (\<exists>i. opens_fd (\<lambda>w. w) i fd w y' \<and> pv_names y' = (pv_names w)(p \<mapsto> i) \<and> (\<forall>j. pv_names w p = Some j \<longrightarrow> i = j))"
      by (cases "pv_fds w 3")
        (auto simp: demo_os_def demo_fd_def opens_fd_def demo_name_def demo_file_def split: option.split simp del: split_paired_Ex)
  qed
  moreover have "dup2_ok demo_os (\<lambda>w. w)"
    by (simp add: dup2_ok_def demo_os_def split: option.split)
  moreover have "clone_ok demo_os (\<lambda>w. w)"
    by (simp add: clone_ok_def demo_os_def demo_fd_def opens_fd_def split: option.split)
  moreover have "stat_ok demo_os (\<lambda>w. w)"
    by (simp add: stat_ok_def demo_os_def split: option.split)
  ultimately show ?thesis
    by (simp add: os_ok_def) (simp add: demo_os_def demo_name_def)
qed

text \<open>A service, with its output in the log, and a process in the foreground.\<close>

definition demo_service :: "proc_view process" where
  "demo_service = \<lparr>pc_disposition = \<lambda>_. SIG_DFL, pc_shutdown = False, pc_alive = True,
     pc_os = \<lparr>pv_fds = [1 \<mapsto> (1, 5), 2 \<mapsto> (1, 5)], pv_names = [LOG_PATH \<mapsto> (1, 5)]\<rparr>\<rparr>"

definition demo_foreground :: "proc_view process" where
  "demo_foreground = demo_service\<lparr>pc_os := \<lparr>pv_fds = [1 \<mapsto> (2, 1), 2 \<mapsto> (2, 1)], pv_names = [LOG_PATH \<mapsto> (1, 5)]\<rparr>\<rparr>"

text \<open>The log is moved aside and another is made in its place.\<close>

theorem log_rotation_followed_witness:
  "pv_fds (pc_os (signal_arrives demo_os SIGHUP ((snd (follow_log_rotation demo_os demo_service))
      \<lparr>pc_os := \<lparr>pv_fds = [1 \<mapsto> (1, 5), 2 \<mapsto> (1, 5)], pv_names = [''/var/log/muta.log.0'' \<mapsto> (1, 5)]\<rparr>\<rparr>))) STDERR_FILENO
   = Some (1, 7)"
proof -
  let ?y = "\<lparr>pv_fds = [1 \<mapsto> (1, 5), 2 \<mapsto> (1, 5)], pv_names = [''/var/log/muta.log.0'' \<mapsto> (1, 5)]\<rparr>"
  have r: "follow_log_rotation demo_os demo_service = (True, snd (follow_log_rotation demo_os demo_service))"
    and fds: "pv_fds (pc_os (snd (follow_log_rotation demo_os demo_service))) = [1 \<mapsto> (1, 5), 2 \<mapsto> (1, 5)]"
    by (simp_all add: follow_log_rotation_def stderr_is_log_def demo_service_def demo_os_def demo_fd_def demo_name_def
        reopen_log_on_hangup_def fun_eq_iff)
  have "pv_names ?y LOG_PATH = None" by (simp add: LOG_PATH_def)
  then have "reopen_succeeds demo_os ?y"
    and named: "pv_names (reopen_log demo_os ?y) LOG_PATH = Some (1, 7)"
    by (simp_all add: reopen_succeeds_def reopen_log_def demo_os_def demo_fd_def demo_name_def demo_file_def)
  moreover have "signal_arrives demo_os SIGHUP ((snd (follow_log_rotation demo_os demo_service))\<lparr>pc_os := ?y\<rparr>)
      = (snd (follow_log_rotation demo_os demo_service))\<lparr>pc_os := reopen_log demo_os ?y\<rparr>"
    using follow_log_rotation_view(2,3) [OF demo_os_ok r] by (simp add: signal_arrives_def demo_service_def)
  ultimately show ?thesis
    using log_rotation_followed [OF demo_os_ok _ _ r, of ?y] fds
    by (simp add: demo_service_def std_open_def std_to_log_def)
qed

theorem signals_handled_witness:
  "\<not> pc_alive (fold (signal_arrives demo_os) [SIGPIPE, SIGHUP] (snd (follow_log_rotation demo_os (signals_install demo_foreground))))
   \<and> requested (fold (signal_arrives demo_os) [SIGPIPE, SIGTERM] (snd (follow_log_rotation demo_os (signals_install demo_foreground))))"
proof -
  have r: "follow_log_rotation demo_os (signals_install demo_foreground)
      = (False, snd (follow_log_rotation demo_os (signals_install demo_foreground)))"
    by (simp add: follow_log_rotation_def stderr_is_log_def demo_foreground_def demo_service_def demo_os_def demo_fd_def
        signals_install_def)
  note h = signals_handled [OF demo_os_ok, of demo_foreground, OF _ _ _ r]
  show ?thesis
    using h [of "[SIGPIPE, SIGHUP]"] h [of "[SIGPIPE, SIGTERM]"]
    by (simp add: demo_foreground_def demo_service_def std_open_def)
qed

end
