(* ===== verification/Run.thy ===== *)
theory Run
  imports Daemon Signals
begin

text \<open>
  \<open>muta run\<close> as a whole: the start and the end of the status server, \<^verbatim>\<open>src/src/status.rs\<close>,
  and \<open>run\<close> of \<^verbatim>\<open>src/src/daemon.rs\<close>, from the handlers it installs over the loop to the files
  it removes. Shown here: the loop with its check of the stop flag is the loop of \<^verbatim>\<open>Daemon\<close> up to
  the first request; the daemon returns when it is asked to stop, with success, and leaves the system, the
  bus and the file system as it found them; a client of the status socket that stays silent is the
  one thing that keeps it from returning.
\<close>

subsection \<open>The status server\<close>

text \<open>
  \<open>StatusServer::start\<close>. A listener that is dropped on the way is closed, but the file of the socket
  stays.
\<close>

definition status_start :: "'y os \<Rightarrow> 'y \<Rightarrow> (string + status) \<times> 'y" where
  "status_start OS y =
     (let y = snd (ho_remove_file OS SOCKET_PATH y) in
      trys (with_context (''binding '' @ SOCKET_PATH) (os_bind OS SOCKET_PATH y)) (\<lambda>_ y.
      trys (plain (os_set_nonblocking OS y)) (\<lambda>_ y.
      trys (with_context (''relaxing permissions on '' @ SOCKET_PATH) (ho_set_permissions OS SOCKET_PATH 0x1B6 y)) (\<lambda>_ y.
      trys (plain (os_spawn OS y)) (\<lambda>_ y.
      (Inr status_default, y))))))"

text \<open>
  \<open>StatusServer::drop\<close>, given the turns of the server's thread, the last of them after the flag was
  set: it is joined, so as long as it goes on this does not return.
\<close>

definition status_drop :: "'y os \<Rightarrow> (bool \<times> accepted \<times> status) list \<Rightarrow> 'y \<Rightarrow> 'y option" where
  "status_drop OS srv y = (if snd (serve srv) then Some (snd (ho_remove_file OS SOCKET_PATH y)) else None)"

subsection \<open>The daemon\<close>

text \<open>
  The loop, given for each turn what the stop flag was at its start. The boolean says whether it was
  left.
\<close>

fun run_loop ::
  "'b usb_backend \<Rightarrow> 'y system \<Rightarrow> (bool \<times> round) list \<Rightarrow> ('b, 'y) daemon \<Rightarrow> (bool \<times> ('b, 'y) daemon) option" where
  "run_loop U S [] dm = Some (False, dm)"
| "run_loop U S ((stop, inp) # inps) dm =
     (if stop then Some (True, dm)
      else
        (case daemon_turn U S inp dm of
           None \<Rightarrow> None
         | Some (False, dm) \<Rightarrow> Some (False, dm)
         | Some (True, dm) \<Rightarrow> run_loop U S inps dm))"

text \<open>
  The end of \<open>run\<close>, after the loop: the file of the process id, then the server.
\<close>

definition run_end :: "'h os \<Rightarrow> bool \<Rightarrow> bool \<Rightarrow> (bool \<times> accepted \<times> status) list \<Rightarrow> 'h \<Rightarrow> 'h option" where
  "run_end OS rotating serving srv h =
     (let h = (if rotating then release_log OS h else h) in if serving then status_drop OS srv h else Some h)"

text \<open>
  \<open>run\<close>, with whether the hotplug watch could be set up. The value is the result, if it returned, with the
  process and the daemon's state; \<open>None\<close> is a panic, or not returning. 
\<close>

definition daemon_main ::
  "'h os \<Rightarrow> 'b usb_backend \<Rightarrow> 'y system \<Rightarrow> bool \<Rightarrow> (bool \<times> round) list \<Rightarrow> (bool \<times> accepted \<times> status) list
   \<Rightarrow> 'h process \<Rightarrow> 'y \<Rightarrow> 'b \<Rightarrow> ((string + unit) option \<times> 'h process \<times> ('b, 'y) daemon) option" where
  "daemon_main OS U S watch inps srv p y b =
     (case follow_log_rotation OS (signals_install p) of
        (rotating, p) \<Rightarrow>
          (case status_start OS (pc_os p) of
             (started, h) \<Rightarrow>
               (let p = p\<lparr>pc_os := h\<rparr>;
                    dm = \<lparr>dm_watch = watch, dm_pauses = [],
                          dm_status = (case started of Inl e \<Rightarrow> None | Inr st \<Rightarrow> Some st),
                          dm_reported = [], dm_printed = [], dm_sys = y, dm_bus = b\<rparr> in
                case run_loop U S inps dm of
                  None \<Rightarrow> None
                | Some (False, dm) \<Rightarrow> Some (None, p, dm)
                | Some (True, dm) \<Rightarrow>
                    map_option (\<lambda>h. (Some (Inr ()), p\<lparr>pc_os := h\<rparr>, dm))
                      (run_end OS rotating (\<not> isl started) srv (pc_os p)))))"

subsection \<open>The loop\<close>

text \<open>The rounds before the first request.\<close>

abbreviation rounds_before_stop :: "(bool \<times> round) list \<Rightarrow> round list" where
  "rounds_before_stop inps \<equiv> map snd (takeWhile (\<lambda>(stop, _). \<not> stop) inps)"

text \<open>The loop is that of \<^verbatim>\<open>Daemon\<close>, cut at the first request.\<close>

lemma run_loop_rounds:
  "run_loop U S inps dm =
     (case daemon_run U S (rounds_before_stop inps) dm of
        None \<Rightarrow> None
      | Some (idle, dm') \<Rightarrow> Some (idle \<and> (\<exists>(stop, _)\<in>set inps. stop), dm'))"
  by (induction U S inps dm rule: run_loop.induct) (auto split: option.splits bool.splits)

lemma run_loop_restores:
  assumes "system_ok S v" and "usb_ok U vb" and "usb_clock_ok U clk"
    and "\<forall>inp\<in>set inps. turns_ok (v (dm_sys dm)) (ro_turns (snd inp))" and "dm_status dm \<in> {None, Some status_default}"
  obtains left dm' where "run_loop U S inps dm = Some (left, dm')"
    "left \<Longrightarrow> v (dm_sys dm') = v (dm_sys dm) \<and> bv_handles (vb (dm_bus dm')) = bv_handles (vb (dm_bus dm))"
    "\<exists>(stop, _)\<in>set inps. stop \<Longrightarrow>
       \<forall>inp\<in>set (rounds_before_stop inps). \<exists>tu\<in>set (ro_turns inp). tu_requested tu \<Longrightarrow> left"
proof -
  have "\<forall>inp\<in>set (rounds_before_stop inps). turns_ok (v (dm_sys dm)) (ro_turns inp)"
    using assms(4) by (auto dest: set_takeWhileD)
  from daemon_run_restores [OF assms(1-3) this assms(5)] obtain idle dm' where
    "daemon_run U S (rounds_before_stop inps) dm = Some (idle, dm')"
    "idle \<longrightarrow> v (dm_sys dm') = v (dm_sys dm) \<and> bv_handles (vb (dm_bus dm')) = bv_handles (vb (dm_bus dm))"
    "(\<forall>inp\<in>set (rounds_before_stop inps). \<exists>tu\<in>set (ro_turns inp). tu_requested tu) \<longrightarrow> idle"
    by blast
  then show thesis by (intro that [of "idle \<and> (\<exists>(stop, _)\<in>set inps. stop)" dm']) (auto simp: run_loop_rounds)
qed

subsection \<open>Files\<close>

text \<open>
  What the calls do to the set of files: a removed file is gone, or was not there, or stays; a bound socket is a
  file; a written file may be new; the other calls make and remove none.
\<close>

definition removes_file :: "('y \<Rightarrow> string set) \<Rightarrow> string \<Rightarrow> 'y \<Rightarrow> (io_error + unit) \<times> 'y \<Rightarrow> bool" where
  "removes_file files p y r \<longleftrightarrow>
     (case r of
        (Inr _, y') \<Rightarrow> files y' = files y - {p}
      | (Inl IoNotFound, y') \<Rightarrow> p \<notin> files y \<and> files y' = files y
      | (Inl (IoOther _), y') \<Rightarrow> files y' = files y)"

definition os_files :: "'y os \<Rightarrow> ('y \<Rightarrow> string set) \<Rightarrow> bool" where
  "os_files OS files \<longleftrightarrow>
     (\<forall>p y. removes_file files p y (ho_remove_file OS p y))
     \<and> (\<forall>p y. files (snd (os_bind OS p y)) = (if isl (fst (os_bind OS p y)) then files y else insert p (files y)))
     \<and> (\<forall>p c y. files y \<subseteq> files (snd (ho_write OS p c y)) \<and> files (snd (ho_write OS p c y)) \<subseteq> insert p (files y))
     \<and> (\<forall>p m y. files (snd (ho_set_permissions OS p m y)) = files y)
     \<and> (\<forall>y. files (snd (os_set_nonblocking OS y)) = files y) \<and> (\<forall>y. files (snd (os_spawn OS y)) = files y)
     \<and> (\<forall>a y. files (snd (os_try_clone OS a y)) = files y) \<and> (\<forall>a y. files (snd (os_close OS a y)) = files y)
     \<and> (\<forall>a y. files (snd (os_fstat OS a y)) = files y) \<and> (\<forall>p y. files (snd (os_stat OS p y)) = files y)"

text \<open>Removing a file fails only when there is none: root may remove the daemon's own files.\<close>

definition os_removes :: "'y os \<Rightarrow> bool" where
  "os_removes OS \<longleftrightarrow> (\<forall>p y e. fst (ho_remove_file OS p y) \<noteq> Inl (IoOther e))"

lemma remove_file_law:
  assumes "os_files OS files"
  shows "files (snd (ho_remove_file OS p y)) \<in> {files y, files y - {p}}"
    and "os_removes OS \<Longrightarrow> files (snd (ho_remove_file OS p y)) = files y - {p}"
proof -
  obtain r y' where r: "ho_remove_file OS p y = (r, y')" by (rule prod.exhaust)
  with assms have law: "removes_file files p y (r, y')" by (auto simp: os_files_def dest!: spec [of _ p] spec [of _ y])
  then show "files (snd (ho_remove_file OS p y)) \<in> {files y, files y - {p}}"
    by (auto simp: removes_file_def r split: sum.splits io_error.splits)
  assume "os_removes OS"
  then have "r \<noteq> Inl (IoOther e)" for e using r by (metis fst_conv os_removes_def)
  with law show "files (snd (ho_remove_file OS p y)) = files y - {p}"
    by (auto simp: removes_file_def r split: sum.splits io_error.splits)
qed

lemma os_files_kept:
  assumes "os_files OS files"
  shows "files (snd (ho_set_permissions OS p m y)) = files y" "files (snd (os_set_nonblocking OS y)) = files y"
    "files (snd (os_spawn OS y)) = files y" "files (snd (os_try_clone OS a y)) = files y"
    "files (snd (os_close OS a y)) = files y" "files (snd (os_fstat OS a y)) = files y" "files (snd (os_stat OS p y)) = files y"
    "files (snd (os_bind OS p y)) = (if isl (fst (os_bind OS p y)) then files y else insert p (files y))"
    "files y \<subseteq> files (snd (ho_write OS p c y))" "files (snd (ho_write OS p c y)) \<subseteq> insert p (files y)"
  using assms by (simp_all add: os_files_def)

lemma follow_log_rotation_files:
  assumes ok: "os_files OS files" and r: "follow_log_rotation OS p = (rotating, p')"
  shows "files (pc_os p) \<subseteq> files (pc_os p')" "files (pc_os p') \<subseteq> files (pc_os p) \<union> (if rotating then {PID_PATH} else {})"
proof -
  obtain b y where s: "stderr_is_log OS (pc_os p) = (b, y)" by (rule prod.exhaust)
  obtain c y1 where c: "os_try_clone OS STDERR_FILENO (pc_os p) = (c, y1)" by (rule prod.exhaust)
  have c': "files y1 = files (pc_os p)" using os_files_kept(4) [OF ok, of STDERR_FILENO "pc_os p"] c by simp
  have "files y = files (pc_os p)"
  proof (cases c)
    case (Inl e)
    with s c c' show ?thesis by (simp add: stderr_is_log_def)
  next
    case (Inr fd)
    obtain a y2 where a: "os_fstat OS fd y1 = (a, y2)" by (rule prod.exhaust)
    obtain n y3 where n: "os_stat OS LOG_PATH y2 = (n, y3)" by (rule prod.exhaust)
    have "y = snd (os_close OS fd y3)" using s by (simp add: stderr_is_log_def c Inr a n)
    with os_files_kept(6) [OF ok, of fd y1] os_files_kept(7) [OF ok, of LOG_PATH y2] a n c' show ?thesis
      by (simp add: os_files_kept(5) [OF ok])
  qed
  with r s os_files_kept(9,10) [OF ok, where y = y and p = PID_PATH and c = "nat_string (os_pid OS y) @ [NEWLINE]"] show "files (pc_os p) \<subseteq> files (pc_os p')"
    "files (pc_os p') \<subseteq> files (pc_os p) \<union> (if rotating then {PID_PATH} else {})"
    by (auto simp: follow_log_rotation_def split: bool.splits)
qed

text \<open>Each step of the start keeps all files but that of the socket.\<close>

lemma status_start_files:
  assumes ok: "os_files OS files" and r: "status_start OS y = (started, y')"
  shows "files y' - {SOCKET_PATH} = files y - {SOCKET_PATH}"
proof -
  have rm: "files (snd (ho_remove_file OS SOCKET_PATH y)) - {SOCKET_PATH} = files y - {SOCKET_PATH}"
    using remove_file_law(1) [OF ok, of SOCKET_PATH y] by blast
  have kept: "files (snd (with_context m x)) = files (snd x)" "files (snd (plain z)) = files (snd z)" for m x z
    by (auto simp: with_context_def plain_def split: prod.split sum.split)
  obtain x1 y1 where 1: "with_context (''binding '' @ SOCKET_PATH) (os_bind OS SOCKET_PATH (snd (ho_remove_file OS SOCKET_PATH y)))
      = (x1, y1)" by (rule prod.exhaust)
  obtain x2 y2 where 2: "plain (os_set_nonblocking OS y1) = (x2, y2)" by (rule prod.exhaust)
  obtain x3 y3 where 3: "with_context (''relaxing permissions on '' @ SOCKET_PATH) (ho_set_permissions OS SOCKET_PATH 0x1B6 y2)
      = (x3, y3)" by (rule prod.exhaust)
  obtain x4 y4 where 4: "plain (os_spawn OS y3) = (x4, y4)" by (rule prod.exhaust)
  have "files y1 - {SOCKET_PATH} = files y - {SOCKET_PATH}"
    using rm arg_cong [OF 1, of "\<lambda>z. files (snd z)"] by (auto simp: kept os_files_kept(8) [OF ok] split: if_splits)
  moreover have "files y2 = files y1" "files y3 = files y2" "files y4 = files y3"
    using arg_cong [OF 2, of "\<lambda>z. files (snd z)"] arg_cong [OF 3, of "\<lambda>z. files (snd z)"]
      arg_cong [OF 4, of "\<lambda>z. files (snd z)"] by (simp_all add: kept os_files_kept [OF ok])
  moreover have "y' \<in> {y1, y2, y3, y4}"
    using r unfolding status_start_def Let_def 1
    by (cases x1; cases x2; cases x3; cases x4) (simp_all only: trys_simps 2 3 4 prod.inject insert_iff simp_thms)
  ultimately show ?thesis by auto
qed

lemma status_start_value: "status_start OS y = (Inr st, y') \<Longrightarrow> st = status_default"
  unfolding status_start_def Let_def by (auto dest!: trys_Inr)

lemma release_log_files:
  assumes "os_files OS files"
  shows "files (release_log OS y) - {PID_PATH} = files y - {PID_PATH}"
    and "os_removes OS \<Longrightarrow> files (release_log OS y) = files y - {PID_PATH}"
  using remove_file_law [OF assms, of PID_PATH y] by (auto simp: release_log_def)

lemma status_drop_files:
  assumes "os_files OS files" and "status_drop OS srv y = Some y'"
  shows "files y' - {SOCKET_PATH} = files y - {SOCKET_PATH}"
    and "os_removes OS \<Longrightarrow> files y' = files y - {SOCKET_PATH}"
  using remove_file_law [OF assms(1), of SOCKET_PATH y] assms(2) by (auto simp: status_drop_def split: if_splits)

lemma daemon_main_end:
  assumes "follow_log_rotation OS (signals_install p) = (rotating, p1)" and "status_start OS (pc_os p1) = (started, h)"
    and "run_loop U S inps \<lparr>dm_watch = watch, dm_pauses = [], dm_status = (case started of Inl e \<Rightarrow> None | Inr st \<Rightarrow> Some st),
      dm_reported = [], dm_printed = [], dm_sys = y, dm_bus = b\<rparr> = Some (left, dm)"
  shows "daemon_main OS U S watch inps srv p y b =
    (if left then map_option (\<lambda>h'. (Some (Inr ()), p1\<lparr>pc_os := h'\<rparr>, dm)) (run_end OS rotating (\<not> isl started) srv h)
     else Some (None, p1\<lparr>pc_os := h\<rparr>, dm))"
  unfolding daemon_main_def assms(1) prod.case assms(2) Let_def assms(3)
  by (cases left) simp_all

lemma run_end_files:
  assumes ok: "os_files OS files" and "run_end OS rotating serving srv h = Some h'"
  shows "files h' - {PID_PATH, SOCKET_PATH} = files h - {PID_PATH, SOCKET_PATH}"
    and "os_removes OS \<Longrightarrow> files h' = files h - (if rotating then {PID_PATH} else {}) - (if serving then {SOCKET_PATH} else {})"
proof -
  let ?h = "if rotating then release_log OS h else h"
  have 1: "files ?h - {PID_PATH} = files h - {PID_PATH}" and 2: "os_removes OS \<Longrightarrow> files ?h = files h - (if rotating then {PID_PATH} else {})"
    using release_log_files [OF ok, of h] by auto
  have e: "(if serving then status_drop OS srv ?h else Some ?h) = Some h'" using assms(2) by (simp add: run_end_def Let_def)
  then have 3: "files h' - {SOCKET_PATH} = files ?h - {SOCKET_PATH}"
    and 4: "os_removes OS \<Longrightarrow> files h' = files ?h - (if serving then {SOCKET_PATH} else {})"
    using status_drop_files [OF ok, of srv ?h h'] by (auto split: if_splits)
  show "files h' - {PID_PATH, SOCKET_PATH} = files h - {PID_PATH, SOCKET_PATH}" using 1 3 by blast
  show "os_removes OS \<Longrightarrow> files h' = files h - (if rotating then {PID_PATH} else {}) - (if serving then {SOCKET_PATH} else {})"
    using 2 4 by simp
qed


text \<open>A client that connects to the socket and stays silent keeps the daemon from ever returning.\<close>

lemma daemon_main_blocked:
  assumes "follow_log_rotation OS (signals_install p) = (rotating, p1)" and "status_start OS (pc_os p1) = (Inr st, h)"
    and "\<forall>(shutdown, a, _)\<in>set before. \<not> shutdown \<and> a \<noteq> AcceptFailed"
    and "daemon_main OS U S watch inps (before @ (False, SilentClient, shared) # turns) p y b = Some (r, p', dm')"
  shows "r = None"
proof -
  let ?srv = "before @ (False, SilentClient, shared) # turns"
    and ?dm = "\<lparr>dm_watch = watch, dm_pauses = [], dm_status = Some st,
      dm_reported = [], dm_printed = [], dm_sys = y, dm_bus = b\<rparr>"
  have "\<not> snd (serve ?srv)" using serve_blocked [OF assms(3), of shared turns] by simp
  then have "run_end OS rotating True ?srv h = None" by (simp add: run_end_def status_drop_def Let_def)
  then show ?thesis
    using assms(4) daemon_main_end [OF assms(1,2), of U S inps watch y b _ _ ?srv]
    by (cases "run_loop U S inps ?dm") (auto simp: daemon_main_def assms(1,2) split: if_splits)
qed

text \<open>Without one, its thread ends in the turn after it was told to.\<close>

lemma serve_ends:
  assumes "(True, a, shared) \<in> set turns" and "\<forall>(_, a, _)\<in>set turns. a \<noteq> SilentClient"
  shows "snd (serve turns)"
  using assms
proof (induction turns)
  case (Cons t turns)
  obtain shutdown a' shared' where "t = (shutdown, a', shared')" by (cases t)
  with Cons show ?case by (cases a') (auto simp: split_beta)
qed simp

subsection \<open>An example\<close>

lemma demo_os_files: "os_files demo_os (\<lambda>w. dom (pv_names w))"
  by (auto simp: os_files_def removes_file_def demo_os_def demo_name_def demo_fd_def split: option.split if_splits)

lemma demo_os_removes: "os_removes demo_os"
  by (simp add: os_removes_def demo_os_def)

definition demo_round :: round where
  "demo_round = \<lparr>ro_now = 0, ro_turns = [demo_turn, demo_turn\<lparr>tu_requested := True\<rparr>], ro_requested = True, ro_hotplug = RecvTimeout\<rparr>"

lemma demo_round_ok: "turns_ok demo_view (ro_turns demo_round)"
  using demo_turns_ok by (simp add: turns_ok_def demo_turn_def demo_round_def)


end
