(* ===== verification/Probe.thy ===== *)
theory Probe
  imports Nusb
begin

text \<open>
  \<open>muta probe\<close>, \<^verbatim>\<open>src/src/probe.rs\<close>: the descriptor dump for a phone that is not being
  matched. What is printed is modelled line by line. Shown here: a scan never panics, leaves no handle open and
  uses no call that could disturb a running session; it prints one section for each device that has an RNDIS
  function, in the order of the list, and says that there is none exactly when the daemon would find none;
  while it watches it scans once for each device that is connected.
\<close>

subsection \<open>What is printed\<close>

text \<open>A line on standard output, or on standard error.\<close>

datatype printed = Println string | Eprintln string

text \<open>\<open>{:x}\<close> and \<open>{:02x}\<close>\<close>

fun hex_string :: "nat \<Rightarrow> string" where
  "hex_string n =
     (if n < 16 then [''0123456789abcdef'' ! n] else hex_string (n div 16) @ [''0123456789abcdef'' ! (n mod 16)])"

declare hex_string.simps [simp del]

definition hex2 :: "u8 \<Rightarrow> string" where
  "hex2 n = map (\<lambda>k. ''0123456789abcdef'' ! unat (drop_bit k n AND 15)) [4, 0]"

text \<open>\<open>impl Display for DeviceId\<close>, and the derived \<open>Debug\<close> of the types that are printed.\<close>

fun device_id_string :: "device_id \<Rightarrow> string" where
  "device_id_string (DeviceId n) = ''0x'' @ hex_string (unat n)"

fun transfer_type_debug :: "transfer_type \<Rightarrow> string" where
  "transfer_type_debug TControl = ''Control''"
| "transfer_type_debug TIsochronous = ''Isochronous''"
| "transfer_type_debug TBulk = ''Bulk''"
| "transfer_type_debug TInterrupt = ''Interrupt''"

fun direction_debug :: "usb_direction \<Rightarrow> string" where
  "direction_debug DirIn = ''In''"
| "direction_debug DirOut = ''Out''"

abbreviation LF :: string where "LF \<equiv> [CHR 0x0A]"

text \<open>\<open>{:#?}\<close> of an \<open>Option<u8>\<close> that is a field, and of an \<open>RndisFunction\<close>\<close>

fun option_debug :: "u8 option \<Rightarrow> string" where
  "option_debug None = ''None''"
| "option_debug (Some n) = ''Some('' @ LF @ ''        '' @ nat_string (unat n) @ '','' @ LF @ ''    )''"

definition rndis_function_debug :: "rndis_function \<Rightarrow> string" where
  "rndis_function_debug f =
     ''RndisFunction {'' @ LF
     @ concat (map (\<lambda>(field, value). ''    '' @ field @ '': '' @ value @ '','' @ LF)
         [(''config_value'', nat_string (unat (rf_config_value f))),
          (''control_interface'', nat_string (unat (rf_control_interface f))),
          (''data_interface'', nat_string (unat (rf_data_interface f))),
          (''data_alt_setting'', nat_string (unat (rf_data_alt_setting f))),
          (''interrupt_in'', option_debug (rf_interrupt_in f)),
          (''bulk_in'', nat_string (unat (rf_bulk_in f))),
          (''bulk_out'', nat_string (unat (rf_bulk_out f))),
          (''bulk_max_packet_size'', nat_string (unat (rf_bulk_max_packet_size f)))])
     @ ''}''"

definition endpoint_line :: "endpoint_descriptor \<Rightarrow> string" where
  "endpoint_line ep =
     ''      ep 0x'' @ hex2 (ep_address ep) @ '' '' @ transfer_type_debug (ep_transfer_type ep) @ '' ''
     @ direction_debug (direction ep) @ '' mps '' @ nat_string (unat (ep_max_packet_size ep))"

definition interface_lines :: "interface_descriptor \<Rightarrow> string list" where
  "interface_lines i =
     (''    iface '' @ nat_string (unat (if_number i)) @ ''.'' @ nat_string (unat (if_alt_setting i)) @ '' class ''
        @ hex2 (if_class i) @ ''/'' @ hex2 (if_subclass i) @ ''/'' @ hex2 (if_protocol i))
     # map endpoint_line (if_endpoints i)"

definition config_lines :: "config_descriptor \<Rightarrow> string list" where
  "config_lines c = (''  config '' @ nat_string (unat (cfg_value c))) # concat (map interface_lines (cfg_interfaces c))"

definition device_section :: "device_info \<Rightarrow> config_descriptor list \<Rightarrow> rndis_function \<Rightarrow> printed list" where
  "device_section info configs rndis =
     map Println
       ((LF @ ''=== '' @ label info @ '' id='' @ device_id_string (di_id info) @ '' ==='')
        # concat (map config_lines configs) @ [''  RNDIS: '' @ rndis_function_debug rndis])"

text \<open>The dash of the source is one character, three bytes.\<close>

definition NO_DEVICE :: printed where
  "NO_DEVICE = Println (''no RNDIS device found '' @ [CHR 0xE2, CHR 0x80, CHR 0x94] @ '' enable USB tethering on the phone'')"

subsection \<open>The scan\<close>

text \<open>
  The loop of \<open>scan\<close>, with the flag \<open>found\<close> and what was printed. \<open>None\<close> is a panic (of the
  matcher). The handle is dropped at the end of each turn.
\<close>

fun probe_loop ::
  "'b usb_backend \<Rightarrow> device_info list \<Rightarrow> bool \<Rightarrow> printed list \<Rightarrow> 'b \<Rightarrow> (bool \<times> printed list \<times> 'b) option" where
  "probe_loop U [] found out b = Some (found, out, b)"
| "probe_loop U (info # infos) found out b =
     (case ub_open U (di_id info) b of
        (Inl e, b) \<Rightarrow> probe_loop U infos found (out @ [Println (label info @ '': cannot open ('' @ usb_error_string e @ '')'')]) b
      | (Inr device, b) \<Rightarrow>
          (case ud_configurations U device b of
             (Inl e, b) \<Rightarrow>
               probe_loop U infos found (out @ [Println (label info @ '': cannot read configs ('' @ usb_error_string e @ '')'')])
                 (ub_drop U (DeviceHandle device) b)
           | (Inr configs, b) \<Rightarrow>
               (case find_rndis configs of
                  None \<Rightarrow> None
                | Some None \<Rightarrow> probe_loop U infos found out (ub_drop U (DeviceHandle device) b)
                | Some (Some rndis) \<Rightarrow>
                    probe_loop U infos True (out @ device_section info configs rndis) (ub_drop U (DeviceHandle device) b))))"

definition probe_scan :: "'b usb_backend \<Rightarrow> 'b \<Rightarrow> (printed list \<times> 'b) option" where
  "probe_scan U b =
     (case ub_list U b of
        (Inl e, b) \<Rightarrow> Some ([Eprintln (''list failed: '' @ usb_error_string e)], b)
      | (Inr devices, b) \<Rightarrow>
          (case probe_loop U devices False [] b of
             None \<Rightarrow> None
           | Some (found, out, b) \<Rightarrow> Some (out @ (if found then [] else [NO_DEVICE]), b)))"

text \<open>The loop of \<open>run\<close>, over what the hotplug channel had; it is never left.\<close>

fun probe_watch :: "'b usb_backend \<Rightarrow> recv_result list \<Rightarrow> 'b \<Rightarrow> (printed list \<times> 'b) option" where
  "probe_watch U [] b = Some ([], b)"
| "probe_watch U (r # rs) b =
     (case next_event r of
        Some (Connected info) \<Rightarrow>
          (case probe_scan U b of
             None \<Rightarrow> None
           | Some (out, b) \<Rightarrow>
               map_option (\<lambda>(out', b). (Println (LF @ ''+ connected: '' @ label info) # out @ out', b)) (probe_watch U rs b))
      | Some (Disconnected i) \<Rightarrow>
          map_option (\<lambda>(out', b). (Println (LF @ ''- disconnected: '' @ device_id_string i) # out', b)) (probe_watch U rs b)
      | None \<Rightarrow> probe_watch U rs b)"

text \<open>
  \<open>run\<close>, with whether the hotplug watch could be set up. The result is \<open>None\<close> while it watches.
\<close>

definition probe_run ::
  "'b usb_backend \<Rightarrow> bool \<Rightarrow> usb_error + unit \<Rightarrow> recv_result list \<Rightarrow> 'b \<Rightarrow> ((string + unit) option \<times> printed list \<times> 'b) option" where
  "probe_run U watch watching rs b =
     (case probe_scan U b of
        None \<Rightarrow> None
      | Some (out, b) \<Rightarrow>
          if watch then
            (let out = out @ [Println (LF @ ''watching for hotplug events (ctrl-c to stop)...'')] in
             case watching of
               Inl e \<Rightarrow> Some (Some (Inl (usb_error_string e)), out, b)
             | Inr _ \<Rightarrow> map_option (\<lambda>(out', b). (None, out @ out', b)) (probe_watch U rs b))
          else Some (Some (Inr ()), out, b))"

subsection \<open>What a scan prints\<close>

text \<open>
  What can be seen of a device; the devices do not change during the scan.
\<close>

datatype reading = CannotOpen usb_error | CannotRead usb_error | Descriptors "config_descriptor list"

definition devices_seen :: "'b usb_backend \<Rightarrow> (device_id \<Rightarrow> reading) \<Rightarrow> bool" where
  "devices_seen U D \<longleftrightarrow>
     (\<forall>i b. D i = (case ub_open U i b of
        (Inl e, b') \<Rightarrow> CannotOpen e
      | (Inr d, b') \<Rightarrow> (case ud_configurations U d b' of (Inl e, _) \<Rightarrow> CannotRead e | (Inr c, _) \<Rightarrow> Descriptors c)))"

text \<open>The lines about a device, and whether it has an RNDIS function.\<close>

fun rndis_seen :: "reading \<Rightarrow> rndis_function option" where
  "rndis_seen (Descriptors configs) = the (find_rndis configs)"
| "rndis_seen _ = None"

definition device_lines :: "device_info \<Rightarrow> reading \<Rightarrow> printed list" where
  "device_lines info r =
     (case r of
        CannotOpen e \<Rightarrow> [Println (label info @ '': cannot open ('' @ usb_error_string e @ '')'')]
      | CannotRead e \<Rightarrow> [Println (label info @ '': cannot read configs ('' @ usb_error_string e @ '')'')]
      | Descriptors configs \<Rightarrow> (case rndis_seen r of None \<Rightarrow> [] | Some f \<Rightarrow> device_section info configs f))"

text \<open>One turn of the loop, whatever the bus does.\<close>

lemma probe_loop_turn:
  assumes ok: "usb_ok U v"
  obtains r b' where "bv_handles (v b') = bv_handles (v b)" "\<forall>D. devices_seen U D \<longrightarrow> D (di_id info) = r"
    "probe_loop U (info # infos) found out b =
       probe_loop U infos (found \<or> rndis_seen r \<noteq> None) (out @ device_lines info r) b'"
proof -
  have seen: "D (di_id info) = (case ub_open U (di_id info) b of
        (Inl e, b') \<Rightarrow> CannotOpen e
      | (Inr d, b') \<Rightarrow> (case ud_configurations U d b' of (Inl e, _) \<Rightarrow> CannotRead e | (Inr c, _) \<Rightarrow> Descriptors c))"
    if "devices_seen U D" for D using that unfolding devices_seen_def by blast
  from usb_okD(2) [OF ok, of b "di_id info"] show thesis
  proof (cases rule: acquiresE)
    case (failed e b1)
    with seen show thesis by (intro that [of b1 "CannotOpen e"]) (simp_all add: device_lines_def)
  next
    case (got h b1)
    obtain c b2 where c: "ud_configurations U h b1 = (c, b2)" by fastforce
    have "v b2 = v b1" using usb_okD(3) [OF ok, of h b1] c by simp
    with got have dropped: "bv_handles (v (ub_drop U (DeviceHandle h) b2)) = bv_handles (v b)"
      by (simp add: usb_okD(15) [OF ok])
    show thesis
    proof (cases c)
      case (Inl e)
      with seen got c dropped show thesis
        by (intro that [of "ub_drop U (DeviceHandle h) b2" "CannotRead e"]) (simp_all add: device_lines_def)
    next
      case (Inr configs)
      obtain f where "find_rndis configs = Some f" using find_rndis_no_panic by blast
      with Inr seen got c dropped show thesis
        by (intro that [of "ub_drop U (DeviceHandle h) b2" "Descriptors configs"])
          (simp_all add: device_lines_def split: option.split)
    qed
  qed
qed

lemma probe_loop_prints:
  assumes ok: "usb_ok U v"
  shows "\<exists>rs b'. length rs = length infos \<and> (\<forall>D. devices_seen U D \<longrightarrow> rs = map (\<lambda>info. D (di_id info)) infos)
    \<and> bv_handles (v b') = bv_handles (v b)
    \<and> probe_loop U infos found out b =
        Some (found \<or> (\<exists>r\<in>set rs. rndis_seen r \<noteq> None), out @ concat (map2 device_lines infos rs), b')"
proof (induction infos arbitrary: found out b)
  case (Cons info infos)
  show ?case
  proof (rule probe_loop_turn [OF ok, where b = b and info = info and infos = infos and found = found and out = out])
    fix r b1
    assume turn: "bv_handles (v b1) = bv_handles (v b)" "\<forall>D. devices_seen U D \<longrightarrow> D (di_id info) = r"
      "probe_loop U (info # infos) found out b =
         probe_loop U infos (found \<or> rndis_seen r \<noteq> None) (out @ device_lines info r) b1"
    obtain rs b' where rest: "length rs = length infos" "\<forall>D. devices_seen U D \<longrightarrow> rs = map (\<lambda>info. D (di_id info)) infos"
      "bv_handles (v b') = bv_handles (v b1)"
      "probe_loop U infos (found \<or> rndis_seen r \<noteq> None) (out @ device_lines info r) b1 =
        Some ((found \<or> rndis_seen r \<noteq> None) \<or> (\<exists>r\<in>set rs. rndis_seen r \<noteq> None),
          (out @ device_lines info r) @ concat (map2 device_lines infos rs), b')"
      using Cons [where b = b1 and found = "found \<or> rndis_seen r \<noteq> None" and out = "out @ device_lines info r"] by blast
    show ?thesis
      by (rule exI [of _ "r # rs"], rule exI [of _ b']) (use turn rest in \<open>simp del: probe_loop.simps\<close>)
  qed
qed auto

lemma probe_scan_handles:
  assumes ok: "usb_ok U v"
  obtains out b' where "probe_scan U b = Some (out, b')" "bv_handles (v b') = bv_handles (v b)"
proof -
  obtain r b1 where l: "ub_list U b = (r, b1)" by fastforce
  have v: "v b1 = v b" using usb_okD(1) [OF ok, of b] l by simp
  show thesis
  proof (cases r)
    case (Inl e)
    with l v show thesis by (intro that [of "[Eprintln (''list failed: '' @ usb_error_string e)]" b1]) (simp_all add: probe_scan_def)
  next
    case (Inr infos)
    obtain rs b' where "bv_handles (v b') = bv_handles (v b1)"
      "probe_loop U infos False [] b1 = Some (\<exists>r\<in>set rs. rndis_seen r \<noteq> None, concat (map2 device_lines infos rs), b')"
      using probe_loop_prints [OF ok, of infos b1 False "[]"] by auto
    with l v Inr show thesis
      by (intro that [of "concat (map2 device_lines infos rs) @ (if \<exists>r\<in>set rs. rndis_seen r \<noteq> None then [] else [NO_DEVICE])" b'])
        (simp_all add: probe_scan_def)
  qed
qed

text \<open>The daemon sees the same devices.\<close>

definition readable_devices :: "(device_id \<Rightarrow> reading) \<Rightarrow> device_id \<rightharpoonup> config_descriptor list" where
  "readable_devices D i = (case D i of Descriptors configs \<Rightarrow> Some configs | _ \<Rightarrow> None)"

lemma devices_seen_fixed:
  assumes "devices_seen U D"
  shows "devices_fixed U (readable_devices D)"
  unfolding devices_fixed_def
proof (intro allI)
  fix i b
  have "D i = (case ub_open U i b of
        (Inl e, b') \<Rightarrow> CannotOpen e
      | (Inr d, b') \<Rightarrow> (case ud_configurations U d b' of (Inl e, _) \<Rightarrow> CannotRead e | (Inr c, _) \<Rightarrow> Descriptors c))"
    using assms unfolding devices_seen_def by blast
  then show "case ub_open U i b of
        (Inl e, b') \<Rightarrow> readable_devices D i = None
      | (Inr d, b') \<Rightarrow> (case ud_configurations U d b' of
            (Inl e, _) \<Rightarrow> readable_devices D i = None | (Inr c, _) \<Rightarrow> readable_devices D i = Some c)"
    by (auto simp: readable_devices_def split: prod.splits sum.splits)
qed

lemma rndis_of_seen: "rndis_of (readable_devices D) info = rndis_seen (D (di_id info))"
  by (cases "D (di_id info)") (simp_all add: rndis_of_def readable_devices_def)

text \<open>
  C37: The probe shows what is there. When the devices do not change meanwhile, a scan prints, in the order of the list
  and for each device, why it cannot be opened or read, or nothing, or the whole dump if it has an RNDIS
  function; the closing line that there is none is printed exactly when the daemon's own scan would find
  none. It never panics and leaves no handle open.
\<close>

theorem probe_scan_exact:
  assumes "usb_ok U v" and "devices_seen U D" and "ub_list U b = (Inr infos, b1)"
  shows "\<exists>none b'. probe_scan U b =
      Some (concat (map (\<lambda>info. device_lines info (D (di_id info))) infos) @ (if none then [NO_DEVICE] else []), b')
    \<and> bv_handles (v b') = bv_handles (v b)
    \<and> (none \<longleftrightarrow> (\<exists>scan b2. device_find U b = Some (Inr scan, b2) \<and> sc_rndis scan = None))"
proof -
  let ?rs = "map (\<lambda>info. D (di_id info)) infos"
  obtain b' where b': "bv_handles (v b') = bv_handles (v b1)"
    "probe_loop U infos False [] b1 = Some (\<exists>r\<in>set ?rs. rndis_seen r \<noteq> None, concat (map2 device_lines infos ?rs), b')"
    using probe_loop_prints [OF assms(1), of infos b1 False "[]"] assms(2) by auto
  have pairs: "map2 device_lines infos ?rs = map (\<lambda>info. device_lines info (D (di_id info))) infos"
    by (simp add: zip_map2 zip_same_conv_map)
  obtain b2 where find: "find_loop U infos [] b1 = Some (\<lparr>sc_rndis = find_map (\<lambda>i. map_option (Pair i) (rndis_seen (D (di_id i)))) infos,
        sc_idle = map label (filter (readable (readable_devices D)) (takeWhile (\<lambda>i. rndis_seen (D (di_id i)) = None) infos))\<rparr>, b2)"
    using find_loop_scan [OF assms(1) devices_seen_fixed [OF assms(2)], of b1 infos "[]"] by (auto simp: rndis_of_seen)
  have "v b1 = v b" using usb_okD(1) [OF assms(1), of b] assms(3) by simp
  with b' pairs find assms(3) show ?thesis
    by (intro exI [of _ "\<not> (\<exists>r\<in>set ?rs. rndis_seen r \<noteq> None)"] exI [of _ b'])
      (auto simp: probe_scan_def device_find_def find_map_None_iff)
qed

subsection \<open>It disturbs nothing\<close>

text \<open>A backend that differs from another one in every call that changes a device.\<close>

definition same_reads :: "'b usb_backend \<Rightarrow> 'b usb_backend \<Rightarrow> bool" where
  "same_reads U U' \<longleftrightarrow> ub_list U' = ub_list U \<and> ub_open U' = ub_open U \<and> ud_configurations U' = ud_configurations U
     \<and> ub_drop U' = ub_drop U"

lemma probe_loop_same: "same_reads U U' \<Longrightarrow> probe_loop U' infos found out b = probe_loop U infos found out b"
  by (induction U infos found out b rule: probe_loop.induct)
    (auto simp: same_reads_def split: prod.split sum.split option.split)

lemma probe_scan_same:
  assumes "same_reads U U'"
  shows "probe_scan U' = probe_scan U"
proof -
  have list: "ub_list U' = ub_list U" using assms by (simp add: same_reads_def)
  have "probe_loop U' = probe_loop U" by (intro ext) (rule probe_loop_same [OF assms])
  then show ?thesis unfolding probe_scan_def list by (rule arg_cong)
qed

lemma probe_watch_same: "same_reads U U' \<Longrightarrow> probe_watch U' rs b = probe_watch U rs b"
  by (induction U rs b rule: probe_watch.induct) (simp_all add: probe_scan_same split: option.split hotplug_event.split)

lemma probe_watch_handles:
  assumes ok: "usb_ok U v"
  shows "\<exists>out b'. probe_watch U rs b = Some (out, b') \<and> bv_handles (v b') = bv_handles (v b)"
proof (induction rs arbitrary: b)
  case (Cons r rs)
  obtain out b1 where "probe_scan U b = Some (out, b1)" "bv_handles (v b1) = bv_handles (v b)"
    by (rule probe_scan_handles [OF ok])
  with Cons [of b] Cons [of b1] show ?case
    by (cases "next_event r") (auto split: hotplug_event.split)
qed simp

text \<open>
  The probe is safe beside a live session. Whatever is attached, connected and disconnected, it neither panics
  nor leaves a handle open, and it returns unless it watches; and it makes no call but to list, open, read and
  close devices: with any other behaviour of selecting configurations, claiming, setting up and
  transferring it does and prints the same.
\<close>

lemma probe_harmless:
  assumes "usb_ok U v" and "same_reads U U'"
  shows "\<exists>r out b'. probe_run U watch watching rs b = Some (r, out, b') \<and> bv_handles (v b') = bv_handles (v b)
    \<and> (r = None \<longleftrightarrow> watch \<and> \<not> isl watching) \<and> probe_run U' watch watching rs b = Some (r, out, b')"
proof -
  obtain out b1 where scan: "probe_scan U b = Some (out, b1)" "bv_handles (v b1) = bv_handles (v b)"
    by (rule probe_scan_handles [OF assms(1)])
  obtain out' b' where "probe_watch U rs b1 = Some (out', b')" "bv_handles (v b') = bv_handles (v b1)"
    using probe_watch_handles [OF assms(1)] by blast
  with scan show ?thesis
    unfolding probe_run_def probe_scan_same [OF assms(2)] probe_watch_same [OF assms(2)]
    by (cases watch; cases watching) auto
qed

subsection \<open>An example\<close>

theorem probe_scan_exact_witness:
  "\<exists>out b'. probe_scan demo_usb \<lparr>db_handles = [], db_queue = [], db_clock = 0\<rparr> = Some (out, b')
    \<and> out = device_section demo_phone demo_configs demo_function \<and> db_handles b' = []"
proof -
  let ?D = "\<lambda>i :: device_id. Descriptors demo_configs" and ?b = "\<lparr>db_handles = [], db_queue = [], db_clock = 0\<rparr>"
  have "devices_seen demo_usb ?D" by (simp add: devices_seen_def demo_usb_def db_acquire_def)
  moreover have list: "ub_list demo_usb ?b = (Inr [demo_phone], ?b)" by (simp add: demo_usb_def)
  moreover have lines: "device_lines demo_phone (Descriptors demo_configs) = device_section demo_phone demo_configs demo_function"
    by (simp add: device_lines_def demo_find_rndis)
  moreover have "sc_rndis scan \<noteq> None" if "device_find demo_usb ?b = Some (Inr scan, b2)" for scan b2
    using that by (auto simp: device_find_def list demo_find_rndis) (auto simp: demo_usb_def db_acquire_def demo_find_rndis)
  ultimately show ?thesis
    using probe_scan_exact [OF demo_usb_ok, of ?D ?b "[demo_phone]" ?b] by (auto simp: db_view_def)
qed

lemma probe_harmless_witness:
  "\<exists>out b'. probe_run (demo_usb\<lparr>ud_claim_interface := \<lambda>d n b. (Inl UsbStall, b)\<rparr>) False (Inr ()) []
      \<lparr>db_handles = [DeviceHandle 4], db_queue = [], db_clock = 0\<rparr> = Some (Some (Inr ()), out, b')
    \<and> set (db_handles b') = {DeviceHandle 4}"
proof -
  let ?b = "\<lparr>db_handles = [DeviceHandle 4], db_queue = [], db_clock = 0\<rparr>"
    and ?U = "demo_usb\<lparr>ud_claim_interface := \<lambda>d n b. (Inl UsbStall, b)\<rparr>"
  have "same_reads demo_usb ?U" by (simp add: same_reads_def)
  from probe_harmless [OF demo_usb_ok this, of False "Inr ()" "[]" ?b] show ?thesis
    by (auto simp: db_view_def probe_run_def split: option.splits)
qed

end
