(* ===== verification/Unit_Tests.thy ===== *)
theory Unit_Tests
  imports Prelude
begin

text \<open>
  What the translated unit tests of the repository share. A test is a value of \<open>unit option\<close>: \<open>None\<close>
  is a failed assertion or an unwrapped error, as a panic is in the source, and \<open>Some ()\<close> a test that
  passes. The collection \<open>test_simps\<close> holds the equations by which the simplifier runs the model on the
  concrete inputs of the tests.
\<close>

named_theorems test_simps "equations that evaluate the model on the inputs of the unit tests"

definition assert :: "bool \<Rightarrow> unit option" where
  "assert b = (if b then Some () else None)"

text \<open>\<open>Result::unwrap\<close> and \<open>Result::unwrap_err\<close> of a call that may itself panic\<close>

fun unwrap :: "('e + 'a) option \<Rightarrow> 'a option" where
  "unwrap (Some (Inr a)) = Some a"
| "unwrap _ = None"

fun unwrap_err :: "('e + 'a) option \<Rightarrow> 'e option" where
  "unwrap_err (Some (Inl e)) = Some e"
| "unwrap_err _ = None"

lemmas [test_simps] = assert_def Let_def nth_append list_update_append butlast_append
  index_def slice_def resize_def overwrite_def tryq_def tryr_def

end
