(* ===== verification/Unit_Tests_Net.thy ===== *)
theory Unit_Tests_Net
  imports Unit_Tests Arp Ipv4 Dhcp
begin

text \<open>
  The unit tests of \<^verbatim>\<open>src/src/netstack/\<close>, carried over one by one and run on the model. That each of
  them passes ties the definitions to what the authors expect of the code. The tests of ARP read the
  clock within the same instant.
\<close>

fun is_malformed :: "net_error + 'a \<Rightarrow> bool" where
  "is_malformed (Inl (NetMalformed _)) = True"
| "is_malformed _ = False"

subsection \<open>Ethernet\<close>

definition ethernet_test_round_trips_a_frame :: "unit option" where
  "ethernet_test_round_trips_a_frame = do {
     let dst = MacAddr 1 2 3 4 5 6;
     let src = MacAddr 0xAA 0xAA 0xAA 0xAA 0xAA 0xAA;
     let payload = replicate 100 9;
     let built = ethernet_build dst src ETHERTYPE_IPV4 payload;
     f \<leftarrow> unwrap (ethernet_parse built);
     assert (fr_dst f = dst);
     assert (fr_src f = src);
     assert (fr_ethertype f = ETHERTYPE_IPV4);
     assert (take 100 (fr_payload f) = payload)
   }"

definition ethernet_test_pads_short_frames_to_the_ethernet_minimum :: "unit option" where
  "ethernet_test_pads_short_frames_to_the_ethernet_minimum = do {
     let built = ethernet_build MAC_BROADCAST MAC_ZERO ETHERTYPE_ARP [1, 2, 3];
     assert (length built = MIN_FRAME_LEN)
   }"

definition ethernet_test_rejects_a_frame_shorter_than_its_header :: "unit option" where
  "ethernet_test_rejects_a_frame_shorter_than_its_header =
     assert (ethernet_parse (replicate 13 0) = Some (Inl NetTruncated))"

definition ethernet_test_broadcast_counts_as_multicast :: "unit option" where
  "ethernet_test_broadcast_counts_as_multicast = do {
     assert (is_multicast MAC_BROADCAST);
     assert (\<not> is_multicast (MacAddr 0x02 0 0 0 0 1))
   }"


subsection \<open>ARP\<close>

definition arp_test_HOST_MAC :: mac_addr where "arp_test_HOST_MAC = MacAddr 0x02 0 0 0 0 1"
definition arp_test_GW_MAC :: mac_addr where "arp_test_GW_MAC = MacAddr 0x3e 0x02 0x24 0x8f 0xb0 0xcc"
definition arp_test_HOST_IP :: ipv4_addr where "arp_test_HOST_IP = Ipv4Addr 192 168 42 130"
definition arp_test_GW_IP :: ipv4_addr where "arp_test_GW_IP = Ipv4Addr 192 168 42 129"

definition arp_test_request_from_gateway :: "ipv4_addr \<Rightarrow> bytes" where
  "arp_test_request_from_gateway target =
     arp_build \<lparr>ap_op = ARP_OP_REQUEST, ap_sender_mac = arp_test_GW_MAC, ap_sender_ip = arp_test_GW_IP,
                ap_target_mac = MAC_ZERO, ap_target_ip = target\<rparr>"

text \<open>\<open>arp.handle(...).unwrap()\<close>: the reply and the resolver.\<close>

definition arp_test_handle :: "bytes \<Rightarrow> arp \<Rightarrow> (bytes option \<times> arp) option" where
  "arp_test_handle payload arp =
     (case arp_handle 0 payload arp of Some (Inr reply, arp) \<Rightarrow> Some (reply, arp) | _ \<Rightarrow> None)"

definition arp_test_round_trips_a_packet :: "unit option" where
  "arp_test_round_trips_a_packet = do {
     let p = \<lparr>ap_op = ARP_OP_REPLY, ap_sender_mac = arp_test_GW_MAC, ap_sender_ip = arp_test_GW_IP,
              ap_target_mac = arp_test_HOST_MAC, ap_target_ip = arp_test_HOST_IP\<rparr>;
     p' \<leftarrow> unwrap (arp_parse (arp_build p));
     assert (p' = p)
   }"

definition arp_test_replies_to_a_request_for_our_address :: "unit option" where
  "arp_test_replies_to_a_request_for_our_address = do {
     let arp = arp_new arp_test_HOST_MAC arp_test_HOST_IP;
     (reply, arp) \<leftarrow> arp_test_handle (arp_test_request_from_gateway arp_test_HOST_IP) arp;
     frame \<leftarrow> reply;
     eth \<leftarrow> unwrap (ethernet_parse frame);
     assert (fr_dst eth = arp_test_GW_MAC);
     assert (fr_src eth = arp_test_HOST_MAC);
     assert (fr_ethertype eth = ETHERTYPE_ARP);
     reply \<leftarrow> unwrap (arp_parse (fr_payload eth));
     assert (ap_op reply = ARP_OP_REPLY);
     assert (ap_sender_mac reply = arp_test_HOST_MAC);
     assert (ap_sender_ip reply = arp_test_HOST_IP);
     assert (ap_target_ip reply = arp_test_GW_IP)
   }"

definition arp_test_ignores_requests_for_other_addresses :: "unit option" where
  "arp_test_ignores_requests_for_other_addresses = do {
     let arp = arp_new arp_test_HOST_MAC arp_test_HOST_IP;
     let other = Ipv4Addr 192 168 42 200;
     (reply, arp) \<leftarrow> arp_test_handle (arp_test_request_from_gateway other) arp;
     assert (reply = None)
   }"

definition arp_test_learns_the_sender_from_any_arp_traffic :: "unit option" where
  "arp_test_learns_the_sender_from_any_arp_traffic = do {
     let arp = arp_new arp_test_HOST_MAC arp_test_HOST_IP;
     (_, arp) \<leftarrow> arp_test_handle (arp_test_request_from_gateway arp_test_HOST_IP) arp;
     assert (arp_lookup 0 arp arp_test_GW_IP = Some arp_test_GW_MAC)
   }"

definition arp_test_does_not_learn_from_an_unspecified_sender :: "unit option" where
  "arp_test_does_not_learn_from_an_unspecified_sender = do {
     let arp = arp_new arp_test_HOST_MAC arp_test_HOST_IP;
     let probe = arp_build \<lparr>ap_op = ARP_OP_REQUEST, ap_sender_mac = arp_test_GW_MAC, ap_sender_ip = IP_UNSPECIFIED,
                ap_target_mac = MAC_ZERO, ap_target_ip = arp_test_HOST_IP\<rparr>;
     (_, arp) \<leftarrow> arp_test_handle probe arp;
     assert (arp_lookup 0 arp IP_UNSPECIFIED = None)
   }"

definition arp_test_stays_silent_before_we_have_an_address :: "unit option" where
  "arp_test_stays_silent_before_we_have_an_address = do {
     let arp = arp_new arp_test_HOST_MAC IP_UNSPECIFIED;
     let probe = arp_test_request_from_gateway IP_UNSPECIFIED;
     (reply, _) \<leftarrow> arp_test_handle probe arp;
     assert (reply = None)
   }"

definition arp_test_rate_limits_repeat_requests :: "unit option" where
  "arp_test_rate_limits_repeat_requests = do {
     let arp = arp_new arp_test_HOST_MAC arp_test_HOST_IP;
     let (first, arp) = arp_request 0 arp_test_GW_IP arp;
     assert (first \<noteq> None);
     let (second, arp) = arp_request 0 arp_test_GW_IP arp;
     assert (second = None)
   }"

definition arp_test_rejects_truncated_and_non_ipv4_packets :: "unit option" where
  "arp_test_rejects_truncated_and_non_ipv4_packets = do {
     let arp = arp_new arp_test_HOST_MAC arp_test_HOST_IP;
     (r, arp) \<leftarrow> arp_handle 0 (replicate 27 0) arp;
     assert (r = Inl NetTruncated);
     let wrong = arp_test_request_from_gateway arp_test_HOST_IP;
     let wrong = overwrite 2 (to_be16 0x86DD) wrong;
     (r, arp) \<leftarrow> arp_handle 0 wrong arp;
     assert (is_malformed r)
   }"

definition arp_test_rejects_implausible_address_sizes :: "unit option" where
  "arp_test_rejects_implausible_address_sizes = do {
     let p = (arp_test_request_from_gateway arp_test_HOST_IP)[4 := 8];
     r \<leftarrow> arp_parse p;
     assert (is_malformed r)
   }"


subsection \<open>IPv4 and UDP\<close>

definition ipv4_test_datagram :: "bytes \<Rightarrow> udp_datagram" where
  "ipv4_test_datagram payload =
     \<lparr>ud_src_ip = IP_UNSPECIFIED, ud_dst_ip = IP_BROADCAST, ud_src_port = 68, ud_dst_port = 67, ud_payload = payload\<rparr>"

definition ipv4_test_round_trips_a_datagram :: "unit option" where
  "ipv4_test_round_trips_a_datagram = do {
     let payload = replicate 300 7;
     let packet = build_udp (ipv4_test_datagram payload) 0x1234;
     d \<leftarrow> unwrap (parse_udp packet);
     assert (ud_src_ip d = IP_UNSPECIFIED);
     assert (ud_dst_ip d = IP_BROADCAST);
     assert ((ud_src_port d, ud_dst_port d) = (68, 67));
     assert (ud_payload d = payload)
   }"

definition ipv4_test_built_packets_have_valid_checksums :: "unit option" where
  "ipv4_test_built_packets_have_valid_checksums = do {
     let packet = build_udp (ipv4_test_datagram [1, 2, 3]) 1;
     assert (checksum [take 20 packet] = 0)
   }"

definition ipv4_test_odd_length_payload_checksums_the_same_as_a_flat_buffer :: "unit option" where
  "ipv4_test_odd_length_payload_checksums_the_same_as_a_flat_buffer = do {
     let packet = build_udp (ipv4_test_datagram [1, 2, 3, 4, 5]) 1;
     let udp = drop 20 packet;
     let pseudo = [0, 0, 0, 0, 255, 255, 255, 255, 0, PROTO_UDP, 0, of_nat (length udp)];
     let split = checksum [pseudo, udp];
     let flat = pseudo @ udp;
     assert (split = checksum [flat])
   }"

definition ipv4_test_parses_a_packet_carrying_ipv4_options :: "unit option" where
  "ipv4_test_parses_a_packet_carrying_ipv4_options = do {
     let packet = build_udp (ipv4_test_datagram [9, 9]) 1;
     let packet = take 20 packet @ [1, 1, 1, 1] @ drop 20 packet;
     let packet = packet[0 := 0x46];
     let packet = overwrite 2 (to_be16 (of_nat (length packet))) packet;
     d \<leftarrow> unwrap (parse_udp packet);
     assert (ud_payload d = [9, 9])
   }"

definition ipv4_test_ignores_trailing_ethernet_padding :: "unit option" where
  "ipv4_test_ignores_trailing_ethernet_padding = do {
     let packet = build_udp (ipv4_test_datagram [1, 2, 3]) 1;
     let packet = packet @ replicate 20 0;
     d \<leftarrow> unwrap (parse_udp packet);
     assert (ud_payload d = [1, 2, 3])
   }"

definition ipv4_test_rejects_fragments :: "unit option" where
  "ipv4_test_rejects_fragments = do {
     let packet = (build_udp (ipv4_test_datagram [1]) 1)[6 := 0x20];
     r \<leftarrow> parse_udp packet;
     assert (is_malformed r);
     let packet = (build_udp (ipv4_test_datagram [1]) 1)[7 := 1];
     r \<leftarrow> parse_udp packet;
     assert (is_malformed r)
   }"

definition ipv4_test_rejects_a_length_field_longer_than_the_buffer :: "unit option" where
  "ipv4_test_rejects_a_length_field_longer_than_the_buffer = do {
     let packet = build_udp (ipv4_test_datagram [1, 2, 3]) 1;
     let lie = of_nat (length packet) + 100;
     let packet = overwrite 2 (to_be16 lie) packet;
     r \<leftarrow> parse_udp packet;
     assert (r = Inl NetTruncated)
   }"

definition ipv4_test_rejects_a_udp_length_longer_than_the_ip_payload :: "unit option" where
  "ipv4_test_rejects_a_udp_length_longer_than_the_ip_payload = do {
     let packet = build_udp (ipv4_test_datagram [1, 2, 3]) 1;
     let packet = overwrite 24 (to_be16 999) packet;
     r \<leftarrow> parse_udp packet;
     assert (isl r)
   }"

definition ipv4_test_rejects_a_header_length_below_the_minimum :: "unit option" where
  "ipv4_test_rejects_a_header_length_below_the_minimum = do {
     let packet = (build_udp (ipv4_test_datagram [1]) 1)[0 := 0x44];
     r \<leftarrow> parse_udp packet;
     assert (is_malformed r)
   }"

definition ipv4_test_rejects_non_udp_and_non_ipv4 :: "unit option" where
  "ipv4_test_rejects_non_udp_and_non_ipv4 = do {
     let packet = (build_udp (ipv4_test_datagram [1]) 1)[9 := 6];
     r \<leftarrow> parse_udp packet;
     assert (is_malformed r);
     let packet = (build_udp (ipv4_test_datagram [1]) 1)[0 := 0x65];
     r \<leftarrow> parse_udp packet;
     assert (is_malformed r)
   }"


subsection \<open>DHCP\<close>

definition dhcp_test_MAC :: mac_addr where "dhcp_test_MAC = MacAddr 0x02 0x02 0x24 0x8f 0xb0 0xcd"
definition dhcp_test_SERVER :: ipv4_addr where "dhcp_test_SERVER = Ipv4Addr 192 168 42 129"
definition dhcp_test_OFFERED :: ipv4_addr where "dhcp_test_OFFERED = Ipv4Addr 192 168 42 130"

definition dhcp_test_server_reply :: "u32 \<Rightarrow> u8 \<Rightarrow> ipv4_addr \<Rightarrow> (u8 \<times> bytes) list \<Rightarrow> bytes" where
  "dhcp_test_server_reply xid message_type yiaddr options =
     (let m = [DHCP_OP_REPLY, DHCP_HTYPE_ETHERNET, 6, 0] @ to_be32 xid @ replicate 4 0 @ replicate 4 0
            @ octets yiaddr @ octets dhcp_test_SERVER @ replicate 4 0 @ mac_as_bytes dhcp_test_MAC;
          m = resize m BOOTP_LEN 0 @ MAGIC_COOKIE;
          m = push_option m OPT_MESSAGE_TYPE [message_type];
          m = fold (\<lambda>(code, data) m. push_option m code data) options m
      in m @ [OPT_END])"

definition dhcp_test_full_offer :: "u32 \<Rightarrow> u8 \<Rightarrow> bytes" where
  "dhcp_test_full_offer xid message_type =
     dhcp_test_server_reply xid message_type dhcp_test_OFFERED
       [(OPT_SUBNET_MASK, [255, 255, 255, 0]),
        (OPT_ROUTER, octets dhcp_test_SERVER),
        (OPT_DNS, [8, 8, 8, 8, 1, 1, 1, 1]),
        (OPT_SERVER_ID, octets dhcp_test_SERVER),
        (OPT_LEASE_TIME, to_be32 3600),
        (OPT_DOMAIN_NAME, [108, 97, 110]),
        (OPT_INTERFACE_MTU, to_be16 1500)]"

definition dhcp_test_xid_of :: "bytes \<Rightarrow> u32 option" where
  "dhcp_test_xid_of msg = do {
     b4 \<leftarrow> index msg 4; b5 \<leftarrow> index msg 5; b6 \<leftarrow> index msg 6; b7 \<leftarrow> index msg 7;
     Some (from_be32 b4 b5 b6 b7)
   }"

text \<open>The loop of the tests' own \<open>option\<close>. A message without the fixed part, on which the source panics, has no
  option here: a test that looks for one in it fails either way.\<close>

fun dhcp_test_option_loop :: "u8 \<Rightarrow> bytes \<Rightarrow> bytes option" where
  "dhcp_test_option_loop code [] = None"
| "dhcp_test_option_loop code (c # tail) =
     (if c = OPT_END then None
      else if c = OPT_PAD then dhcp_test_option_loop code tail
      else
        (case tail of
           [] \<Rightarrow> None
         | len # tail \<Rightarrow>
             if length tail < unat len then None
             else if c = code then Some (take (unat len) tail)
             else dhcp_test_option_loop code (drop (unat len) tail)))"

definition dhcp_test_option :: "bytes \<Rightarrow> u8 \<Rightarrow> bytes option" where
  "dhcp_test_option msg code = dhcp_test_option_loop code (drop (BOOTP_LEN + 4) msg)"

text \<open>\<open>c.handle(...).unwrap()\<close>\<close>

definition dhcp_test_handle :: "bytes \<Rightarrow> dhcp_client \<Rightarrow> (dhcp_event \<times> dhcp_client) option" where
  "dhcp_test_handle msg c = (case dhcp_handle c msg of Some (Inr ev, c) \<Rightarrow> Some (ev, c) | _ \<Rightarrow> None)"

fun sends :: "dhcp_event \<Rightarrow> bytes option" where
  "sends (EvSend m) = Some m"
| "sends _ = None"

fun binds :: "dhcp_event \<Rightarrow> lease option" where
  "binds (EvBound l) = Some l"
| "binds _ = None"

definition dhcp_test_bind :: "(dhcp_client \<times> lease) option" where
  "dhcp_test_bind = do {
     let c = dhcp_new dhcp_test_MAC 0x1234;
     let (discover, c) = dhcp_discover c;
     xid \<leftarrow> dhcp_test_xid_of discover;
     (ev, c) \<leftarrow> dhcp_test_handle (dhcp_test_full_offer xid OFFER) c;
     request \<leftarrow> sends ev;
     assert (dhcp_test_option request OPT_MESSAGE_TYPE = Some [REQUEST]);
     (ev, c) \<leftarrow> dhcp_test_handle (dhcp_test_full_offer xid ACK) c;
     lease \<leftarrow> binds ev;
     Some (c, lease)
   }"

definition dhcp_test_completes_the_four_way_exchange :: "unit option" where
  "dhcp_test_completes_the_four_way_exchange = do {
     (client, lease) \<leftarrow> dhcp_test_bind;
     assert (dhcp_retransmit client = None);
     assert (le_ip lease = dhcp_test_OFFERED);
     assert (le_netmask lease = Ipv4Addr 255 255 255 0);
     assert (le_router lease = Some dhcp_test_SERVER);
     assert (le_dns lease = [Ipv4Addr 8 8 8 8, Ipv4Addr 1 1 1 1]);
     assert (le_domain lease = Some [108, 97, 110]);
     assert (le_mtu lease = Some 1500);
     assert (le_lease_time lease = from_secs 3600);
     assert (le_renewal_time lease = from_secs 1800);
     assert (lease_prefix_len lease = 24)
   }"

definition dhcp_test_discover_asks_for_the_options_we_need :: "unit option" where
  "dhcp_test_discover_asks_for_the_options_we_need = do {
     let c = dhcp_new dhcp_test_MAC 1;
     let (d, c) = dhcp_discover c;
     assert (dhcp_test_option d OPT_MESSAGE_TYPE = Some [DISCOVER]);
     params \<leftarrow> dhcp_test_option d OPT_PARAM_REQUEST;
     assert (list_all (\<lambda>wanted. wanted \<in> set params) [OPT_SUBNET_MASK, OPT_ROUTER, OPT_DNS, OPT_LEASE_TIME]);
     assert (300 \<le> length d)
   }"

definition dhcp_test_request_echoes_the_offered_address_and_server :: "unit option" where
  "dhcp_test_request_echoes_the_offered_address_and_server = do {
     let c = dhcp_new dhcp_test_MAC 0x1234;
     let (discover, c) = dhcp_discover c;
     xid \<leftarrow> dhcp_test_xid_of discover;
     (ev, c) \<leftarrow> dhcp_test_handle (dhcp_test_full_offer xid OFFER) c;
     request \<leftarrow> sends ev;
     assert (dhcp_test_option request OPT_REQUESTED_IP = Some (octets dhcp_test_OFFERED));
     assert (dhcp_test_option request OPT_SERVER_ID = Some (octets dhcp_test_SERVER))
   }"

definition dhcp_test_ignores_replies_for_another_transaction :: "unit option" where
  "dhcp_test_ignores_replies_for_another_transaction = do {
     let c = dhcp_new dhcp_test_MAC 0x1234;
     let (discover, c) = dhcp_discover c;
     xid \<leftarrow> dhcp_test_xid_of discover;
     (ev, c) \<leftarrow> dhcp_test_handle (dhcp_test_full_offer (xid XOR 0xFFFF) OFFER) c;
     assert (ev = EvIgnored);
     again \<leftarrow> dhcp_retransmit c;
     assert (dhcp_test_option again OPT_MESSAGE_TYPE = Some [DISCOVER])
   }"

definition dhcp_test_ignores_replies_addressed_to_another_client :: "unit option" where
  "dhcp_test_ignores_replies_addressed_to_another_client = do {
     let c = dhcp_new dhcp_test_MAC 0x1234;
     let (discover, c) = dhcp_discover c;
     xid \<leftarrow> dhcp_test_xid_of discover;
     let offer = dhcp_test_full_offer xid OFFER;
     let offer = offer[28 := offer ! 28 XOR 0xFF];
     (ev, c) \<leftarrow> dhcp_test_handle offer c;
     assert (ev = EvIgnored)
   }"

definition dhcp_test_a_nak_drops_the_lease :: "unit option" where
  "dhcp_test_a_nak_drops_the_lease = do {
     (c, _) \<leftarrow> dhcp_test_bind;
     let (renew, c) = dhcp_renew c;
     _ \<leftarrow> renew;
     (ev, c) \<leftarrow> dhcp_test_handle (dhcp_test_server_reply (dc_xid c) NAK IP_UNSPECIFIED []) c;
     assert (ev = EvNak);
     assert (dhcp_retransmit c = None)
   }"

definition dhcp_test_renewal_rebinds_on_ack :: "unit option" where
  "dhcp_test_renewal_rebinds_on_ack = do {
     (c, _) \<leftarrow> dhcp_test_bind;
     let (renew, c) = dhcp_renew c;
     renew \<leftarrow> renew;
     assert (take 2 (drop 10 renew) = [0, 0]);
     assert (take 4 (drop 12 renew) = octets dhcp_test_OFFERED);
     (ev, c) \<leftarrow> dhcp_test_handle (dhcp_test_full_offer (dc_xid c) ACK) c;
     assert (binds ev \<noteq> None)
   }"

definition dhcp_test_falls_back_to_the_server_as_gateway_when_no_router_option :: "unit option" where
  "dhcp_test_falls_back_to_the_server_as_gateway_when_no_router_option = do {
     let c = dhcp_new dhcp_test_MAC 0x1234;
     let (discover, c) = dhcp_discover c;
     xid \<leftarrow> dhcp_test_xid_of discover;
     let minimal = (\<lambda>t. dhcp_test_server_reply xid t dhcp_test_OFFERED [(OPT_SERVER_ID, octets dhcp_test_SERVER)]);
     (_, c) \<leftarrow> dhcp_test_handle (minimal OFFER) c;
     (ev, c) \<leftarrow> dhcp_test_handle (minimal ACK) c;
     lease \<leftarrow> binds ev;
     assert (le_router lease = Some dhcp_test_SERVER);
     assert (0 < le_lease_time lease)
   }"

definition dhcp_test_rejects_an_ack_without_an_address :: "unit option" where
  "dhcp_test_rejects_an_ack_without_an_address = do {
     let c = dhcp_new dhcp_test_MAC 0x1234;
     let (discover, c) = dhcp_discover c;
     xid \<leftarrow> dhcp_test_xid_of discover;
     (_, c) \<leftarrow> dhcp_test_handle (dhcp_test_full_offer xid OFFER) c;
     let bad = dhcp_test_server_reply xid ACK IP_UNSPECIFIED [(OPT_SERVER_ID, octets dhcp_test_SERVER)];
     (r, c) \<leftarrow> dhcp_handle c bad;
     assert (is_malformed r)
   }"

definition dhcp_test_rejects_truncated_and_corrupt_messages :: "unit option" where
  "dhcp_test_rejects_truncated_and_corrupt_messages = do {
     let c = dhcp_new dhcp_test_MAC 0x1234;
     let (_, c) = dhcp_discover c;
     (r, c) \<leftarrow> dhcp_handle c (replicate 100 0);
     assert (r = Inl NetTruncated);
     let bad_cookie = (dhcp_test_full_offer (dc_xid c) OFFER)[BOOTP_LEN := 0];
     (r, c) \<leftarrow> dhcp_handle c bad_cookie;
     assert (is_malformed r);
     let not_a_reply = (dhcp_test_full_offer (dc_xid c) OFFER)[0 := DHCP_OP_REQUEST];
     (r, c) \<leftarrow> dhcp_handle c not_a_reply;
     assert (is_malformed r)
   }"

definition dhcp_test_rejects_an_option_running_past_the_message :: "unit option" where
  "dhcp_test_rejects_an_option_running_past_the_message = do {
     let c = dhcp_new dhcp_test_MAC 0x1234;
     let (_, c) = dhcp_discover c;
     let msg = butlast (dhcp_test_full_offer (dc_xid c) OFFER) @ [OPT_DNS, 200];
     (r, c) \<leftarrow> dhcp_handle c msg;
     assert (r = Inl NetTruncated);
     let exact = butlast (dhcp_test_full_offer (dc_xid c) OFFER) @ [OPT_DNS, 4, 9, 9, 9, 9];
     (r, c) \<leftarrow> dhcp_handle c exact;
     assert (\<not> isl r)
   }"

definition dhcp_test_rejects_a_message_with_no_type_option :: "unit option" where
  "dhcp_test_rejects_a_message_with_no_type_option = do {
     let c = dhcp_new dhcp_test_MAC 0x1234;
     let (_, c) = dhcp_discover c;
     let m = [DHCP_OP_REPLY, DHCP_HTYPE_ETHERNET, 6, 0] @ to_be32 (dc_xid c);
     let m = resize m BOOTP_LEN 0 @ MAGIC_COOKIE @ [OPT_END];
     (r, c) \<leftarrow> dhcp_handle c m;
     assert (is_malformed r)
   }"

definition dhcp_test_a_new_discover_uses_a_fresh_transaction_id :: "unit option" where
  "dhcp_test_a_new_discover_uses_a_fresh_transaction_id = do {
     let c = dhcp_new dhcp_test_MAC 0x1234;
     let (d1, c) = dhcp_discover c;
     first \<leftarrow> dhcp_test_xid_of d1;
     let (d2, c) = dhcp_discover c;
     second \<leftarrow> dhcp_test_xid_of d2;
     assert (first \<noteq> second)
   }"

definition dhcp_test_retransmit_repeats_the_pending_message_only :: "unit option" where
  "dhcp_test_retransmit_repeats_the_pending_message_only = do {
     let c = dhcp_new dhcp_test_MAC 0x1234;
     assert (dhcp_retransmit c = None);
     let (discover, c) = dhcp_discover c;
     xid \<leftarrow> dhcp_test_xid_of discover;
     again \<leftarrow> dhcp_retransmit c;
     assert (dhcp_test_option again OPT_MESSAGE_TYPE = Some [DISCOVER]);
     (_, c) \<leftarrow> dhcp_test_handle (dhcp_test_full_offer xid OFFER) c;
     again \<leftarrow> dhcp_retransmit c;
     assert (dhcp_test_option again OPT_MESSAGE_TYPE = Some [REQUEST]);
     (_, c) \<leftarrow> dhcp_test_handle (dhcp_test_full_offer xid ACK) c;
     assert (dhcp_retransmit c = None)
   }"

subsection \<open>The tests pass\<close>

lemmas [test_simps] = const_simps to_be16_def from_be16_def to_be32_def from_be32_def IP_UNSPECIFIED_def
  IP_BROADCAST_def is_unspecified_def MAC_ZERO_def MAC_BROADCAST_def mac_at_def ENTRY_TTL_def
  RETRY_INTERVAL_def ethernet_build_def ethernet_parse_def mac_from_slice_def
lemmas [test_simps] = arp_build_def arp_parse_def arp_ipv4_def arp_new_def arp_handle_def arp_learn_def
  arp_insert_def arp_lookup_def arp_request_def build_udp_def parse_udp_def
lemmas [test_simps] = dhcp_new_def dhcp_discover_def dhcp_build_def push_option_def dhcp_handle_def
  dhcp_parse_def dhcp_handle_parsed_def lease_from_def apply_option_def dhcp_ipv4_def seconds_def
  from_secs_def parse_domain_def trim_end_nul_def dhcp_renew_def dhcp_retransmit_def parsed_default_def
  lease_prefix_len_def
lemmas [test_simps] = arp_test_HOST_MAC_def arp_test_GW_MAC_def arp_test_HOST_IP_def
  arp_test_GW_IP_def arp_test_request_from_gateway_def arp_test_handle_def ipv4_test_datagram_def
  dhcp_test_MAC_def dhcp_test_SERVER_def dhcp_test_OFFERED_def dhcp_test_server_reply_def
  dhcp_test_full_offer_def dhcp_test_xid_of_def dhcp_test_option_def dhcp_test_handle_def

text \<open>Ethernet\<close>

lemma ethernet_test_round_trips_a_frame_passes: "ethernet_test_round_trips_a_frame = Some ()"
  by (simp add: test_simps ethernet_test_round_trips_a_frame_def)

lemma ethernet_test_pads_short_frames_to_the_ethernet_minimum_passes:
  "ethernet_test_pads_short_frames_to_the_ethernet_minimum = Some ()"
  by (simp add: test_simps ethernet_test_pads_short_frames_to_the_ethernet_minimum_def)

lemma ethernet_test_rejects_a_frame_shorter_than_its_header_passes:
  "ethernet_test_rejects_a_frame_shorter_than_its_header = Some ()"
  by (simp add: test_simps ethernet_test_rejects_a_frame_shorter_than_its_header_def)

lemma ethernet_test_broadcast_counts_as_multicast_passes:
  "ethernet_test_broadcast_counts_as_multicast = Some ()"
  by (simp add: test_simps ethernet_test_broadcast_counts_as_multicast_def)

text \<open>ARP\<close>

lemma arp_test_round_trips_a_packet_passes: "arp_test_round_trips_a_packet = Some ()"
  by (simp add: test_simps arp_test_round_trips_a_packet_def)

lemma arp_test_replies_to_a_request_for_our_address_passes:
  "arp_test_replies_to_a_request_for_our_address = Some ()"
  by (simp add: test_simps arp_test_replies_to_a_request_for_our_address_def)

lemma arp_test_ignores_requests_for_other_addresses_passes:
  "arp_test_ignores_requests_for_other_addresses = Some ()"
  by (simp add: test_simps arp_test_ignores_requests_for_other_addresses_def)

lemma arp_test_learns_the_sender_from_any_arp_traffic_passes:
  "arp_test_learns_the_sender_from_any_arp_traffic = Some ()"
  by (simp add: test_simps arp_test_learns_the_sender_from_any_arp_traffic_def)

lemma arp_test_does_not_learn_from_an_unspecified_sender_passes:
  "arp_test_does_not_learn_from_an_unspecified_sender = Some ()"
  by (simp add: test_simps arp_test_does_not_learn_from_an_unspecified_sender_def)

lemma arp_test_stays_silent_before_we_have_an_address_passes:
  "arp_test_stays_silent_before_we_have_an_address = Some ()"
  by (simp add: test_simps arp_test_stays_silent_before_we_have_an_address_def)

lemma arp_test_rate_limits_repeat_requests_passes: "arp_test_rate_limits_repeat_requests = Some ()"
  by (simp add: test_simps arp_test_rate_limits_repeat_requests_def)

lemma arp_test_rejects_truncated_and_non_ipv4_packets_passes:
  "arp_test_rejects_truncated_and_non_ipv4_packets = Some ()"
  by (simp add: test_simps arp_test_rejects_truncated_and_non_ipv4_packets_def)

lemma arp_test_rejects_implausible_address_sizes_passes:
  "arp_test_rejects_implausible_address_sizes = Some ()"
  by (simp add: test_simps arp_test_rejects_implausible_address_sizes_def)

text \<open>IPv4 and UDP\<close>

lemma ipv4_test_round_trips_a_datagram_passes: "ipv4_test_round_trips_a_datagram = Some ()"
  by (simp add: test_simps ipv4_test_round_trips_a_datagram_def)

lemma ipv4_test_built_packets_have_valid_checksums_passes:
  "ipv4_test_built_packets_have_valid_checksums = Some ()"
  by (simp add: test_simps ipv4_test_built_packets_have_valid_checksums_def checksum_def
        checksum_part_def checksum_finish_def fold_carry.simps del: Let_def)

lemma ipv4_test_odd_length_payload_checksums_the_same_as_a_flat_buffer_passes:
  "ipv4_test_odd_length_payload_checksums_the_same_as_a_flat_buffer = Some ()"
  by (simp add: test_simps ipv4_test_odd_length_payload_checksums_the_same_as_a_flat_buffer_def
        checksum_def checksum_part_def checksum_finish_def fold_carry.simps del: Let_def)

lemma ipv4_test_parses_a_packet_carrying_ipv4_options_passes:
  "ipv4_test_parses_a_packet_carrying_ipv4_options = Some ()"
  by (simp add: test_simps ipv4_test_parses_a_packet_carrying_ipv4_options_def)

lemma ipv4_test_ignores_trailing_ethernet_padding_passes:
  "ipv4_test_ignores_trailing_ethernet_padding = Some ()"
  by (simp add: test_simps ipv4_test_ignores_trailing_ethernet_padding_def)

lemma ipv4_test_rejects_fragments_passes: "ipv4_test_rejects_fragments = Some ()"
  by (simp add: test_simps ipv4_test_rejects_fragments_def)

lemma ipv4_test_rejects_a_length_field_longer_than_the_buffer_passes:
  "ipv4_test_rejects_a_length_field_longer_than_the_buffer = Some ()"
  by (simp add: test_simps ipv4_test_rejects_a_length_field_longer_than_the_buffer_def)

lemma ipv4_test_rejects_a_udp_length_longer_than_the_ip_payload_passes:
  "ipv4_test_rejects_a_udp_length_longer_than_the_ip_payload = Some ()"
  by (simp add: test_simps ipv4_test_rejects_a_udp_length_longer_than_the_ip_payload_def)

lemma ipv4_test_rejects_a_header_length_below_the_minimum_passes:
  "ipv4_test_rejects_a_header_length_below_the_minimum = Some ()"
  by (simp add: test_simps ipv4_test_rejects_a_header_length_below_the_minimum_def)

lemma ipv4_test_rejects_non_udp_and_non_ipv4_passes: "ipv4_test_rejects_non_udp_and_non_ipv4 = Some ()"
  by (simp add: test_simps ipv4_test_rejects_non_udp_and_non_ipv4_def)

text \<open>DHCP: the state and the lease the exchange of \<open>bind\<close> ends in, computed once for the tests that start
  from it.\<close>

definition dhcp_test_lease :: lease where
  "dhcp_test_lease = \<lparr>le_ip = dhcp_test_OFFERED, le_netmask = Ipv4Addr 255 255 255 0,
     le_router = Some dhcp_test_SERVER, le_dns = [Ipv4Addr 8 8 8 8, Ipv4Addr 1 1 1 1],
     le_domain = Some [108, 97, 110], le_mtu = Some 1500, le_server_id = dhcp_test_SERVER,
     le_lease_time = from_secs 3600, le_renewal_time = from_secs 1800\<rparr>"

lemma count_ones_24 [test_simps]: "length (filter (bit (4294967040 :: u32)) [0..<32]) = 24"
  by code_simp

lemma dhcp_test_bind_eq:
  "dhcp_test_bind =
     Some ((dhcp_new dhcp_test_MAC 180656131) \<lparr>dc_state := Bound, dc_offered := Some dhcp_test_OFFERED,
             dc_server_id := Some dhcp_test_SERVER, dc_lease := Some dhcp_test_lease\<rparr>, dhcp_test_lease)"
  by (simp add: test_simps dhcp_test_bind_def dhcp_test_lease_def)

lemma dhcp_test_completes_the_four_way_exchange_passes:
  "dhcp_test_completes_the_four_way_exchange = Some ()"
  by (simp add: test_simps dhcp_test_completes_the_four_way_exchange_def dhcp_test_bind_eq
        dhcp_test_lease_def)

lemma dhcp_test_discover_asks_for_the_options_we_need_passes:
  "dhcp_test_discover_asks_for_the_options_we_need = Some ()"
  by (simp add: test_simps dhcp_test_discover_asks_for_the_options_we_need_def)

lemma dhcp_test_request_echoes_the_offered_address_and_server_passes:
  "dhcp_test_request_echoes_the_offered_address_and_server = Some ()"
  by (simp add: test_simps dhcp_test_request_echoes_the_offered_address_and_server_def)

lemma dhcp_test_ignores_replies_for_another_transaction_passes:
  "dhcp_test_ignores_replies_for_another_transaction = Some ()"
  by (simp add: test_simps dhcp_test_ignores_replies_for_another_transaction_def)

lemma dhcp_test_ignores_replies_addressed_to_another_client_passes:
  "dhcp_test_ignores_replies_addressed_to_another_client = Some ()"
  by (simp add: test_simps dhcp_test_ignores_replies_addressed_to_another_client_def)

lemma dhcp_test_a_nak_drops_the_lease_passes: "dhcp_test_a_nak_drops_the_lease = Some ()"
  by (simp add: test_simps dhcp_test_a_nak_drops_the_lease_def dhcp_test_bind_eq dhcp_test_lease_def)

lemma dhcp_test_renewal_rebinds_on_ack_passes: "dhcp_test_renewal_rebinds_on_ack = Some ()"
  by (simp add: test_simps dhcp_test_renewal_rebinds_on_ack_def dhcp_test_bind_eq dhcp_test_lease_def)

lemma dhcp_test_falls_back_to_the_server_as_gateway_when_no_router_option_passes:
  "dhcp_test_falls_back_to_the_server_as_gateway_when_no_router_option = Some ()"
  by (simp add: test_simps dhcp_test_falls_back_to_the_server_as_gateway_when_no_router_option_def)

lemma dhcp_test_rejects_an_ack_without_an_address_passes:
  "dhcp_test_rejects_an_ack_without_an_address = Some ()"
  by (simp add: test_simps dhcp_test_rejects_an_ack_without_an_address_def)

lemma dhcp_test_rejects_truncated_and_corrupt_messages_passes:
  "dhcp_test_rejects_truncated_and_corrupt_messages = Some ()"
  by (simp add: test_simps dhcp_test_rejects_truncated_and_corrupt_messages_def)

lemma dhcp_test_rejects_an_option_running_past_the_message_passes:
  "dhcp_test_rejects_an_option_running_past_the_message = Some ()"
  by (simp add: test_simps dhcp_test_rejects_an_option_running_past_the_message_def)

lemma dhcp_test_rejects_a_message_with_no_type_option_passes:
  "dhcp_test_rejects_a_message_with_no_type_option = Some ()"
  by (simp add: test_simps dhcp_test_rejects_a_message_with_no_type_option_def)

lemma dhcp_test_a_new_discover_uses_a_fresh_transaction_id_passes:
  "dhcp_test_a_new_discover_uses_a_fresh_transaction_id = Some ()"
  by (simp add: test_simps dhcp_test_a_new_discover_uses_a_fresh_transaction_id_def)

lemma dhcp_test_retransmit_repeats_the_pending_message_only_passes:
  "dhcp_test_retransmit_repeats_the_pending_message_only = Some ()"
  by (simp add: test_simps dhcp_test_retransmit_repeats_the_pending_message_only_def)

end
