(* ===== verification/Unit_Tests_Rndis.thy ===== *)
theory Unit_Tests_Rndis
  imports Unit_Tests Rndis_Packet Rndis_Control
begin

text \<open>
  The unit tests of \<^verbatim>\<open>src/src/rndis/\<close>, carried over one by one and run on the model: the message
  layouts of \<^verbatim>\<open>wire.rs\<close>, the framing of \<^verbatim>\<open>packet.rs\<close>, and the control channel of
  \<^verbatim>\<open>control.rs\<close> against its scripted devices, which are instances of the transport parameter.
\<close>

subsection \<open>Messages\<close>

text \<open>\<open>for v in [...] { m.extend_from_slice(&v.to_le_bytes()) }\<close> on an empty vector\<close>

definition extend_words :: "u32 list \<Rightarrow> bytes" where
  "extend_words vs = fold (\<lambda>v m. m @ to_le32 v) vs []"

definition wire_test_init_message_matches_the_wire_layout :: "unit option" where
  "wire_test_init_message_matches_the_wire_layout = do {
     let m = encode_init 1 0x4000;
     assert (length m = 24);
     assert (m = [0x02, 0, 0, 0,  24, 0, 0, 0,  1, 0, 0, 0,  1, 0, 0, 0,  0, 0, 0, 0,  0x00, 0x40, 0, 0])
   }"

definition wire_test_set_message_points_at_its_own_payload :: "unit option" where
  "wire_test_set_message_points_at_its_own_payload = do {
     let m = encode_set 7 OID_GEN_CURRENT_PACKET_FILTER (to_le32 0x2F);
     msg_len \<leftarrow> unwrap (Some (u32_at m 4));
     assert (unat msg_len = length m);
     len \<leftarrow> unwrap (Some (u32_at m 16));
     offset \<leftarrow> unwrap (Some (u32_at m 20));
     info \<leftarrow> slice (OFFSET_BASE + unat offset) (OFFSET_BASE + unat offset + unat len) m;
     assert (info = [0x2F, 0, 0, 0])
   }"

definition wire_test_init_complete_bytes :: "u32 \<Rightarrow> bytes" where
  "wire_test_init_complete_bytes alignment_exponent =
     extend_words [MSG_INIT_C, 52, 1, STATUS_SUCCESS, 1, 0, 0, 0, 8, 0x4000, alignment_exponent, 0, 0]"

definition wire_test_decodes_init_complete_and_expands_the_alignment_exponent :: "unit option" where
  "wire_test_decodes_init_complete_and_expands_the_alignment_exponent = do {
     c \<leftarrow> unwrap (Some (decode_init_complete (wire_test_init_complete_bytes 2)));
     assert (ic_status c = STATUS_SUCCESS);
     assert (ic_max_transfer_size c = 0x4000);
     assert (ic_max_packets_per_transfer c = 8);
     assert (ic_packet_alignment c = 4)
   }"

definition wire_test_absurd_alignment_exponent_does_not_shift_overflow :: "unit option" where
  "wire_test_absurd_alignment_exponent_does_not_shift_overflow = do {
     c \<leftarrow> unwrap (Some (decode_init_complete (wire_test_init_complete_bytes 0xFFFFFFFF)));
     assert (ic_packet_alignment c = 1)
   }"

definition wire_test_truncated_init_complete_is_rejected :: "unit option" where
  "wire_test_truncated_init_complete_is_rejected = do {
     short \<leftarrow> slice 0 20 (wire_test_init_complete_bytes 2);
     assert (decode_init_complete short = Inl RndisTruncated)
   }"

definition wire_test_decodes_a_mac_address_from_query_complete :: "unit option" where
  "wire_test_decodes_a_mac_address_from_query_complete = do {
     let mac = [0x11, 0x22, 0x33, 0x44, 0x55, 0x66];
     let m = extend_words [MSG_QUERY_C, 30, 3, STATUS_SUCCESS, 6, 16] @ mac;
     (id, status, info) \<leftarrow> unwrap (Some (decode_query_complete m));
     assert ((id, status) = (3, STATUS_SUCCESS));
     assert (info = mac)
   }"

definition wire_test_query_complete_information_buffer_cannot_escape_the_message :: "unit option" where
  "wire_test_query_complete_information_buffer_cannot_escape_the_message =
     assert (decode_query_complete (extend_words [MSG_QUERY_C, 24, 3, STATUS_SUCCESS, 6, 4096])
       = Inl RndisTruncated)"

definition wire_test_query_complete_offset_length_overflow_is_rejected :: "unit option" where
  "wire_test_query_complete_offset_length_overflow_is_rejected =
     assert (decode_query_complete
         (extend_words [MSG_QUERY_C, 24, 3, STATUS_SUCCESS, 0xFFFFFFFF, 0xFFFFFFFF])
       = Inl RndisTruncated)"

definition wire_test_failed_query_yields_status_without_an_information_buffer :: "unit option" where
  "wire_test_failed_query_yields_status_without_an_information_buffer = do {
     let m = extend_words [MSG_QUERY_C, 24, 3, 0xC0000001, 0, 0];
     (_, status, info) \<leftarrow> unwrap (Some (decode_query_complete m));
     assert (status = 0xC0000001);
     assert (info = [])
   }"

subsection \<open>Packets\<close>

definition packet_test_frame :: "usize \<Rightarrow> bytes" where
  "packet_test_frame len = map of_nat [0..<len]"

text \<open>\<open>collect\<close> into a \<open>Result\<close>: the values, or the first error\<close>

fun collect_results :: "('e + 'a) list \<Rightarrow> 'e + 'a list" where
  "collect_results [] = Inr []"
| "collect_results (Inl e # rs) = Inl e"
| "collect_results (Inr a # rs) = tryr (collect_results rs) (\<lambda>as. Inr (a # as))"

definition packet_test_collect :: "bytes \<Rightarrow> (rndis_error + bytes list) option" where
  "packet_test_collect buf = map_option collect_results (packet_decode buf)"

definition packet_test_encode :: "bytes \<Rightarrow> bytes" where
  "packet_test_encode frame = packet_append [] frame 1"

text \<open>\<open>buf[a..a + 4].copy_from_slice(&w.to_le_bytes())\<close>\<close>

definition put_word :: "usize \<Rightarrow> u32 \<Rightarrow> bytes \<Rightarrow> bytes option" where
  "put_word a w buf = (if a + 4 \<le> length buf then Some (overwrite a (to_le32 w) buf) else None)"

definition packet_test_round_trips_a_single_frame :: "unit option" where
  "packet_test_round_trips_a_single_frame = do {
     let f = packet_test_frame 64;
     frames \<leftarrow> unwrap (packet_test_collect (packet_test_encode f));
     assert (frames = [f])
   }"

definition packet_test_splits_aggregated_frames_from_one_transfer :: "unit option" where
  "packet_test_splits_aggregated_frames_from_one_transfer = do {
     let (a, b, c) = (packet_test_frame 64, packet_test_frame 100, packet_test_frame 1514);
     let buf = packet_test_encode a;
     let buf = buf @ packet_test_encode b;
     let buf = buf @ packet_test_encode c;
     frames \<leftarrow> unwrap (packet_test_collect buf);
     assert (frames = [a, b, c])
   }"

definition packet_test_ignores_trailing_padding_shorter_than_a_header :: "unit option" where
  "packet_test_ignores_trailing_padding_shorter_than_a_header = do {
     let f = packet_test_frame 64;
     let buf = packet_test_encode f @ replicate 16 0;
     frames \<leftarrow> unwrap (packet_test_collect buf);
     assert (frames = [f])
   }"

definition packet_test_empty_transfer_yields_nothing :: "unit option" where
  "packet_test_empty_transfer_yields_nothing = do {
     frames \<leftarrow> unwrap (packet_test_collect []);
     assert (frames = [])
   }"

definition packet_test_rejects_data_length_running_past_the_message :: "unit option" where
  "packet_test_rejects_data_length_running_past_the_message = do {
     buf \<leftarrow> put_word 12 9999 (packet_test_encode (packet_test_frame 64));
     r \<leftarrow> packet_test_collect buf;
     assert (isl r)
   }"

definition packet_test_rejects_data_offset_running_past_the_message :: "unit option" where
  "packet_test_rejects_data_offset_running_past_the_message = do {
     buf \<leftarrow> put_word 8 9999 (packet_test_encode (packet_test_frame 64));
     r \<leftarrow> packet_test_collect buf;
     assert (isl r)
   }"

definition packet_test_rejects_message_length_beyond_the_transfer :: "unit option" where
  "packet_test_rejects_message_length_beyond_the_transfer = do {
     let buf = packet_test_encode (packet_test_frame 64);
     let too_long = of_nat (length buf) + 1;
     buf \<leftarrow> put_word 4 too_long buf;
     r \<leftarrow> packet_test_collect buf;
     assert (isl r)
   }"

definition packet_test_rejects_message_length_shorter_than_the_header :: "unit option" where
  "packet_test_rejects_message_length_shorter_than_the_header = do {
     buf \<leftarrow> put_word 4 8 (packet_test_encode (packet_test_frame 64));
     r \<leftarrow> packet_test_collect buf;
     assert (isl r)
   }"

definition packet_test_rejects_a_non_packet_message :: "unit option" where
  "packet_test_rejects_a_non_packet_message = do {
     buf \<leftarrow> put_word 0 0x80000002 (packet_test_encode (packet_test_frame 64));
     r \<leftarrow> packet_test_collect buf;
     assert (isl r)
   }"

definition packet_test_stops_after_a_malformed_packet_instead_of_looping :: "unit option" where
  "packet_test_stops_after_a_malformed_packet_instead_of_looping = do {
     buf \<leftarrow> put_word 4 0 (packet_test_encode (packet_test_frame 64));
     let buf = buf @ packet_test_encode (packet_test_frame 64);
     results \<leftarrow> packet_decode buf;
     assert (length results = 1);
     r \<leftarrow> index results 0;
     assert (isl r)
   }"

definition packet_test_appends_several_frames_into_one_transfer :: "unit option" where
  "packet_test_appends_several_frames_into_one_transfer = do {
     let (a, b, c) = (packet_test_frame 64, packet_test_frame 100, packet_test_frame 1514);
     let buf = fold (\<lambda>f buf. packet_append buf f 1) [a, b, c] [];
     frames \<leftarrow> unwrap (packet_test_collect buf);
     assert (frames = [a, b, c])
   }"

definition packet_test_alignment_padding_keeps_frames_intact_and_aligned :: "unit option" where
  "packet_test_alignment_padding_keeps_frames_intact_and_aligned = do {
     let (a, b) = (packet_test_frame 65, packet_test_frame 101);
     let buf = packet_append [] a 8;
     let first_len = length buf;
     let buf = packet_append buf b 8;
     assert (first_len mod 8 = 0);
     frames \<leftarrow> unwrap (packet_test_collect buf);
     assert (frames = [a, b])
   }"

definition packet_test_alignment_of_zero_is_treated_as_one :: "unit option" where
  "packet_test_alignment_of_zero_is_treated_as_one = do {
     let f = packet_test_frame 64;
     let buf = packet_append [] f 0;
     frames \<leftarrow> unwrap (packet_test_collect buf);
     assert (frames = [f])
   }"

definition packet_test_accepts_a_larger_than_minimum_data_offset :: "unit option" where
  "packet_test_accepts_a_larger_than_minimum_data_offset = do {
     let f = packet_test_frame 64;
     let pad = 8;
     let buf = packet_test_encode f;
     before \<leftarrow> slice 0 DATA_HEADER_LEN buf;
     after \<leftarrow> slice DATA_HEADER_LEN (length buf) buf;
     let buf = before @ replicate pad 0 @ after;
     let new_len = of_nat (length buf);
     buf \<leftarrow> put_word 4 new_len buf;
     buf \<leftarrow> put_word 8 (of_nat (DATA_HEADER_LEN - OFFSET_BASE + pad)) buf;
     frames \<leftarrow> unwrap (packet_test_collect buf);
     assert (frames = [f])
   }"

subsection \<open>The control channel against scripted devices\<close>

text \<open>
  \<open>MockDevice\<close>. The clock is the test's: a transfer takes a millisecond. A panic in \<open>respond\<close> is
  recorded in the state, and every test asserts that there was none.
\<close>

record mock_device =
  md_sent :: "bytes list"
  md_replies :: "bytes list"
  md_preloaded :: "bytes list"
  md_mac :: bytes
  md_fail_permanent_address :: bool
  md_clock :: instant
  md_panicked :: bool

definition mock_new :: "bytes \<Rightarrow> mock_device" where
  "mock_new mac = \<lparr>md_sent = [], md_replies = [], md_preloaded = [], md_mac = mac,
     md_fail_permanent_address = False, md_clock = 0, md_panicked = False\<rparr>"

definition mock_respond :: "bytes \<Rightarrow> mock_device \<Rightarrow> mock_device option" where
  "mock_respond msg d = do {
     msg_type \<leftarrow> unwrap (Some (u32_at msg 0));
     id \<leftarrow> unwrap (Some (u32_at msg 8));
     if msg_type = MSG_INIT then
       Some (d\<lparr>md_replies := md_replies d @
         [extend_words [MSG_INIT_C, 52, id, STATUS_SUCCESS, 1, 0, 0, 0, 8, 16384, 0, 0, 0]]\<rparr>)
     else if msg_type = MSG_QUERY then do {
       oid \<leftarrow> unwrap (Some (u32_at msg 12));
       let fail = (md_fail_permanent_address d \<and> oid = OID_802_3_PERMANENT_ADDRESS);
       let r = (if fail then extend_words [MSG_QUERY_C, 24, id, 0xC0000001, 0, 0]
                else extend_words [MSG_QUERY_C, 30, id, STATUS_SUCCESS, 6, 16] @ md_mac d);
       Some (d\<lparr>md_replies := md_replies d @ [r]\<rparr>)
     }
     else if msg_type = MSG_SET \<or> msg_type = MSG_KEEPALIVE then do {
       let complete = (if msg_type = MSG_SET then MSG_SET_C else MSG_KEEPALIVE_C);
       Some (d\<lparr>md_replies := md_replies d @ [extend_words [complete, 16, id, STATUS_SUCCESS]]\<rparr>)
     }
     else Some d
   }"

definition mock_send :: "bytes \<Rightarrow> mock_device \<Rightarrow> (rndis_error + unit) \<times> mock_device" where
  "mock_send msg d =
     (let d = d\<lparr>md_sent := md_sent d @ [msg]\<rparr> in
      (Inr (), case mock_respond msg d of Some d \<Rightarrow> d | None \<Rightarrow> d\<lparr>md_panicked := True\<rparr>))"

definition mock_receive :: "mock_device \<Rightarrow> (rndis_error + bytes) \<times> mock_device" where
  "mock_receive d =
     (let d = d\<lparr>md_clock := md_clock d + from_millis 1\<rparr> in
      case md_preloaded d of
        m # ms \<Rightarrow> (Inr m, d\<lparr>md_preloaded := ms\<rparr>)
      | [] \<Rightarrow> (case md_replies d of
          m # ms \<Rightarrow> (Inr m, d\<lparr>md_replies := ms\<rparr>)
        | [] \<Rightarrow> (Inr [], d)))"

definition mock_await :: "duration \<Rightarrow> mock_device \<Rightarrow> (rndis_error + unit) \<times> mock_device" where
  "mock_await timeout d = (Inr (), d)"

definition mock_transport :: "mock_device control_transport" where
  "mock_transport = \<lparr>ct_send = mock_send, ct_receive = mock_receive, ct_await = mock_await,
     ct_now = \<lambda>d. (md_clock d, d)\<rparr>"

definition control_test_indicate :: "u32 \<Rightarrow> bytes" where
  "control_test_indicate status = extend_words [MSG_INDICATE, 20, status, 0, 0]"

text \<open>\<open>rndis.bring_up().unwrap()\<close> and \<open>rndis.initialize().unwrap()\<close>: a call that does not return fails
  the test, too.\<close>

definition unwrap_ok :: "('t, 'a) rndis_result option \<Rightarrow> ('a \<times> 't rndis) option" where
  "unwrap_ok x = (case x of Some (Inr a, r) \<Rightarrow> Some (a, r) | _ \<Rightarrow> None)"

text \<open>\<open>Iterator::any\<close> with a closure that may panic\<close>

fun any_of :: "('a \<Rightarrow> bool option) \<Rightarrow> 'a list \<Rightarrow> bool option" where
  "any_of p [] = Some False"
| "any_of p (x # xs) = do { b \<leftarrow> p x; if b then Some True else any_of p xs }"

definition control_test_bring_up_runs_init_query_set_in_order :: "unit option" where
  "control_test_bring_up_runs_init_query_set_in_order = do {
     let mac = [0xAA, 0xBB, 0xCC, 0x01, 0x02, 0x03];
     let rndis = rndis_new (mock_new mac);
     (session, rndis) \<leftarrow> unwrap_ok (bring_up mock_transport rndis);
     assert (\<not> md_panicked (rn_transport rndis));
     assert (se_host_mac session = mac);
     assert (se_device_max_transfer_size session = 16384);
     let sent = md_sent (rn_transport rndis);
     types \<leftarrow> those (map (\<lambda>m. unwrap (Some (u32_at m 0))) sent);
     assert (types = [MSG_INIT, MSG_QUERY, MSG_SET]);
     set' \<leftarrow> index sent 2;
     oid \<leftarrow> unwrap (Some (u32_at set' 12));
     assert (oid = OID_GEN_CURRENT_PACKET_FILTER);
     filter' \<leftarrow> unwrap (Some (u32_at set' 28));
     assert (filter' = DEFAULT_PACKET_FILTER)
   }"

definition control_test_falls_back_to_current_address_when_permanent_fails :: "unit option" where
  "control_test_falls_back_to_current_address_when_permanent_fails = do {
     let mac = [1, 2, 3, 4, 5, 6];
     let device = (mock_new mac)\<lparr>md_fail_permanent_address := True\<rparr>;
     let rndis = rndis_new device;
     (session, rndis) \<leftarrow> unwrap_ok (bring_up mock_transport rndis);
     assert (\<not> md_panicked (rn_transport rndis));
     assert (se_host_mac session = mac)
   }"

definition control_test_an_indicate_status_between_command_and_completion_is_handled :: "unit option" where
  "control_test_an_indicate_status_between_command_and_completion_is_handled = do {
     let device = mock_new [1, 2, 3, 4, 5, 6];
     let device = device\<lparr>md_preloaded := md_preloaded device @ [control_test_indicate STATUS_MEDIA_CONNECT]\<rparr>;
     let rndis = rndis_new device;
     (_, rndis) \<leftarrow> unwrap_ok (bring_up mock_transport rndis);
     assert (\<not> md_panicked (rn_transport rndis));
     assert (rn_link rndis = LinkUp)
   }"

definition control_test_a_device_keepalive_is_answered_during_a_transaction :: "unit option" where
  "control_test_a_device_keepalive_is_answered_during_a_transaction = do {
     let device = mock_new [1, 2, 3, 4, 5, 6];
     let ping = extend_words [MSG_KEEPALIVE, 12, 0x4242];
     let device = device\<lparr>md_preloaded := md_preloaded device @ [ping]\<rparr>;
     let rndis = rndis_new device;
     (_, rndis) \<leftarrow> unwrap_ok (rndis_initialize mock_transport rndis);
     assert (\<not> md_panicked (rn_transport rndis));
     let sent = md_sent (rn_transport rndis);
     answered \<leftarrow> any_of (\<lambda>m. do {
       ty \<leftarrow> unwrap (Some (u32_at m 0));
       if ty = MSG_KEEPALIVE_C then do { id \<leftarrow> unwrap (Some (u32_at m 8)); Some (id = 0x4242) }
       else Some False
     }) sent;
     assert answered
   }"

definition control_test_media_disconnect_is_reported :: "unit option" where
  "control_test_media_disconnect_is_reported = do {
     let device = mock_new [1, 2, 3, 4, 5, 6];
     let device = device\<lparr>md_preloaded := md_preloaded device @ [control_test_indicate STATUS_MEDIA_DISCONNECT]\<rparr>;
     let rndis = rndis_new device;
     (_, rndis) \<leftarrow> unwrap_ok (rndis_initialize mock_transport rndis);
     assert (\<not> md_panicked (rn_transport rndis));
     assert (rn_link rndis = LinkDown)
   }"

text \<open>The device \<open>Failing\<close> of one test and \<open>Silent\<close> of another; their state is the clock.\<close>

definition failing_transport :: "instant control_transport" where
  "failing_transport =
     \<lparr>ct_send = \<lambda>_ t. (Inr (), t),
      ct_receive = \<lambda>t. (Inr (extend_words [MSG_INIT_C, 52, 1, 0xC0000001, 1, 0, 0, 0, 1, 16384, 0, 0, 0]),
                        t + from_millis 1),
      ct_await = \<lambda>_ t. (Inr (), t), ct_now = \<lambda>t. (t, t)\<rparr>"

definition control_test_init_failure_status_is_surfaced :: "unit option" where
  "control_test_init_failure_status_is_surfaced = do {
     (r, _) \<leftarrow> rndis_initialize failing_transport (rndis_new 0);
     err \<leftarrow> unwrap_err (Some r);
     assert (err = RndisStatus 0xC0000001)
   }"

definition silent_transport :: "instant control_transport" where
  "silent_transport =
     \<lparr>ct_send = \<lambda>_ t. (Inr (), t), ct_receive = \<lambda>t. (Inr [], t),
      ct_await = \<lambda>timeout t. (Inr (), t + min timeout (from_millis 10)), ct_now = \<lambda>t. (t, t)\<rparr>"

definition control_test_a_silent_device_times_out_rather_than_hanging :: "unit option" where
  "control_test_a_silent_device_times_out_rather_than_hanging = do {
     (r, _) \<leftarrow> rndis_initialize silent_transport (rndis_new 0);
     err \<leftarrow> unwrap_err (Some r);
     assert (err = RndisNoResponse)
   }"

subsection \<open>The tests pass\<close>

lemma extend_words_eq [test_simps]: "extend_words vs = le_words vs"
  using fold_put_u32 [of vs "[]"] by (simp add: extend_words_def put_u32_def)

lemmas encode_words = encode_init_def [unfolded fold_put_u32 append_Nil]
  encode_query_def [unfolded fold_put_u32 append_Nil] encode_set_eq
  encode_keepalive_def [unfolded fold_put_u32 append_Nil]
  encode_keepalive_complete_def [unfolded fold_put_u32 append_Nil]

lemmas [test_simps] = const_simps encode_words u32_at_le_words_numeral
  u32_at_le_words_numeral [where xs = "[]", simplified] 

lemma take_le_words: "take (4 * n) (le_words ws) = le_words (take n ws)"
proof (induction ws arbitrary: n)
  case (Cons w ws)
  then show ?case by (cases n) (simp_all add: le_words_def)
qed (simp add: le_words_def)

lemma overwrite_le_words:
  assumes "k < length ws"
  shows "overwrite (4 * k) (to_le32 w) (le_words ws @ xs) = le_words (ws[k := w]) @ xs"
  using assms
proof (induction ws arbitrary: k)
  case (Cons v ws)
  then show ?case
    by (cases k) (simp_all add: overwrite_def le_words_def add.commute [of 4])
qed simp

lemma put_word_le_words:
  "a mod 4 = 0 \<Longrightarrow> a div 4 < length ws \<Longrightarrow> put_word a w (le_words ws @ xs) = Some (le_words (ws[a div 4 := w]) @ xs)"
  using overwrite_le_words [of "a div 4" ws w xs] by (auto simp: put_word_def mod_0_imp_dvd)

lemmas wire_simps = test_simps decode_init_complete_def decode_query_complete_def checked_add_def

text \<open>Messages\<close>

lemma wire_test_init_message_matches_the_wire_layout_passes:
  "wire_test_init_message_matches_the_wire_layout = Some ()"
  by (simp add: test_simps wire_test_init_message_matches_the_wire_layout_def le_words_def
      to_le32_eq)

lemma wire_test_set_message_points_at_its_own_payload_passes:
  "wire_test_set_message_points_at_its_own_payload = Some ()"
  by (simp add: test_simps wire_test_set_message_points_at_its_own_payload_def to_le32_eq)

lemma wire_test_decodes_init_complete_and_expands_the_alignment_exponent_passes:
  "wire_test_decodes_init_complete_and_expands_the_alignment_exponent = Some ()"
  by (simp add: wire_simps wire_test_decodes_init_complete_and_expands_the_alignment_exponent_def
      wire_test_init_complete_bytes_def)

lemma wire_test_absurd_alignment_exponent_does_not_shift_overflow_passes:
  "wire_test_absurd_alignment_exponent_does_not_shift_overflow = Some ()"
  by (simp add: wire_simps wire_test_absurd_alignment_exponent_does_not_shift_overflow_def
      wire_test_init_complete_bytes_def)

lemma wire_test_truncated_init_complete_is_rejected_passes:
  "wire_test_truncated_init_complete_is_rejected = Some ()"
  using take_le_words [of 5]
  by (simp add: wire_simps wire_test_truncated_init_complete_is_rejected_def
      wire_test_init_complete_bytes_def u32_at_truncated)

lemma wire_test_decodes_a_mac_address_from_query_complete_passes:
  "wire_test_decodes_a_mac_address_from_query_complete = Some ()"
  by (simp add: wire_simps wire_test_decodes_a_mac_address_from_query_complete_def)

lemma wire_test_query_complete_information_buffer_cannot_escape_the_message_passes:
  "wire_test_query_complete_information_buffer_cannot_escape_the_message = Some ()"
  by (simp add: wire_simps
      wire_test_query_complete_information_buffer_cannot_escape_the_message_def)

lemma wire_test_query_complete_offset_length_overflow_is_rejected_passes:
  "wire_test_query_complete_offset_length_overflow_is_rejected = Some ()"
  by (simp add: wire_simps wire_test_query_complete_offset_length_overflow_is_rejected_def)

lemma wire_test_failed_query_yields_status_without_an_information_buffer_passes:
  "wire_test_failed_query_yields_status_without_an_information_buffer = Some ()"
  by (simp add: wire_simps wire_test_failed_query_yields_status_without_an_information_buffer_def)

text \<open>Packets\<close>

lemma length_packet_test_frame [simp]: "length (packet_test_frame n) = n"
  by (simp add: packet_test_frame_def)

lemma packet_len_1 [simp]: "packet_len (Suc 0) f = 44 + length f" "packet_len 0 f = 44 + length f"
  by (simp_all add: packet_len_def next_multiple_of_def)

lemma packet_test_encode_eq:
  "packet_test_encode f = packet_msg 1 f"
  "packet_test_encode f = le_words [MSG_PACKET, of_nat (44 + length f), 36, of_nat (length f), 0, 0, 0, 0, 0, 0, 0] @ f"
  by (simp_all add: packet_test_encode_def packet_append_eq packet_msg_def)

lemma collect_results_map_Inr: "collect_results (map Inr xs) = Inr xs"
  by (induction xs) simp_all

lemma packet_test_collect_msgs:
  "\<forall>f\<in>set fs. packet_len alignment f < 2 ^ 32 \<Longrightarrow> length pad < 44 \<Longrightarrow>
   packet_test_collect (concat (map (packet_msg alignment) fs) @ pad) = Some (Inr fs)"
  by (simp add: packet_test_collect_def packet_decode_msgs collect_results_map_Inr)

lemma packet_decode_reject:
  assumes "44 \<le> length buf" "next_frame buf = Some (Inl e, b)"
  shows "packet_decode buf = Some [Inl e]"
  using assms by (simp add: packet_decode.simps [of buf] frames_next_def packet_decode_end const_simps)

lemmas packet_simps = test_simps put_word_le_words packet_test_encode_eq(2) packet_decode_reject packet_test_collect_def
  next_frame_def checked_add_def

lemma packet_test_round_trips_a_single_frame_passes:
  "packet_test_round_trips_a_single_frame = Some ()"
  using packet_test_collect_msgs [of "[packet_test_frame 64]" 1 "[]"]
  by (simp add: packet_test_round_trips_a_single_frame_def packet_test_encode_eq(1) assert_def)

lemma packet_test_splits_aggregated_frames_from_one_transfer_passes:
  "packet_test_splits_aggregated_frames_from_one_transfer = Some ()"
  using packet_test_collect_msgs [of "map packet_test_frame [64, 100, 1514]" 1 "[]"]
  by (simp add: packet_test_splits_aggregated_frames_from_one_transfer_def
      packet_test_encode_eq(1) assert_def)

lemma packet_test_ignores_trailing_padding_shorter_than_a_header_passes:
  "packet_test_ignores_trailing_padding_shorter_than_a_header = Some ()"
  using packet_test_collect_msgs [of "[packet_test_frame 64]" 1 "replicate 16 0"]
  by (simp add: packet_test_ignores_trailing_padding_shorter_than_a_header_def
      packet_test_encode_eq(1) assert_def)

lemma packet_test_empty_transfer_yields_nothing_passes:
  "packet_test_empty_transfer_yields_nothing = Some ()"
  using packet_test_collect_msgs [of "[]" 1 "[]"]
  by (simp add: packet_test_empty_transfer_yields_nothing_def assert_def)

lemma packet_test_rejects_data_length_running_past_the_message_passes:
  "packet_test_rejects_data_length_running_past_the_message = Some ()"
  by (simp add: packet_simps packet_test_rejects_data_length_running_past_the_message_def)

lemma packet_test_rejects_data_offset_running_past_the_message_passes:
  "packet_test_rejects_data_offset_running_past_the_message = Some ()"
  by (simp add: packet_simps packet_test_rejects_data_offset_running_past_the_message_def)

lemma packet_test_rejects_message_length_beyond_the_transfer_passes:
  "packet_test_rejects_message_length_beyond_the_transfer = Some ()"
  by (simp add: packet_simps packet_test_rejects_message_length_beyond_the_transfer_def)

lemma packet_test_rejects_message_length_shorter_than_the_header_passes:
  "packet_test_rejects_message_length_shorter_than_the_header = Some ()"
  by (simp add: packet_simps packet_test_rejects_message_length_shorter_than_the_header_def)

lemma packet_test_rejects_a_non_packet_message_passes:
  "packet_test_rejects_a_non_packet_message = Some ()"
  by (simp add: packet_simps packet_test_rejects_a_non_packet_message_def)

lemma packet_test_stops_after_a_malformed_packet_instead_of_looping_passes:
  "packet_test_stops_after_a_malformed_packet_instead_of_looping = Some ()"
  by (simp add: packet_simps packet_test_stops_after_a_malformed_packet_instead_of_looping_def)

lemma packet_test_appends_several_frames_into_one_transfer_passes:
  "packet_test_appends_several_frames_into_one_transfer = Some ()"
  using packet_test_collect_msgs [of "map packet_test_frame [64, 100, 1514]" 1 "[]"]
  by (simp add: packet_test_appends_several_frames_into_one_transfer_def packet_append_eq
      assert_def)

lemma packet_test_alignment_padding_keeps_frames_intact_and_aligned_passes:
  "packet_test_alignment_padding_keeps_frames_intact_and_aligned = Some ()"
  using packet_test_collect_msgs [of "map packet_test_frame [65, 101]" 8 "[]"]
  by (simp add: packet_test_alignment_padding_keeps_frames_intact_and_aligned_def
      packet_append_eq assert_def packet_len_def next_multiple_of_def)

lemma packet_test_alignment_of_zero_is_treated_as_one_passes:
  "packet_test_alignment_of_zero_is_treated_as_one = Some ()"
  using packet_test_collect_msgs [of "[packet_test_frame 64]" 0 "[]"]
  by (simp add: packet_test_alignment_of_zero_is_treated_as_one_def packet_append_eq assert_def)
lemma packet_decode_accept:
  assumes "44 \<le> length buf" "next_frame buf = Some (Inr f, rest)"
  shows "packet_decode buf = map_option ((#) (Inr f)) (packet_decode rest)"
  using assms by (cases "packet_decode rest") (simp_all add: packet_decode.simps [of buf] frames_next_def const_simps)

lemma packet_test_accepts_a_larger_than_minimum_data_offset_passes:
  "packet_test_accepts_a_larger_than_minimum_data_offset = Some ()"
  by (simp add: packet_simps packet_test_accepts_a_larger_than_minimum_data_offset_def
      packet_decode_accept packet_decode_end)

text \<open>The control channel\<close>

lemma transact_loop_done:
  assumes "rn_now T r = (now, r1)" "now < deadline" "transact_turn T expect i r1 = (Inr (Some reply), r2)"
  shows "transact_loop T expect i deadline r = Some (Inr reply, r2)"
  using assms by (simp add: transact_loop.simps)

lemma transact_loop_again:
  assumes "rn_now T r = (now, r1)" "now < deadline" "transact_turn T expect i r1 = (Inr None, r2)"
  shows "transact_loop T expect i deadline r = transact_loop T expect i deadline r2"
  using assms by (simp add: transact_loop.simps [of _ _ _ _ r])

lemmas mock_simps = mock_transport_def mock_send_def mock_receive_def mock_await_def mock_respond_def mock_new_def

lemmas control_simps = test_simps mock_simps rndis_new_def take_request_id_def transact_def transact_turn_def
  rn_send_def rn_receive_def rn_await_def rn_now_def handle_unsolicited_def decode_completion_def decode_indicate_status_def
  rndis_initialize_def decode_init_complete_def TRANSACTION_TIMEOUT_def from_secs_def from_millis_def max_def word_le_def
  unwrap_ok_def transact_loop_done transact_loop_again control_test_indicate_def

lemma control_test_media_disconnect_is_reported_passes:
  "control_test_media_disconnect_is_reported = Some ()"
  by (simp add: control_simps control_test_media_disconnect_is_reported_def)

lemma control_test_init_failure_status_is_surfaced_passes:
  "control_test_init_failure_status_is_surfaced = Some ()"
  by (simp add: control_simps control_test_init_failure_status_is_surfaced_def
      failing_transport_def)

lemma control_test_a_device_keepalive_is_answered_during_a_transaction_passes:
  "control_test_a_device_keepalive_is_answered_during_a_transaction = Some ()"
  by (simp add: control_simps control_test_a_device_keepalive_is_answered_during_a_transaction_def)

lemma replicate_6: "replicate 6 x = [x, x, x, x, x, x]"
  by (simp add: eval_nat_numeral)

lemmas bring_up_simps = bring_up_def query_mac_def rndis_query_def decode_query_complete_def rndis_set_def checked_add_def replicate_6
  u32_at_append u32_at_to_le32 [of _ "[]", simplified]

lemma control_test_an_indicate_status_between_command_and_completion_is_handled_passes:
  "control_test_an_indicate_status_between_command_and_completion_is_handled = Some ()"
  by (simp add: control_simps bring_up_simps
      control_test_an_indicate_status_between_command_and_completion_is_handled_def)

lemma control_test_falls_back_to_current_address_when_permanent_fails_passes:
  "control_test_falls_back_to_current_address_when_permanent_fails = Some ()"
  by (simp add: control_simps bring_up_simps
      control_test_falls_back_to_current_address_when_permanent_fails_def)

lemma control_test_bring_up_runs_init_query_set_in_order_passes:
  "control_test_bring_up_runs_init_query_set_in_order = Some ()"
  by (simp add: control_simps bring_up_simps control_test_bring_up_runs_init_query_set_in_order_def)

lemma transact_loop_silent:
  "\<exists>r'. transact_loop silent_transport expect i deadline r = Some (Inl RndisNoResponse, r')"
proof (induction "deadline - rn_transport r" arbitrary: r rule: less_induct)
  case less
  show ?case
  proof (cases "rn_transport r < deadline")
    case True
    let ?r = "r\<lparr>rn_transport := rn_transport r + from_millis 10\<rparr>"
    have "transact_loop silent_transport expect i deadline r = transact_loop silent_transport expect i deadline ?r"
      using True by (intro transact_loop_again) (auto simp: rn_now_def transact_turn_def rn_await_def rn_receive_def
          silent_transport_def POLL_INTERVAL_def from_millis_def)
    then show ?thesis
      using less [of ?r] True by (simp add: from_millis_def)
  qed (simp add: transact_loop.simps rn_now_def silent_transport_def)
qed

lemma control_test_a_silent_device_times_out_rather_than_hanging_passes:
  "control_test_a_silent_device_times_out_rather_than_hanging = Some ()"
proof -
  let ?r = "\<lparr>rn_transport = 0, rn_next_request_id = 2, rn_link = LinkUnknown\<rparr> :: instant rndis"
  obtain r' where "transact_loop silent_transport MSG_INIT_C 1 TRANSACTION_TIMEOUT ?r = Some (Inl RndisNoResponse, r')"
    using transact_loop_silent by blast
  then have "rndis_initialize silent_transport (rndis_new 0) = Some (Inl RndisNoResponse, r')"
    by (simp add: rndis_initialize_def rndis_new_def take_request_id_def transact_def rn_send_def rn_now_def
        silent_transport_def max_def word_le_def)
  then show ?thesis
    by (simp add: control_test_a_silent_device_times_out_rather_than_hanging_def assert_def)
qed

end
