(* ===== verification/Unit_Tests_Usb.thy ===== *)
theory Unit_Tests_Usb
  imports Unit_Tests Bulk_Io
begin

text \<open>
  The unit tests of \<^verbatim>\<open>src/src/usb/matcher.rs\<close> and \<^verbatim>\<open>src/src/link.rs\<close>, carried over one by one and
  run on the model: the descriptors of real gadgets, and the recovery of a stalled endpoint against
  the tests' scripted one, which is an instance of the endpoint parameter.
\<close>

subsection \<open>Descriptors\<close>

definition matcher_test_ep :: "u8 \<Rightarrow> transfer_type \<Rightarrow> endpoint_descriptor" where
  "matcher_test_ep address transfer_type =
     \<lparr>ep_address = address, ep_transfer_type = transfer_type, ep_max_packet_size = 512\<rparr>"

fun matcher_test_control_iface :: "u8 \<Rightarrow> u8 \<times> u8 \<times> u8 \<Rightarrow> bytes \<Rightarrow> interface_descriptor" where
  "matcher_test_control_iface number (class, subclass, protocol) extra =
     \<lparr>if_number = number, if_alt_setting = 0, if_class = class, if_subclass = subclass, if_protocol = protocol,
      if_endpoints = [matcher_test_ep 0x81 TInterrupt], if_extra = extra\<rparr>"

definition matcher_test_data_iface :: "u8 \<Rightarrow> interface_descriptor" where
  "matcher_test_data_iface number =
     \<lparr>if_number = number, if_alt_setting = 0, if_class = CLASS_CDC_DATA, if_subclass = 0, if_protocol = 0,
      if_endpoints = [matcher_test_ep 0x82 TBulk, matcher_test_ep 0x02 TBulk], if_extra = []\<rparr>"

text \<open>Header, Call Management, ACM and Union(0, 1), as an Android gadget sends them\<close>

definition matcher_test_android_cdc_extra :: bytes where
  "matcher_test_android_cdc_extra =
     [0x05, CS_INTERFACE, 0x00, 0x10, 0x01,
      0x05, CS_INTERFACE, 0x01, 0x00, 0x01,
      0x04, CS_INTERFACE, 0x02, 0x00,
      0x05, CS_INTERFACE, CDC_UNION, 0x00, 0x01]"

definition matcher_test_matches_android_rndis_gadget :: "unit option" where
  "matcher_test_matches_android_rndis_gadget = do {
     let config = \<lparr>cfg_value = 1, cfg_interfaces =
       [matcher_test_control_iface 0 (0xE0, 0x01, 0x03) matcher_test_android_cdc_extra,
        matcher_test_data_iface 1]\<rparr>;
     found \<leftarrow> find_rndis [config];
     assert (found = Some
       \<lparr>rf_config_value = 1, rf_control_interface = 0, rf_data_interface = 1, rf_data_alt_setting = 0,
        rf_interrupt_in = Some 0x81, rf_bulk_in = 0x82, rf_bulk_out = 0x02, rf_bulk_max_packet_size = 512\<rparr>)
   }"

definition matcher_test_matches_microsoft_comm_acm_vendor_signature :: "unit option" where
  "matcher_test_matches_microsoft_comm_acm_vendor_signature = do {
     let config = \<lparr>cfg_value = 1, cfg_interfaces =
       [matcher_test_control_iface 0 (0x02, 0x02, 0xFF) matcher_test_android_cdc_extra,
        matcher_test_data_iface 1]\<rparr>;
     found \<leftarrow> find_rndis [config];
     assert (found \<noteq> None)
   }"

definition matcher_test_matches_misc_class_4_1_signature :: "unit option" where
  "matcher_test_matches_misc_class_4_1_signature = do {
     let config = \<lparr>cfg_value = 1, cfg_interfaces =
       [matcher_test_control_iface 0 (0xEF, 0x04, 0x01) matcher_test_android_cdc_extra,
        matcher_test_data_iface 1]\<rparr>;
     found \<leftarrow> find_rndis [config];
     assert (found \<noteq> None)
   }"

definition matcher_test_union_descriptor_wins_over_adjacency :: "unit option" where
  "matcher_test_union_descriptor_wins_over_adjacency = do {
     let extra = matcher_test_android_cdc_extra;
     let last = length extra - 1;
     let extra = extra[last := 3];
     let config = \<lparr>cfg_value = 1, cfg_interfaces =
       [matcher_test_control_iface 0 (0xE0, 0x01, 0x03) extra,
        matcher_test_data_iface 1, matcher_test_data_iface 3]\<rparr>;
     found \<leftarrow> find_rndis [config];
     f \<leftarrow> found;
     assert (rf_data_interface f = 3)
   }"

definition matcher_test_falls_back_to_adjacent_interface_without_union :: "unit option" where
  "matcher_test_falls_back_to_adjacent_interface_without_union = do {
     let config = \<lparr>cfg_value = 1, cfg_interfaces =
       [matcher_test_control_iface 2 (0xE0, 0x01, 0x03) [], matcher_test_data_iface 3]\<rparr>;
     found \<leftarrow> find_rndis [config];
     f \<leftarrow> found;
     assert (rf_control_interface f = 2);
     assert (rf_data_interface f = 3)
   }"

definition matcher_test_picks_alt_setting_that_exposes_the_bulk_pair :: "unit option" where
  "matcher_test_picks_alt_setting_that_exposes_the_bulk_pair = do {
     let alt0 = (matcher_test_data_iface 1)\<lparr>if_endpoints := []\<rparr>;
     let alt1 = (matcher_test_data_iface 1)\<lparr>if_alt_setting := 1\<rparr>;
     let config = \<lparr>cfg_value = 1, cfg_interfaces =
       [matcher_test_control_iface 0 (0xE0, 0x01, 0x03) matcher_test_android_cdc_extra, alt0, alt1]\<rparr>;
     found \<leftarrow> find_rndis [config];
     f \<leftarrow> found;
     assert (rf_data_alt_setting f = 1)
   }"

definition matcher_test_finds_rndis_in_a_non_first_configuration :: "unit option" where
  "matcher_test_finds_rndis_in_a_non_first_configuration = do {
     let mtp_only = \<lparr>cfg_value = 1, cfg_interfaces =
       [\<lparr>if_number = 0, if_alt_setting = 0, if_class = 0x06, if_subclass = 0x01, if_protocol = 0x01,
         if_endpoints = [], if_extra = []\<rparr>]\<rparr>;
     let tether = \<lparr>cfg_value = 2, cfg_interfaces =
       [matcher_test_control_iface 0 (0xE0, 0x01, 0x03) matcher_test_android_cdc_extra,
        matcher_test_data_iface 1]\<rparr>;
     found \<leftarrow> find_rndis [mtp_only, tether];
     f \<leftarrow> found;
     assert (rf_config_value f = 2)
   }"

definition matcher_test_ignores_non_rndis_devices :: "unit option" where
  "matcher_test_ignores_non_rndis_devices = do {
     let config = \<lparr>cfg_value = 1, cfg_interfaces =
       [matcher_test_control_iface 0 (0x02, 0x06, 0x00) [], matcher_test_data_iface 1]\<rparr>;
     found \<leftarrow> find_rndis [config];
     assert (found = None)
   }"

definition matcher_test_rejects_control_interface_with_no_data_interface :: "unit option" where
  "matcher_test_rejects_control_interface_with_no_data_interface = do {
     let config = \<lparr>cfg_value = 1, cfg_interfaces =
       [matcher_test_control_iface 0 (0xE0, 0x01, 0x03) matcher_test_android_cdc_extra]\<rparr>;
     found \<leftarrow> find_rndis [config];
     assert (found = None)
   }"

definition matcher_test_union_parser_rejects_malformed_lengths :: "unit option" where
  "matcher_test_union_parser_rejects_malformed_lengths = do {
     sub \<leftarrow> union_subordinate [0x00, CS_INTERFACE, CDC_UNION, 0, 1];
     assert (sub = None);
     sub \<leftarrow> union_subordinate [0x40, CS_INTERFACE, CDC_UNION, 0, 1];
     assert (sub = None);
     sub \<leftarrow> union_subordinate [0x04, CS_INTERFACE, CDC_UNION, 0];
     assert (sub = None)
   }"

subsection \<open>Recovery\<close>

text \<open>
  \<open>FakeIn\<close>. The panics of its methods, an underflow of \<open>pending\<close> and an \<open>unwrap\<close> of an empty queue,
  are recorded in the state, and each test asserts that there was none.
\<close>

record fake_in =
  fk_pending :: usize
  fk_submits :: usize
  fk_cancels :: usize
  fk_halts :: usize
  fk_wedge :: bool
  fk_results :: "(usb_error + bytes) list"
  fk_panicked :: bool

definition fake_in_new :: fake_in where
  "fake_in_new = \<lparr>fk_pending = 0, fk_submits = 0, fk_cancels = 0, fk_halts = 0, fk_wedge = False,
     fk_results = [], fk_panicked = False\<rparr>"

definition fake_in_take :: "fake_in \<Rightarrow> fake_in" where
  "fake_in_take ep =
     (if fk_pending ep = 0 then ep\<lparr>fk_panicked := True\<rparr>
      else ep\<lparr>fk_pending := fk_pending ep - 1, fk_results := drop 1 (fk_results ep)\<rparr>)"

definition fake_in_submit :: "usize \<Rightarrow> fake_in \<Rightarrow> fake_in" where
  "fake_in_submit len ep =
     ep\<lparr>fk_submits := fk_submits ep + 1, fk_pending := fk_pending ep + 1,
        fk_results := fk_results ep @ [Inr []]\<rparr>"

definition fake_in_wait :: "duration \<Rightarrow> fake_in \<Rightarrow> (usb_error + bytes) option \<times> fake_in" where
  "fake_in_wait timeout ep =
     (if fk_wedge ep \<or> fk_pending ep = 0 then (None, ep)
      else
        (let ep = ep\<lparr>fk_pending := fk_pending ep - 1\<rparr> in
         case fk_results ep of
           r # rs \<Rightarrow> (Some r, ep\<lparr>fk_results := rs\<rparr>)
         | [] \<Rightarrow> (None, ep\<lparr>fk_panicked := True\<rparr>)))"

definition fake_in_cancel_all :: "fake_in \<Rightarrow> fake_in" where
  "fake_in_cancel_all ep =
     (let ep = ep\<lparr>fk_cancels := fk_cancels ep + 1\<rparr> in
      if fk_wedge ep then ep
      else ep\<lparr>fk_results := replicate (fk_pending ep) (Inl UsbTimeout)\<rparr>)"

definition fake_in_clear_halt :: "fake_in \<Rightarrow> (usb_error + unit) \<times> fake_in" where
  "fake_in_clear_halt ep = (Inr (), ep\<lparr>fk_halts := fk_halts ep + 1\<rparr>)"

definition fake_in_endpoint :: "fake_in in_endpoint" where
  "fake_in_endpoint = \<lparr>ie_submit = fake_in_submit, ie_wait = fake_in_wait, ie_pending = fk_pending,
     ie_cancel_all = fake_in_cancel_all, ie_clear_halt = fake_in_clear_halt\<rparr>"

definition link_test_recovers_a_stalled_bulk_in_endpoint :: "unit option" where
  "link_test_recovers_a_stalled_bulk_in_endpoint = do {
     let ep = fake_in_new;
     let ep = (fake_in_submit 16384 ^^ RX_DEPTH) ep;
     let ep = fake_in_take ep;
     let (r, ep) = recover_bulk_in fake_in_endpoint 16384 ep;
     assert (\<not> isl r \<and> \<not> fk_panicked ep);
     assert (fk_cancels ep = 1);
     assert (fk_halts ep = 1);
     assert (fk_pending ep = RX_DEPTH);
     assert (fk_submits ep = RX_DEPTH * 2)
   }"

definition link_test_refuses_to_clear_halt_while_reads_are_pending :: "unit option" where
  "link_test_refuses_to_clear_halt_while_reads_are_pending = do {
     let ep = fake_in_new;
     let ep = (fake_in_submit 16384 ^^ RX_DEPTH) ep;
     let ep = fake_in_take ep;
     let ep = ep\<lparr>fk_wedge := True\<rparr>;
     let (r, ep) = recover_bulk_in fake_in_endpoint 16384 ep;
     assert (isl r \<and> \<not> fk_panicked ep);
     assert (fk_halts ep = 0)
   }"

subsection \<open>The tests pass\<close>

lemmas [test_simps] = const_simps matcher_test_ep_def matcher_test_data_iface_def
  matcher_test_android_cdc_extra_def find_rndis_def find_rndis_in_config_def build_function_def
  is_control_signature_def CONTROL_SIGNATURES_def union_subordinate.simps endpoint_def direction_def

lemma matcher_test_matches_android_rndis_gadget_passes:
  "matcher_test_matches_android_rndis_gadget = Some ()"
  by (simp add: test_simps matcher_test_matches_android_rndis_gadget_def)

lemma matcher_test_matches_microsoft_comm_acm_vendor_signature_passes:
  "matcher_test_matches_microsoft_comm_acm_vendor_signature = Some ()"
  by (simp add: test_simps matcher_test_matches_microsoft_comm_acm_vendor_signature_def)

lemma matcher_test_matches_misc_class_4_1_signature_passes:
  "matcher_test_matches_misc_class_4_1_signature = Some ()"
  by (simp add: test_simps matcher_test_matches_misc_class_4_1_signature_def)

lemma matcher_test_union_descriptor_wins_over_adjacency_passes:
  "matcher_test_union_descriptor_wins_over_adjacency = Some ()"
  by (simp add: test_simps matcher_test_union_descriptor_wins_over_adjacency_def)

lemma matcher_test_falls_back_to_adjacent_interface_without_union_passes:
  "matcher_test_falls_back_to_adjacent_interface_without_union = Some ()"
  by (simp add: test_simps matcher_test_falls_back_to_adjacent_interface_without_union_def)

lemma matcher_test_picks_alt_setting_that_exposes_the_bulk_pair_passes:
  "matcher_test_picks_alt_setting_that_exposes_the_bulk_pair = Some ()"
  by (simp add: test_simps matcher_test_picks_alt_setting_that_exposes_the_bulk_pair_def)

lemma matcher_test_finds_rndis_in_a_non_first_configuration_passes:
  "matcher_test_finds_rndis_in_a_non_first_configuration = Some ()"
  by (simp add: test_simps matcher_test_finds_rndis_in_a_non_first_configuration_def)

lemma matcher_test_ignores_non_rndis_devices_passes:
  "matcher_test_ignores_non_rndis_devices = Some ()"
  by (simp add: test_simps matcher_test_ignores_non_rndis_devices_def)

lemma matcher_test_rejects_control_interface_with_no_data_interface_passes:
  "matcher_test_rejects_control_interface_with_no_data_interface = Some ()"
  by (simp add: test_simps matcher_test_rejects_control_interface_with_no_data_interface_def)

lemma matcher_test_union_parser_rejects_malformed_lengths_passes:
  "matcher_test_union_parser_rejects_malformed_lengths = Some ()"
  by (simp add: test_simps matcher_test_union_parser_rejects_malformed_lengths_def)

lemmas fake_in_simps = fake_in_new_def fake_in_take_def fake_in_submit_def fake_in_wait_def
  fake_in_cancel_all_def fake_in_clear_halt_def fake_in_endpoint_def

lemma link_test_recovers_a_stalled_bulk_in_endpoint_passes:
  "link_test_recovers_a_stalled_bulk_in_endpoint = Some ()"
  by (simp add: test_simps fake_in_simps recover_bulk_in_def submit_reads_def eval_nat_numeral
      link_test_recovers_a_stalled_bulk_in_endpoint_def)

lemma link_test_refuses_to_clear_halt_while_reads_are_pending_passes:
  "link_test_refuses_to_clear_halt_while_reads_are_pending = Some ()"
  by (simp add: test_simps fake_in_simps recover_bulk_in_def submit_reads_def eval_nat_numeral
      link_test_refuses_to_clear_halt_while_reads_are_pending_def)

end
