(* ===== verification/Unit_Tests_Host.thy ===== *)
theory Unit_Tests_Host
  imports Unit_Tests Status
begin

text \<open>
  The unit tests of \<^verbatim>\<open>src/src/tun/net.rs\<close>, \<^verbatim>\<open>src/src/tun/utun.rs\<close> and \<^verbatim>\<open>src/src/status.rs\<close>,
  carried over one by one and run on the model.
\<close>

subsection \<open>The tests\<close>

definition net_test_computes_the_network_address :: "unit option" where
  "net_test_computes_the_network_address = do {
     assert (subnet_of (Ipv4Addr 10 71 51 112) (Ipv4Addr 255 255 255 0) = Ipv4Addr 10 71 51 0);
     assert (subnet_of (Ipv4Addr 192 168 42 130) (Ipv4Addr 255 255 255 192) = Ipv4Addr 192 168 42 128)
   }"

text \<open>\<open>write\<close> returns before any system call, hence with success\<close>

definition utun_test_write_ignores_packets_that_are_not_ip :: "unit option" where
  "utun_test_write_ignores_packets_that_are_not_ip = do {
     assert (utun_write [] = None);
     assert (utun_write [0x00] = None)
   }"

text \<open>\<open>str::starts_with\<close>, \<open>str::contains\<close> and \<open>str::ends_with\<close>\<close>

definition starts_with :: "string \<Rightarrow> string \<Rightarrow> bool" where
  "starts_with p s \<longleftrightarrow> take (length p) s = p"

fun contains :: "string \<Rightarrow> string \<Rightarrow> bool" where
  "contains p [] = (p = [])"
| "contains p (c # s) = (starts_with p (c # s) \<or> contains p s)"

definition ends_with :: "string \<Rightarrow> string \<Rightarrow> bool" where
  "ends_with p s \<longleftrightarrow> starts_with (rev p) (rev s)"

definition status_test_encodes_a_connected_status :: "unit option" where
  "status_test_encodes_a_connected_status = do {
     let status = \<lparr>st_device = Some ''Xiaomi Redmi Note 10S'', st_link_up = True,
       st_interface = Some ''utun4'', st_address = Some (Ipv4Addr 10 71 51 112),
       st_gateway = Some (Ipv4Addr 10 71 51 57), st_dns = [Ipv4Addr 10 71 51 57],
       st_packets_in = 12, st_packets_out = 34\<rparr>;
     let line = status_encode status;
     assert (starts_with (''state=connected'' @ [TAB]) line);
     assert (contains ''interface=utun4'' line);
     assert (contains (''device=Xiaomi Redmi Note 10S'' @ [TAB]) line);
     assert (contains ''address=10.71.51.112'' line);
     assert (ends_with [NEWLINE] line)
   }"

definition status_test_encodes_missing_fields_as_placeholders :: "unit option" where
  "status_test_encodes_missing_fields_as_placeholders = do {
     let line = status_encode status_default;
     assert (starts_with (''state=waiting'' @ [TAB]) line);
     assert (contains (''interface=-'' @ [TAB]) line);
     assert (contains (''dns=-'' @ [TAB]) line)
   }"

subsection \<open>The tests pass\<close>

lemmas [test_simps] = subnet_of_def ip_of_u32_def to_be32_def from_be32_def utun_write_def status_encode_def status_default_def
  starts_with_def ends_with_def replace_char_def or_dash_def nat_string.simps

lemma net_test_computes_the_network_address_passes: "net_test_computes_the_network_address = Some ()"
  by (simp add: test_simps net_test_computes_the_network_address_def)

lemma utun_test_write_ignores_packets_that_are_not_ip_passes:
  "utun_test_write_ignores_packets_that_are_not_ip = Some ()"
  by (simp add: test_simps utun_test_write_ignores_packets_that_are_not_ip_def)

lemma status_test_encodes_a_connected_status_passes: "status_test_encodes_a_connected_status = Some ()"
  by (simp add: test_simps status_test_encodes_a_connected_status_def)

lemma status_test_encodes_missing_fields_as_placeholders_passes:
  "status_test_encodes_missing_fields_as_placeholders = Some ()"
  by (simp add: test_simps status_test_encodes_missing_fields_as_placeholders_def)

end
