(* ===== verification/Spec2Isabelle.thy ===== *)
theory Spec2Isabelle
  imports Session_Threads Run Probe Unit_Tests_Net Unit_Tests_Rndis Unit_Tests_Usb Unit_Tests_Host
begin

text \<open>
  A verification of \<^verbatim>\<open>muta\<close>, which gives macOS the USB tethering of an Android
  phone from user space: it claims the phone's RNDIS interface, runs a small network stack over it
  (Ethernet, ARP, a DHCP client) and bridges IP packets to a \<^verbatim>\<open>utun\<close> device with its
  routes and DNS. Sources are under \<^verbatim>\<open>src/src/\<close>.

  \<^bold>\<open>The program and its model.\<close> Each theory models one part, in the order the code has its
  functions, and opens with what it shows.

  \<^item> \<^verbatim>\<open>Prelude\<close>: machine integers, byte order, slices, addresses, durations and instants,
    the error-propagation combinators (\<open>tryq\<close>, \<open>tryr\<close>, \<open>trys\<close>), shared contracts and lemmas.
  \<^item> \<^verbatim>\<open>Ethernet\<close>, \<^verbatim>\<open>Arp\<close>, \<^verbatim>\<open>Ipv4\<close>, \<^verbatim>\<open>Dhcp\<close>: the files of
    \<^verbatim>\<open>netstack/\<close>, parsers and builders with their round trips, the checksum with its equivalence to
    the sum over the concatenation, the ARP cache with its rate limit, and the DHCP client as a state machine
    with an invariant over all reachable states and the exchanges it carries out.
  \<^item> \<^verbatim>\<open>Rndis_Wire\<close>, \<^verbatim>\<open>Rndis_Packet\<close>, \<^verbatim>\<open>Rndis_Control\<close>: the files of
    \<^verbatim>\<open>rndis/\<close>, messages, data framing, and the control channel over an abstract transport: what a
    transaction returns, which messages it serves on the way, that every operation returns, and the bring-up sequence.
  \<^item> \<^verbatim>\<open>Usb_Matcher\<close>, \<^verbatim>\<open>Bulk_Io\<close>, \<^verbatim>\<open>Usb_Device\<close>, \<^verbatim>\<open>Nusb\<close>:
    \<^verbatim>\<open>usb/\<close>, \<^verbatim>\<open>transport.rs\<close>, \<^verbatim>\<open>device.rs\<close> and the stall recovery of
    \<^verbatim>\<open>link.rs\<close>: finding the RNDIS function in descriptors, scanning and opening a phone with every handle
    accounted for, and the adapter to the nusb crate, shown to satisfy the laws that the other three assume.
  \<^item> \<^verbatim>\<open>Link_Tx\<close>, \<^verbatim>\<open>Link_Rx\<close>: the two threads of \<^verbatim>\<open>link.rs\<close>. Transmission
    delivers the frames of its channel in order within the device's limits (up to a stated excess); reception
    hands exactly the right packets to the tunnel, answers ARP, runs DHCP with its timers, and reports a failure once.
  \<^item> \<^verbatim>\<open>Tunnel\<close>: \<^verbatim>\<open>tunnel.rs\<close> and \<^verbatim>\<open>tun/\<close>, down to system calls, commands
    and the dynamic store: bringing the tunnel up and taking it down, or failing anywhere, leaves the system
    as it was.
  \<^item> \<^verbatim>\<open>Link_Threads\<close>: the link as a whole, \<open>Link::start\<close> and \<open>Link::shutdown\<close>, and the receive
    thread, the transmit thread, the tunnel's reader and the daemon interleaved over the state they share. What goes
    out is what they sent, in order; each consumer gets exactly its packets; the daemon sees every event; shutdown returns.
  \<^item> \<^verbatim>\<open>Status\<close>, \<^verbatim>\<open>Daemon\<close>, \<^verbatim>\<open>Service\<close>, \<^verbatim>\<open>Signals\<close>, \<^verbatim>\<open>Run\<close>:
    \<^verbatim>\<open>status.rs\<close>, \<^verbatim>\<open>daemon.rs\<close>, \<^verbatim>\<open>service.rs\<close>, \<^verbatim>\<open>signals.rs\<close> and
    \<^verbatim>\<open>main.rs\<close>: the status line and its server, the session loop and the loop around it, installation and removal, the
    log of the service, which signals the daemon survives, and \<open>muta run\<close> from its start to its clean end.
  \<^item> \<^verbatim>\<open>Session_Threads\<close>: \<open>run_session\<close> step by step, interleaved with the threads of its link. Every
    interleaving is a run of the turn-by-turn loop of \<^verbatim>\<open>Daemon\<close>; the consumer of packets and the reader are always
    those of the tunnel, a device is written exactly what the phone sent while it was attached, and an ended session leaves the system
    as it was.
  \<^item> \<^verbatim>\<open>Probe\<close>: \<^verbatim>\<open>probe.rs\<close>, with all that it prints: it shows exactly what is there, agrees with the
    daemon, and disturbs nothing.
  \<^item> \<^verbatim>\<open>Unit_Tests\<close>, \<^verbatim>\<open>Unit_Tests_Net\<close>, \<^verbatim>\<open>Unit_Tests_Rndis\<close>, \<^verbatim>\<open>Unit_Tests_Usb\<close>,
    \<^verbatim>\<open>Unit_Tests_Host\<close>: every unit test of the repository, with its helpers and scripted devices, as a
    definition named after its module and function, and the lemma that the model passes it. They show that the
    definitions behave as the code is known to on the inputs its authors chose.
  \<^item> This theory: what needs all the layers of the stack at once.

  \<^bold>\<open>Conventions.\<close> A panic, or a loop that does not return, is \<open>None\<close>; an \<open>Err\<close> is
  \<open>Inl\<close>. Fixed-width integers are words and wrap; \<open>usize\<close> is a natural number, and where the
  source would overflow it the model panics. State is passed explicitly. The clock is an argument, or a
  function of the environment's state that is read where the source reads it. Values that the source drops are
  closed where they go out of scope. Log output is left out, except where a component's purpose is to print.

  \<^bold>\<open>Code outside.\<close> The transport, the USB backend, the endpoints, the nusb crate, the operating system and the host's
  file system are records of functions on a state of any type, so that the definitions run on each of them.
  What is relied on is a named predicate: \<open>clock_ok\<close> and \<open>usb_clock_ok\<close> (time does not go back,
  and a read from the device takes time), \<open>in_endpoint_ok\<close> and \<open>out_endpoint_ok\<close> (a transfer is pending until
  it is returned), \<open>usb_ok\<close> (handles and queued reads), \<open>nusb_endpoint_ok\<close> and \<open>nusb_crate_ok\<close>
  (the same, of the crate), \<open>system_ok\<close> (descriptors, routes and keys), \<open>host_files\<close> and \<open>os_files\<close> (files),
  \<open>os_ok\<close> (the descriptors of the process and the files that paths name), \<open>tx_running\<close> and \<open>tx_stopping\<close> (the bulk OUT
  endpoint while the link runs, and once it is being stopped). Each is shown to hold of a
  concrete instance where a property uses it. Statements about the order of calls need no such law: the
  definitions are run on an instance that records them (\<open>logged\<close>, \<open>traced\<close>, \<open>traced_host\<close>).

  \<^bold>\<open>Interfaces.\<close> Contracts shared by several components are locales: \<open>wire_codec\<close> (a parser and a builder;
  interpreted by ARP and UDP), \<open>neighbour_cache\<close> (what a look-up returns after an insertion; interpreted by
  the ARP cache), \<open>transport_invariant\<close> (what the three operations of a transport keep, every operation of the
  control channel keeps; interpreted by the USB transport) and \<open>scoped_resource\<close> (a failed construction changes nothing
  and a drop undoes a construction, so replacing a value does; interpreted by the utun descriptor, the published service and
  the tunnel, and used by the session loop).

  \<^bold>\<open>Loops.\<close> Loops over data are structural or have a measure. The loop of a transaction ends when the
  clock passes its deadline: it is a partial function into \<open>option\<close>, shown to return for every device. Loops that run until a
  signal, a failure or a closed channel (the threads, the session, the daemon, the servers) are
  given what happens outside turn by turn, as a list or as a step relation; properties hold after any number of turns.

  \<^bold>\<open>What the code does not do.\<close> The model showed, among the findings of the manifest: a transfer can exceed the
  device's limit by the padding or by one byte (\<open>Link_Tx\<close>); a renewal goes out as a broadcast (\<open>Link_Rx\<close>); a
  line feed in a device name cuts the status short (\<open>Status\<close>), and a silent client stops the status server and keeps the
  daemon from exiting (\<open>Run\<close>); a SIGHUP ends a foreground run without the teardown (\<open>Signals\<close>); an IPv6
  packet of the tunnel goes out in an IPv4 frame (\<open>Tunnel\<close>).

  \<^bold>\<open>Not modelled.\<close> The rates in the debug log, which are floating-point and only printed; the text of other log messages;
  the set-up of \<open>env_logger\<close> beyond its default filter. In \<^verbatim>\<open>Daemon\<close> and \<^verbatim>\<open>Run\<close> the link's threads appear as what they report and
  deliver; that this is all they can do to a session is the refinement in \<^verbatim>\<open>Session_Threads\<close>. The stop flag is an input of each turn there; which signals set it is
  \<^verbatim>\<open>Signals\<close>.
\<close>

subsection \<open>A lease through all the layers\<close>

text \<open>
  C1: From DISCOVER to a working link. After the client has sent a DISCOVER, the phone's OFFER and then
  its ACK, each a DHCP message in UDP, IPv4, Ethernet and RNDIS framing, take the receive path
  through all its layers. The OFFER makes it queue a REQUEST frame for the offered address and that
  server; the ACK gives the daemon exactly the lease the server described, makes ARP answer for the
  leased address, makes the server's address resolve to the phone's hardware address for as long as
  an entry lives, and schedules the renewal at half the lease time. Nothing of it reaches the
  tunnel.
\<close>

theorem lease_through_the_stack:
  assumes "rx_dhcp st = snd (dhcp_discover c)" and "dst = rc_host_mac X \<or> is_multicast dst"
    and "ip \<noteq> IP_UNSPECIFIED" and "length dns < 64"
  shows "\<exists>req st1 st2.
    handle_transfer X (phone_transfer dst phone srv IP_BROADCAST
      (server_reply (rx_dhcp st) OFFER ip (server_options srv secs netmask router dns))) st = Some st1
    \<and> rx_tx st1 = rx_tx st @ [dhcp_frame (rc_host_mac X) req]
    \<and> dhcp_option req OPT_MESSAGE_TYPE = Some [REQUEST]
    \<and> dhcp_option req OPT_REQUESTED_IP = Some (octets ip) \<and> dhcp_option req OPT_SERVER_ID = Some (octets srv)
    \<and> handle_transfer X (phone_transfer dst phone srv IP_BROADCAST
        (server_reply (rx_dhcp st1) ACK ip (server_options srv secs netmask router dns))) st1 = Some st2
    \<and> rx_events st2 = rx_events st @ [LinkBound (server_lease ip srv secs netmask router dns)]
    \<and> arp_host_ip (rx_arp st2) = ip
    \<and> (\<forall>now. now - rc_clock X (Suc (rx_reads st)) < ENTRY_TTL \<longrightarrow> arp_lookup now (rx_arp st2) srv = Some phone)
    \<and> dt_renew_at (rx_timer st2) = Some (rc_clock X (rx_reads st) + from_secs (unat secs) div 2)
    \<and> dt_next (rx_timer st2) = rc_clock X (rx_reads st) + from_secs (unat secs) div 2
    \<and> rx_sink st2 = rx_sink st"
proof -
  let ?opts = "server_options srv secs netmask router dns"
  let ?lease = "server_lease ip srv secs netmask router dns"
  define c1 where "c1 = rx_dhcp st"
  define c2 where "c2 = c1\<lparr>dc_offered := Some ip, dc_server_id := Some srv, dc_state := Requesting\<rparr>"
  define req where "req = dhcp_build c2 REQUEST IP_UNSPECIFIED (Some ip) (Some srv)"
  define st1 where "st1 = send_dhcp X req (st\<lparr>rx_dhcp := c2\<rparr>)"
  have len: "length (server_reply c' t ip ?opts) \<le> 65507" for c' t
    by (rule le_trans [OF length_server_reply [OF assms(4)]]) simp
  have "dc_state c1 = Selecting"
    using assms(1) by (simp add: c1_def dhcp_discover_def Let_def)
  from dhcp_offer_handled [OF this assms(4), of ip srv secs netmask router "[]"]
  have "dhcp_handle (rx_dhcp st) (server_reply c1 OFFER ip ?opts) = Some (Inr (EvSend req), c2)"
    by (simp add: c1_def c2_def req_def Let_def)
  from handle_transfer_phone [OF len assms(2) this]
  have t1: "handle_transfer X (phone_transfer dst phone srv IP_BROADCAST (server_reply c1 OFFER ip ?opts)) st = Some st1"
    by (simp add: handle_dhcp_event_def st1_def)
  have st1: "rx_dhcp st1 = c2" "rx_tx st1 = rx_tx st @ [dhcp_frame (rc_host_mac X) req]" "rx_reads st1 = rx_reads st"
    "rx_events st1 = rx_events st" "rx_sink st1 = rx_sink st" "rx_arp st1 = rx_arp st" "rx_timer st1 = rx_timer st"
    by (simp_all add: st1_def send_dhcp_def)
  define c3 where "c3 = c2\<lparr>dc_state := Bound, dc_lease := Some ?lease\<rparr>"
  have "dhcp_handle (rx_dhcp st1) (server_reply c2 ACK ip ?opts) = Some (Inr (EvBound ?lease), c3)"
    using dhcp_ack_handled [of c2 ip dns srv secs netmask router "[]"] assms(3,4) by (simp add: st1 c2_def c3_def)
  from handle_transfer_phone [OF len assms(2) this]
  have t2: "handle_transfer X (phone_transfer dst phone srv IP_BROADCAST (server_reply c2 ACK ip ?opts)) st1 =
      Some (handle_dhcp_event X phone srv (Inr (EvBound ?lease)) (st1\<lparr>rx_dhcp := c3\<rparr>))" .
  have req: "dhcp_option req OPT_MESSAGE_TYPE = Some [REQUEST]" "dhcp_option req OPT_REQUESTED_IP = Some (octets ip)"
    "dhcp_option req OPT_SERVER_ID = Some (octets srv)"
    by (simp_all add: req_def dhcp_option_build build_options_def const_simps)
  define st2 where "st2 = handle_dhcp_event X phone srv (Inr (EvBound ?lease)) (st1\<lparr>rx_dhcp := c3\<rparr>)"
  have arp: "rx_arp st2 = arp_insert (rc_clock X (Suc (rx_reads st))) srv phone (arp_set_host_ip ip (rx_arp st))"
    and rest: "dt_renew_at (rx_timer st2) = Some (rc_clock X (rx_reads st) + from_secs (unat secs) div 2)"
    "dt_next (rx_timer st2) = rc_clock X (rx_reads st) + from_secs (unat secs) div 2"
    "rx_events st2 = rx_events st @ [LinkBound ?lease]" "rx_sink st2 = rx_sink st"
    by (simp_all add: st2_def handle_dhcp_event_def rx_now_def timer_bound_def st1 server_lease_def Let_def)
  have "arp_host_ip (rx_arp st2) = ip"
    by (simp add: arp arp_insert_def arp_set_host_ip_def)
  moreover have "\<forall>now. now - rc_clock X (Suc (rx_reads st)) < ENTRY_TTL \<longrightarrow> arp_lookup now (rx_arp st2) srv = Some phone"
    unfolding arp by (simp add: arp_neighbours.lookup_store_fresh)
  ultimately show ?thesis
    using t1 t2 req st1 rest by (intro exI [of _ req] exI [of _ st1] exI [of _ st2]) (simp add: c1_def st2_def)
qed

text \<open>The start of a session, and a phone that answers at 192.168.42.129.\<close>

theorem lease_through_the_stack_witness:
  "\<exists>st1. handle_transfer demo_context (phone_transfer MAC_BROADCAST (MacAddr 2 0 0 0 0 1) (Ipv4Addr 192 168 42 129) IP_BROADCAST
      (server_reply (rx_dhcp (th_rx (rx_start demo_context read_queue 16384 [] []))) OFFER (Ipv4Addr 192 168 42 130)
        (server_options (Ipv4Addr 192 168 42 129) 3600 (Ipv4Addr 255 255 255 0) (Ipv4Addr 192 168 42 129) [])))
      (th_rx (rx_start demo_context read_queue 16384 [] [])) = Some st1"
proof -
  let ?st = "th_rx (rx_start demo_context read_queue 16384 [] [])"
  have st: "rx_dhcp ?st = snd (dhcp_discover (dhcp_new (rc_host_mac demo_context) (mac_xid (rc_host_mac demo_context))))"
    by (simp add: rx_start_def send_dhcp_def Let_def case_prod_beta)
  have hyps: "MAC_BROADCAST = rc_host_mac demo_context \<or> is_multicast MAC_BROADCAST"
    "Ipv4Addr 192 168 42 130 \<noteq> IP_UNSPECIFIED" "length ([] :: ipv4_addr list) < 64"
    by (simp_all add: IP_UNSPECIFIED_def)
  from lease_through_the_stack [OF st hyps, of "MacAddr 2 0 0 0 0 1" "Ipv4Addr 192 168 42 129" 3600
      "Ipv4Addr 255 255 255 0" "Ipv4Addr 192 168 42 129"]
  show ?thesis by blast
qed

end
